(* ===== verification/Prelude.thy ===== *)
theory Prelude
  imports Main
begin

text \<open>
  What every component shares: the types that name Go's data, the collections of facts the
  component proofs rest on, and generic lemmas on lists, options and maps.

  A Go \<open>string\<close> or \<open>[]byte\<close> is a sequence of bytes and is modelled as a \<open>string\<close>,
  a list of 8-bit characters; lengths and indices count bytes, as Go's do.
\<close>

type_synonym bytes = string

named_theorems path_simps "facts about cutting and splitting key paths"
named_theorems obj_simps "the laws of the insertion-ordered object"
named_theorems wf_intros "preservation of well-formedness"
named_theorems wire_simps "encoders and decoders of the wire formats"

abbreviation nl :: char where
  "nl \<equiv> CHR 0x0A"

abbreviation backslash :: char where
  "backslash \<equiv> CHR 0x5C"

abbreviation dquote :: char where
  "dquote \<equiv> CHR 0x22"

subsection \<open>Lists addressed by index\<close>

text \<open>\<open>append(xs[:i], xs[i+1:]...)\<close>, the Go idiom that removes one element.\<close>

definition remove_at :: "nat \<Rightarrow> 'a list \<Rightarrow> 'a list" where
  "remove_at i xs = take i xs @ drop (Suc i) xs"

lemma length_remove_at [simp]: "i < length xs \<Longrightarrow> length (remove_at i xs) = length xs - 1"
  by (simp add: remove_at_def)

lemma nth_remove_at:
  "i < length xs \<Longrightarrow> j < length xs - 1 \<Longrightarrow>
    remove_at i xs ! j = (if j < i then xs ! j else xs ! Suc j)"
  by (auto simp: remove_at_def nth_append min_def)

lemma set_remove_at: "set (remove_at i xs) \<subseteq> set xs"
  by (auto simp: remove_at_def dest: in_set_takeD in_set_dropD)

lemma remove_at_split: "i = length as \<Longrightarrow> remove_at i (as @ x # bs) = as @ bs"
  by (simp add: remove_at_def)

lemma map_remove_at: "map f (remove_at i xs) = remove_at i (map f xs)"
  by (simp add: remove_at_def take_map drop_map)

lemma distinct_remove_at: "distinct xs \<Longrightarrow> distinct (remove_at i xs)"
  using set_take_disj_set_drop_if_distinct [of xs i "Suc i"] by (simp add: remove_at_def)

lemma notin_remove_at:
  assumes "distinct xs" and "i < length xs"
  shows "set (remove_at i xs) = set xs - {xs ! i}"
proof -
  have xs: "xs = take i xs @ xs ! i # drop (Suc i) xs"
    using assms(2) by (simp add: id_take_nth_drop)
  have "distinct (take i xs @ xs ! i # drop (Suc i) xs)"
    using assms(1) xs by metis
  then show ?thesis
    by (subst (2) xs) (auto simp: remove_at_def)
qed

subsection \<open>Padding a list up to an index\<close>

text \<open>The loop \<open>for len(c) <= i { c = append(c, nil) }\<close>.\<close>

definition pad_to :: "'a \<Rightarrow> nat \<Rightarrow> 'a list \<Rightarrow> 'a list" where
  "pad_to x i xs = xs @ replicate (Suc i - length xs) x"

lemma length_pad_to: "length (pad_to x i xs) = max (length xs) (Suc i)"
  by (simp add: pad_to_def)

lemma pad_to_longer: "i < length xs \<Longrightarrow> pad_to x i xs = xs"
  by (simp add: pad_to_def)

lemma nth_pad_to:
  "j < length (pad_to x i xs) \<Longrightarrow> pad_to x i xs ! j = (if j < length xs then xs ! j else x)"
  by (simp add: pad_to_def nth_append)

lemma set_pad_to: "set (pad_to x i xs) \<subseteq> insert x (set xs)"
  by (auto simp: pad_to_def)

subsection \<open>Prefixes of a concatenation\<close>

lemma take_append_cases:
  "take n (xs @ ys) = (if n \<le> length xs then take n xs else xs @ take (n - length xs) ys)"
  by auto

subsection \<open>Running a sequence\<close>

text \<open>What the steps return, and the state after them.\<close>

fun run_all :: "('x \<Rightarrow> 's \<Rightarrow> 'r \<times> 's) \<Rightarrow> 'x list \<Rightarrow> 's \<Rightarrow> 'r list \<times> 's" where
  "run_all f [] s = ([], s)"
| "run_all f (x # xs) s =
     (case f x s of (r, s') \<Rightarrow> (case run_all f xs s' of (rs, s'') \<Rightarrow> (r # rs, s'')))"

lemma snd_run_all: "snd (run_all f xs s) = fold (\<lambda>x s. snd (f x s)) xs s"
proof (induction xs arbitrary: s)
  case (Cons x xs)
  obtain r s' where "f x s = (r, s')" by fastforce
  then show ?case using Cons.IH [of s'] by (cases "run_all f xs s'") simp
qed simp

end
