(* ===== verification/GoText.thy ===== *)
theory GoText
  imports Prelude
begin

text \<open>
  The functions of Go's \<open>strings\<close>, \<open>bytes\<close> and \<open>strconv\<close> packages that the program
  calls, on byte strings: \<open>IndexByte\<close>, \<open>Split\<close>, \<open>Cut\<close>, \<open>HasPrefix\<close>,
  \<open>TrimPrefix\<close>, \<open>TrimSuffix\<close>, \<open>TrimSpace\<close>, \<open>Atoi\<close>, \<open>FormatInt\<close> and
  \<open>FormatUint\<close>.
\<close>

subsection \<open>Searching and cutting\<close>

text \<open>\<open>strings.IndexByte\<close>; its result -1 is \<open>None\<close>.\<close>

fun index_byte :: "char \<Rightarrow> bytes \<Rightarrow> nat option" where
  "index_byte c [] = None"
| "index_byte c (x # xs) = (if x = c then Some 0 else map_option Suc (index_byte c xs))"

lemma index_byte_None [path_simps]: "index_byte c s = None \<longleftrightarrow> c \<notin> set s"
  by (induction s) auto

lemma index_byte_Some:
  "index_byte c s = Some i \<Longrightarrow> i < length s \<and> s ! i = c \<and> c \<notin> set (take i s)"
  by (induction s arbitrary: i) (auto split: if_splits)

lemma index_byte_split:
  assumes "index_byte c s = Some i"
  shows "s = take i s @ c # drop (Suc i) s"
  using index_byte_Some [OF assms] by (metis id_take_nth_drop)

lemma index_byte_append:
  "c \<notin> set as \<Longrightarrow> index_byte c (as @ c # bs) = Some (length as)"
  by (induction as) auto

text \<open>\<open>strings.Split(s, sep)\<close> for a separator of one byte.\<close>

fun split_byte :: "char \<Rightarrow> bytes \<Rightarrow> bytes list" where
  "split_byte c [] = [[]]"
| "split_byte c (x # xs) =
     (if x = c then [] # split_byte c xs
      else (case split_byte c xs of [] \<Rightarrow> [[x]] | s # ss \<Rightarrow> (x # s) # ss))"

lemma split_byte_nonempty [simp]: "split_byte c s \<noteq> []"
  by (induction s) (auto split: list.splits)

lemma split_byte_none: "c \<notin> set s \<Longrightarrow> split_byte c s = [s]"
  by (induction s) auto

lemma split_byte_append:
  "c \<notin> set as \<Longrightarrow> split_byte c (as @ c # bs) = as # split_byte c bs"
  by (induction as) auto

lemma split_byte_index:
  "split_byte c s =
    (case index_byte c s of None \<Rightarrow> [s] | Some i \<Rightarrow> take i s # split_byte c (drop (Suc i) s))"
proof (cases "index_byte c s")
  case None
  then show ?thesis using index_byte_None [of c s] by (simp add: split_byte_none)
next
  case (Some i)
  then have "c \<notin> set (take i s)" by (rule index_byte_Some [THEN conjunct2, THEN conjunct2])
  then have "split_byte c (take i s @ c # drop (Suc i) s) = take i s # split_byte c (drop (Suc i) s)"
    by (rule split_byte_append)
  with Some show ?thesis using index_byte_split [OF Some] by simp
qed

text \<open>\<open>strings.Cut(s, sep)\<close> for a separator of one byte: before, after and found.\<close>

definition cut_byte :: "char \<Rightarrow> bytes \<Rightarrow> bytes \<times> bytes \<times> bool" where
  "cut_byte c s =
     (case index_byte c s of
        None \<Rightarrow> (s, [], False)
      | Some i \<Rightarrow> (take i s, drop (Suc i) s, True))"

definition has_prefix :: "bytes \<Rightarrow> bytes \<Rightarrow> bool" where
  "has_prefix s p \<longleftrightarrow> take (length p) s = p"

definition has_suffix :: "bytes \<Rightarrow> bytes \<Rightarrow> bool" where
  "has_suffix s p \<longleftrightarrow> length p \<le> length s \<and> drop (length s - length p) s = p"

definition trim_prefix :: "bytes \<Rightarrow> bytes \<Rightarrow> bytes" where
  "trim_prefix s p = (if has_prefix s p then drop (length p) s else s)"

definition trim_suffix :: "bytes \<Rightarrow> bytes \<Rightarrow> bytes" where
  "trim_suffix s p = (if has_suffix s p then take (length s - length p) s else s)"

lemma has_prefix_append [simp]: "has_prefix (p @ s) p"
  by (simp add: has_prefix_def)

lemma trim_prefix_append [simp]: "trim_prefix (p @ s) p = s"
  by (simp add: trim_prefix_def)

lemma has_prefix_iff: "has_prefix s p \<longleftrightarrow> (\<exists>t. s = p @ t)"
  by (metis append_take_drop_id has_prefix_append has_prefix_def)

subsection \<open>Trimming white space\<close>

text \<open>
  \<open>TrimSpace\<close> removes the characters of \<open>unicode.IsSpace\<close> from both ends. In UTF-8
  each is one of these byte sequences; no other sequence decodes to one of them, forwards
  or backwards, so trimming runes is trimming these sequences.
\<close>

definition space_seqs :: "bytes list" where
  "space_seqs =
     [[CHR 0x09], [CHR 0x0A], [CHR 0x0B], [CHR 0x0C], [CHR 0x0D], [CHR 0x20],
      [CHR 0xC2, CHR 0x85], [CHR 0xC2, CHR 0xA0], [CHR 0xE1, CHR 0x9A, CHR 0x80]] @
     map (\<lambda>b. [CHR 0xE2, CHR 0x80, b])
       [CHR 0x80, CHR 0x81, CHR 0x82, CHR 0x83, CHR 0x84, CHR 0x85, CHR 0x86, CHR 0x87,
        CHR 0x88, CHR 0x89, CHR 0x8A, CHR 0xA8, CHR 0xA9, CHR 0xAF] @
     [[CHR 0xE2, CHR 0x81, CHR 0x9F], [CHR 0xE3, CHR 0x80, CHR 0x80]]"

text \<open>
  One pass removes at most one space; as many passes as there are bytes remove them all,
  because each successful pass shortens the string.
\<close>

definition strip_one :: "(bytes \<Rightarrow> bytes \<Rightarrow> bool) \<Rightarrow> (bytes \<Rightarrow> bytes \<Rightarrow> bytes) \<Rightarrow> bytes \<Rightarrow> bytes" where
  "strip_one has trim s = (case find (has s) space_seqs of None \<Rightarrow> s | Some p \<Rightarrow> trim s p)"

definition trim_left :: "bytes \<Rightarrow> bytes" where
  "trim_left s = (strip_one has_prefix trim_prefix ^^ length s) s"

definition trim_right :: "bytes \<Rightarrow> bytes" where
  "trim_right s = (strip_one has_suffix trim_suffix ^^ length s) s"

definition trim_space :: "bytes \<Rightarrow> bytes" where
  "trim_space s = trim_right (trim_left s)"

text \<open>Text that starts and ends with a printable ASCII byte is left alone.\<close>

definition printable :: "char \<Rightarrow> bool" where
  "printable c \<longleftrightarrow> 0x20 < (of_char c :: nat) \<and> (of_char c :: nat) < 0x7F"

lemma printable_not_space: "printable c \<Longrightarrow> p \<in> set space_seqs \<Longrightarrow> hd p \<noteq> c \<and> last p \<noteq> c"
  by (auto simp: space_seqs_def printable_def)

lemma space_seqs_nonempty: "p \<in> set space_seqs \<Longrightarrow> p \<noteq> []"
  by (auto simp: space_seqs_def)

lemma funpow_fixed: "f x = x \<Longrightarrow> (f ^^ n) x = x"
  by (induction n) auto

lemma trim_left_printable:
  assumes "s \<noteq> []" and "printable (hd s)"
  shows "trim_left s = s"
proof -
  have "\<not> has_prefix s p" if "p \<in> set space_seqs" for p
  proof
    assume "has_prefix s p"
    then obtain t where "s = p @ t" by (auto simp: has_prefix_iff)
    then show False
      using printable_not_space [OF assms(2) that] space_seqs_nonempty [OF that]
      by (cases p) auto
  qed
  then have "find (has_prefix s) space_seqs = None"
    by (simp add: find_None_iff)
  then have "strip_one has_prefix trim_prefix s = s"
    by (simp add: strip_one_def)
  then show ?thesis
    unfolding trim_left_def by (rule funpow_fixed)
qed

lemma trim_right_printable:
  assumes "s \<noteq> []" and "printable (last s)"
  shows "trim_right s = s"
proof -
  have "\<not> has_suffix s p" if p: "p \<in> set space_seqs" for p
  proof
    assume "has_suffix s p"
    then have "s = take (length s - length p) s @ p"
      by (metis append_take_drop_id has_suffix_def)
    then have "last s = last p"
      using space_seqs_nonempty [OF p] by (metis last_appendR)
    then show False
      using printable_not_space [OF assms(2) p] by simp
  qed
  then have "find (has_suffix s) space_seqs = None"
    by (simp add: find_None_iff)
  then have "strip_one has_suffix trim_suffix s = s"
    by (simp add: strip_one_def)
  then show ?thesis
    unfolding trim_right_def by (rule funpow_fixed)
qed

lemma trim_space_printable:
  "s \<noteq> [] \<Longrightarrow> printable (hd s) \<Longrightarrow> printable (last s) \<Longrightarrow> trim_space s = s"
  by (simp add: trim_space_def trim_left_printable trim_right_printable)

text \<open>A line that was read loses its newline.\<close>

lemma strip_newline: "strip_one has_suffix trim_suffix (s @ [nl]) = s"
  by (simp add: strip_one_def space_seqs_def has_suffix_def trim_suffix_def)

lemma trim_line:
  assumes "s \<noteq> []" "printable (hd s)" "printable (last s)"
  shows "trim_space (s @ [nl]) = s"
proof -
  have "strip_one has_suffix trim_suffix s = s"
  proof -
    have "trim_right s = s" by (rule trim_right_printable [OF assms(1,3)])
    have "\<not> has_suffix s p" if p: "p \<in> set space_seqs" for p
    proof
      assume "has_suffix s p"
      then have "s = take (length s - length p) s @ p"
        by (metis append_take_drop_id has_suffix_def)
      then have "last s = last p" using space_seqs_nonempty [OF p] by (metis last_appendR)
      then show False using printable_not_space [OF assms(3) p] by simp
    qed
    then have "find (has_suffix s) space_seqs = None" by (simp add: find_None_iff)
    then show ?thesis by (simp add: strip_one_def)
  qed
  then have "(strip_one has_suffix trim_suffix ^^ length (s @ [nl])) (s @ [nl]) = s"
    by (simp add: funpow_swap1 strip_newline funpow_fixed del: funpow.simps(2)
        add: funpow_Suc_right)
  moreover have "trim_left (s @ [nl]) = s @ [nl]"
    using assms by (intro trim_left_printable) simp_all
  ultimately show ?thesis by (simp add: trim_space_def trim_right_def)
qed

subsection \<open>Decimal integers\<close>

definition is_digit :: "char \<Rightarrow> bool" where
  "is_digit c \<longleftrightarrow> 0x30 \<le> (of_char c :: nat) \<and> (of_char c :: nat) \<le> 0x39"

definition digit_val :: "char \<Rightarrow> nat" where
  "digit_val c = of_char c - 0x30"

definition digit_char :: "nat \<Rightarrow> char" where
  "digit_char d = char_of (0x30 + d)"

text \<open>The value of a run of digits, most significant first.\<close>

definition digits_val :: "bytes \<Rightarrow> nat" where
  "digits_val ds = foldl (\<lambda>n c. 10 * n + digit_val c) 0 ds"

text \<open>\<open>strconv.FormatUint(n, 10)\<close> and \<open>strconv.FormatInt(i, 10)\<close>.\<close>

fun show_nat :: "nat \<Rightarrow> bytes" where
  "show_nat n = (if n < 10 then [digit_char n] else show_nat (n div 10) @ [digit_char (n mod 10)])"

declare show_nat.simps [simp del]

definition show_int :: "int \<Rightarrow> bytes" where
  "show_int i = (if i < 0 then CHR ''-'' # show_nat (nat (- i)) else show_nat (nat i))"

text \<open>
  \<open>strconv.Atoi\<close> on a 64-bit platform: an optional sign, at least one digit, nothing
  else, and a value that fits an \<open>int\<close>; \<open>None\<close> is its error.
\<close>

definition atoi :: "bytes \<Rightarrow> int option" where
  "atoi s =
     (let neg = (case s of [] \<Rightarrow> False | c # _ \<Rightarrow> c = CHR ''-'');
          ds = (case s of [] \<Rightarrow> [] | c # cs \<Rightarrow> if c = CHR ''-'' \<or> c = CHR ''+'' then cs else s);
          v = (if neg then - int (digits_val ds) else int (digits_val ds))
      in if ds = [] \<or> \<not> list_all is_digit ds then None
         else if - (2 ^ 63) \<le> v \<and> v < 2 ^ 63 then Some v else None)"

text \<open>Trimming twice is trimming once.\<close>

lemma found_space: "find (has s) space_seqs = Some p \<Longrightarrow> has s p \<and> p \<noteq> []"
  using space_seqs_nonempty [of p] by (metis find_Some_iff nth_mem)

lemma strip_prefix_shorter: "strip_one has_prefix trim_prefix s \<noteq> s \<Longrightarrow> length (strip_one has_prefix trim_prefix s) < length s"
  by (cases "find (has_prefix s) space_seqs")
    (auto simp: strip_one_def trim_prefix_def has_prefix_iff dest!: found_space)

lemma strip_suffix_shorter: "strip_one has_suffix trim_suffix s \<noteq> s \<Longrightarrow> length (strip_one has_suffix trim_suffix s) < length s"
  by (cases "find (has_suffix s) space_seqs")
    (auto simp: strip_one_def trim_suffix_def split: if_splits dest!: found_space)

lemma shrinking_fixed:
  assumes "\<And>s. f s \<noteq> s \<Longrightarrow> length (f s) < length (s :: bytes)"
  shows "length s \<le> n \<Longrightarrow> f ((f ^^ n) s) = (f ^^ n) s"
proof (induction n arbitrary: s)
  case 0
  then show ?case using assms [of s] by auto
next
  case (Suc n)
  show ?case
  proof (cases "f s = s")
    case True
    then show ?thesis using funpow_fixed [of f s "Suc n"] by simp
  next
    case False
    then have "length (f s) \<le> n" using assms [of s] Suc.prems by simp
    then show ?thesis using Suc.IH [of "f s"] by (simp add: funpow_swap1)
  qed
qed

lemma strip_trimmed:
  "strip_one has_prefix trim_prefix (trim_left s) = trim_left s"
  "strip_one has_suffix trim_suffix (trim_right s) = trim_right s"
  unfolding trim_left_def trim_right_def
  using shrinking_fixed [OF strip_prefix_shorter] shrinking_fixed [OF strip_suffix_shorter] by blast+

lemma strip_prefix_none: "strip_one has_prefix trim_prefix s = s \<longleftrightarrow> (\<forall>p \<in> set space_seqs. \<not> has_prefix s p)"
proof
  assume fixed: "strip_one has_prefix trim_prefix s = s"
  show "\<forall>p \<in> set space_seqs. \<not> has_prefix s p"
  proof (cases "find (has_prefix s) space_seqs")
    case (Some p)
    then have "has_prefix s p" "p \<noteq> []" by (auto dest: found_space)
    then have "length (strip_one has_prefix trim_prefix s) < length s"
      using Some by (auto simp: strip_one_def trim_prefix_def has_prefix_iff)
    with fixed show ?thesis by simp
  qed (auto simp: find_None_iff)
qed (simp add: strip_one_def find_None_iff [THEN iffD2])

lemma trim_right_prefix: "\<exists>t. s = trim_right s @ t"
proof -
  have one: "\<exists>t. u = strip_one has_suffix trim_suffix u @ t" for u
    by (auto simp: strip_one_def trim_suffix_def has_suffix_def split: option.split)
      (metis append_take_drop_id)
  have "\<exists>t. s = (strip_one has_suffix trim_suffix ^^ n) s @ t" for n
  proof (induction n)
    case (Suc n)
    then show ?case using one [of "(strip_one has_suffix trim_suffix ^^ n) s"] by (metis append.assoc comp_apply funpow.simps(2))
  qed simp
  then show ?thesis by (simp add: trim_right_def)
qed

lemma trim_space_idem [simp]: "trim_space (trim_space s) = trim_space s"
proof -
  let ?l = "trim_left s"
  obtain t where t: "?l = trim_right ?l @ t" using trim_right_prefix [of ?l] by blast
  have "\<forall>p \<in> set space_seqs. \<not> has_prefix ?l p" using strip_trimmed(1) [of s] strip_prefix_none by simp
  then have "\<forall>p \<in> set space_seqs. \<not> has_prefix (trim_right ?l) p"
    using t by (metis append.assoc has_prefix_iff)
  then have "strip_one has_prefix trim_prefix (trim_right ?l) = trim_right ?l" by (simp add: strip_prefix_none)
  then have "trim_left (trim_right ?l) = trim_right ?l" unfolding trim_left_def by (rule funpow_fixed)
  moreover have "trim_right (trim_right ?l) = trim_right ?l"
    unfolding trim_right_def [of "trim_right ?l"] by (rule funpow_fixed) (rule strip_trimmed)
  ultimately show ?thesis by (simp add: trim_space_def)
qed

end
