(* ===== verification/GoJson.thy ===== *)
theory GoJson
  imports GoText "HOL-Library.List_Lexorder" "HOL-Library.Char_ord"
begin

text \<open>
  What the program uses of Go's \<open>encoding/json\<close>: the quoting of a string, with the escapes
  that keep its output safe inside HTML, and \<open>Marshal\<close> of a decoded JSON value, which
  sorts the keys of a map. \<open>stringifyJSON\<close> and \<open>quoteJSONString\<close> are the program's
  own shortcuts for strings that need no escape (\<open>internal/db/db.go\<close>).
\<close>

subsection \<open>UTF-8\<close>

definition byte_in :: "nat \<Rightarrow> nat \<Rightarrow> char \<Rightarrow> bool" where
  "byte_in lo hi c \<longleftrightarrow> lo \<le> (of_char c :: nat) \<and> (of_char c :: nat) \<le> hi"

text \<open>
  \<open>utf8.DecodeRuneInString\<close>: the length of the character a string starts with, 0 where
  Go reports \<open>RuneError\<close> with length 1. The bounds on the second byte exclude overlong
  forms, surrogates and code points past 10FFFF.
\<close>

definition second_ok :: "char \<Rightarrow> char \<Rightarrow> bool" where
  "second_ok a b =
     (if a = CHR 0xE0 then byte_in 0xA0 0xBF b
      else if a = CHR 0xED then byte_in 0x80 0x9F b
      else if a = CHR 0xF0 then byte_in 0x90 0xBF b
      else if a = CHR 0xF4 then byte_in 0x80 0x8F b
      else byte_in 0x80 0xBF b)"

definition utf8_size :: "bytes \<Rightarrow> nat" where
  "utf8_size s =
     (case s of
        [] \<Rightarrow> 0
      | a # r \<Rightarrow>
          if byte_in 0 0x7F a then 1
          else if byte_in 0xC2 0xDF a then
            (case r of b # _ \<Rightarrow> if second_ok a b then 2 else 0 | _ \<Rightarrow> 0)
          else if byte_in 0xE0 0xEF a then
            (case r of b # c # _ \<Rightarrow> if second_ok a b \<and> byte_in 0x80 0xBF c then 3 else 0 | _ \<Rightarrow> 0)
          else if byte_in 0xF0 0xF4 a then
            (case r of b # c # d # _ \<Rightarrow>
               if second_ok a b \<and> byte_in 0x80 0xBF c \<and> byte_in 0x80 0xBF d then 4 else 0
             | _ \<Rightarrow> 0)
          else 0)"

subsection \<open>Quoting a string\<close>

definition hex_digit :: "nat \<Rightarrow> char" where
  "hex_digit n = (if n < 10 then char_of (0x30 + n) else char_of (0x57 + n))"

text \<open>Go's \<open>htmlSafeSet\<close> and the escapes of the ASCII bytes that are not in it.\<close>

definition html_safe :: "char \<Rightarrow> bool" where
  "html_safe c \<longleftrightarrow> byte_in 0x20 0x7F c \<and>
     c \<noteq> dquote \<and> c \<noteq> CHR ''&'' \<and> c \<noteq> CHR ''<'' \<and> c \<noteq> CHR ''>'' \<and> c \<noteq> backslash"

definition escape_ascii :: "char \<Rightarrow> bytes" where
  "escape_ascii c =
     (if html_safe c then [c]
      else if c = backslash \<or> c = dquote then [backslash, c]
      else if c = CHR 0x08 then [backslash, CHR ''b'']
      else if c = CHR 0x0C then [backslash, CHR ''f'']
      else if c = CHR 0x0A then [backslash, CHR ''n'']
      else if c = CHR 0x0D then [backslash, CHR ''r'']
      else if c = CHR 0x09 then [backslash, CHR ''t'']
      else [backslash, CHR ''u'', CHR ''0'', CHR ''0'',
            hex_digit (of_char c div 16), hex_digit (of_char c mod 16)])"

text \<open>
  A byte that starts no valid character is written as the escape of U+FFFD; U+2028 and
  U+2029 are escaped because JavaScript would read them as line ends.
\<close>

fun escape_json :: "bytes \<Rightarrow> bytes" where
  "escape_json [] = []"
| "escape_json (c # cs) =
     (if byte_in 0 0x7F c then escape_ascii c @ escape_json cs
      else let n = utf8_size (c # cs) in
        if n = 0 then backslash # ''ufffd'' @ escape_json cs
        else if take n (c # cs) = [CHR 0xE2, CHR 0x80, CHR 0xA8]
          then backslash # ''u2028'' @ escape_json (drop (n - 1) cs)
        else if take n (c # cs) = [CHR 0xE2, CHR 0x80, CHR 0xA9]
          then backslash # ''u2029'' @ escape_json (drop (n - 1) cs)
        else take n (c # cs) @ escape_json (drop (n - 1) cs))"

definition marshal_string :: "bytes \<Rightarrow> bytes" where
  "marshal_string s = dquote # escape_json s @ [dquote]"

text \<open>\<open>stringifyJSON\<close> and \<open>quoteJSONString\<close>: the loop that looks for a byte to escape.\<close>

fun needs_escape :: "bytes \<Rightarrow> bool" where
  "needs_escape [] = False"
| "needs_escape (c # cs) =
     (if (of_char c :: nat) < 0x20 \<or> 0x7F < (of_char c :: nat) \<or> c = dquote \<or> c = backslash
      then True else needs_escape cs)"

definition stringifyJSON :: "bytes \<Rightarrow> bytes" where
  "stringifyJSON s = (if needs_escape s then marshal_string s else dquote # s @ [dquote])"

definition quoteJSONString :: "bytes \<Rightarrow> bytes" where
  "quoteJSONString s = (if needs_escape s then marshal_string s else [dquote] @ s @ [dquote])"

subsection \<open>Decoded JSON values and \<open>Marshal\<close>\<close>

text \<open>
  The dynamic values a JSON decoder with \<open>UseNumber\<close> produces for an \<open>any\<close>:
  \<open>nil\<close>, \<open>bool\<close>, \<open>string\<close>, \<open>json.Number\<close> (the number's text), \<open>[]any\<close> and
  \<open>map[string]any\<close>, whose entries are listed in an order of no significance.
\<close>

datatype json_any =
    JNil
  | JBool bool
  | JString bytes
  | JNumber bytes
  | JArray "json_any list"
  | JMap "(bytes \<times> json_any) list"

fun join :: "bytes \<Rightarrow> bytes list \<Rightarrow> bytes" where
  "join sep [] = []"
| "join sep [x] = x"
| "join sep (x # y # xs) = x @ sep @ join sep (y # xs)"

text \<open>\<open>isValidNumber\<close> of \<open>encoding/json\<close>: the JSON grammar of a number.\<close>

definition strip_frac :: "bytes \<Rightarrow> bytes" where
  "strip_frac s =
     (case s of
        p # d # r \<Rightarrow> if p = CHR ''.'' \<and> is_digit d then dropWhile is_digit r else s
      | _ \<Rightarrow> s)"

definition strip_exp :: "bytes \<Rightarrow> bytes" where
  "strip_exp s =
     (case s of
        x # d # r \<Rightarrow>
          if x = CHR ''e'' \<or> x = CHR ''E'' then
            (if d = CHR ''+'' \<or> d = CHR ''-''
             then (if r = [] then s else dropWhile is_digit r)
             else dropWhile is_digit (d # r))
          else s
      | _ \<Rightarrow> s)"

definition valid_number :: "bytes \<Rightarrow> bool" where
  "valid_number s =
     (let r = (case s of c # cs \<Rightarrow> if c = CHR ''-'' then cs else s | [] \<Rightarrow> s) in
      case r of
        [] \<Rightarrow> False
      | d # ds \<Rightarrow>
          is_digit d \<and>
          strip_exp (strip_frac (if d = CHR ''0'' then ds else dropWhile is_digit ds)) = [])"

text \<open>
  \<open>json.Marshal\<close>: \<open>None\<close> where it reports an error, which a decoded value never
  causes. Map entries are written in the byte order of their keys.
\<close>

fun marshal :: "json_any \<Rightarrow> bytes option" where
  "marshal JNil = Some ''null''"
| "marshal (JBool b) = Some (if b then ''true'' else ''false'')"
| "marshal (JString s) = Some (marshal_string s)"
| "marshal (JNumber s) =
     (let t = (if s = [] then ''0'' else s) in if valid_number t then Some t else None)"
| "marshal (JArray xs) =
     map_option (\<lambda>ts. ''['' @ join '','' ts @ '']'') (those (map marshal xs))"
| "marshal (JMap kvs) =
     map_option
       (\<lambda>ts. ''{'' @ join '','' (map (\<lambda>(k, t). marshal_string k @ '':'' @ t) (sort_key fst ts)) @ ''}'')
       (those (map (\<lambda>(k, v). map_option (Pair k) (marshal v)) kvs))"

subsection \<open>Facts\<close>

lemma quoteJSONString_eq: "quoteJSONString s = stringifyJSON s"
  by (simp add: quoteJSONString_def stringifyJSON_def)

lemma needs_escape_iff:
  "needs_escape s \<longleftrightarrow>
     (\<exists>c \<in> set s. (of_char c :: nat) < 0x20 \<or> 0x7F < (of_char c :: nat) \<or> c = dquote \<or> c = backslash)"
  by (induction s) auto

text \<open>No control byte, and so no newline, survives in a quoted string.\<close>

lemma byte_in_const:
  "byte_in 0x20 0x7F backslash" "byte_in 0x20 0x7F dquote" "byte_in 0x20 0x7F CHR ''b''"
  "byte_in 0x20 0x7F CHR ''f''" "byte_in 0x20 0x7F CHR ''n''" "byte_in 0x20 0x7F CHR ''r''"
  "byte_in 0x20 0x7F CHR ''t''" "byte_in 0x20 0x7F CHR ''u''" "byte_in 0x20 0x7F CHR ''0''"
  by (simp_all add: byte_in_def)

lemma hex_digit_byte: "n < 16 \<Longrightarrow> byte_in 0x20 0x7F (hex_digit n)"
  by (simp add: hex_digit_def byte_in_def)

lemma escape_ascii_printable:
  assumes "byte_in 0 0x7F b"
  shows "list_all (byte_in 0x20 0x7F) (escape_ascii b)"
proof -
  have "(of_char b :: nat) div 16 < 16" and "(of_char b :: nat) mod 16 < 16"
    using assms by (simp_all add: byte_in_def)
  then have "list_all (byte_in 0x20 0x7F)
      [backslash, CHR ''u'', CHR ''0'', CHR ''0'',
       hex_digit (of_char b div 16), hex_digit (of_char b mod 16)]"
    by (simp only: list.pred_inject byte_in_const hex_digit_byte)
  moreover have "html_safe b \<Longrightarrow> byte_in 0x20 0x7F b"
    by (simp add: html_safe_def)
  ultimately show ?thesis
    unfolding escape_ascii_def using byte_in_const by (simp only: list.pred_inject split: if_split) blast
qed

lemma char_le_255: "(of_char c :: nat) \<le> 255"
  using nat_of_char_less_256 [of c] by linarith

lemma byte_in_widen:
  "byte_in 0x80 0xBF c \<Longrightarrow> byte_in 0x80 0xFF c"
  "byte_in 0x80 0xFF c \<Longrightarrow> byte_in 0x20 0xFF c"
  "byte_in 0x20 0x7F c \<Longrightarrow> byte_in 0x20 0xFF c"
  by (simp_all add: byte_in_def)

lemma second_ok_high: "second_ok a b \<Longrightarrow> byte_in 0x80 0xBF b"
  by (auto simp: second_ok_def byte_in_def split: if_splits)

lemma utf8_size_high:
  assumes "\<not> byte_in 0 0x7F a" and "byte_in 0x80 0xFF a"
  shows "list_all (byte_in 0x80 0xFF) (take (utf8_size (a # r)) (a # r))"
proof (cases r)
  case Nil
  with assms show ?thesis by (simp add: utf8_size_def)
next
  case (Cons b r2)
  show ?thesis
  proof (cases r2)
    case Nil
    with assms Cons second_ok_high [of a b] byte_in_widen
    show ?thesis by (simp add: utf8_size_def)
  next
    case c: (Cons c r3)
    show ?thesis
      using assms Cons c second_ok_high [of a b] byte_in_widen
      by (cases r3) (simp_all add: utf8_size_def)
  qed
qed

lemma escape_json_no_control: "list_all (byte_in 0x20 0xFF) (escape_json s)"
proof (induction s rule: escape_json.induct)
  case 1
  show ?case by simp
next
  case (2 b bs)
  show ?case
  proof (cases "byte_in 0 0x7F b")
    case True
    then have "list_all (byte_in 0x20 0xFF) (escape_ascii b)"
      using escape_ascii_printable [of b] byte_in_widen by (force simp: list_all_iff)
    with True 2 show ?thesis by simp
  next
    case False
    have "byte_in 0x80 0xFF b"
      using False char_le_255 [of b] by (simp add: byte_in_def)
    with False have "list_all (byte_in 0x80 0xFF) (take (utf8_size (b # bs)) (b # bs))"
      by (rule utf8_size_high)
    then have "list_all (byte_in 0x20 0xFF) (take (utf8_size (b # bs)) (b # bs))"
      using byte_in_widen by (simp add: list_all_iff)
    moreover have "list_all (byte_in 0x20 0xFF)
        (backslash # ''ufffd'' @ backslash # ''u2028'' @ backslash # ''u2029'')"
      by (simp add: byte_in_def)
    ultimately show ?thesis
      using 2 False by (simp add: Let_def)
  qed
qed

lemma stringifyJSON_no_control: "list_all (byte_in 0x20 0xFF) (stringifyJSON s)"
proof (cases "needs_escape s")
  case True
  then show ?thesis
    using escape_json_no_control [of s]
    by (simp add: stringifyJSON_def marshal_string_def byte_in_def)
next
  case False
  then have "byte_in 0x20 0xFF c" if "c \<in> set s" for c
    using that by (force simp: needs_escape_iff byte_in_def not_less)
  with False show ?thesis
    by (simp add: stringifyJSON_def list_all_iff) (simp add: byte_in_def)
qed

lemma stringifyJSON_no_newline: "nl \<notin> set (stringifyJSON s)"
  using stringifyJSON_no_control [of s] by (auto simp: list_all_iff byte_in_def)

end
