(* ===== verification/TreeObj.thy ===== *)
theory TreeObj
  imports GoJson
begin

text \<open>
  \<open>treeObj\<close> of \<open>internal/db/tree.go\<close>: an object that keeps its keys in insertion order,
  with a hash index from a key to its position. The interface \<open>ordered_object\<close> says what
  the document relies on (a finite map whose order only grows at the end and closes up on a
  removal); the interpretation at the end discharges it for the code's arrays and index.
\<close>

subsection \<open>The object\<close>

text \<open>
  The Go struct. It is a datatype rather than a record because the document nests it: a value
  of an object is again a tree.
\<close>

datatype 'v treeObj =
  TreeObj (keys: "bytes list") (raws: "bytes list") (vals: "'v list") (idx: "bytes \<rightharpoonup> nat")

definition newTreeObj :: "'v treeObj" where
  "newTreeObj = TreeObj [] [] [] Map.empty"

definition obj_get :: "'v treeObj \<Rightarrow> bytes \<Rightarrow> 'v option" where
  "obj_get ob k = (case idx ob k of None \<Rightarrow> None | Some i \<Rightarrow> Some (vals ob ! i))"

definition obj_set :: "bytes \<Rightarrow> bytes \<Rightarrow> 'v \<Rightarrow> 'v treeObj \<Rightarrow> 'v treeObj" where
  "obj_set k raw v ob =
     (case idx ob k of
        Some i \<Rightarrow> TreeObj (keys ob) (raws ob) ((vals ob)[i := v]) (idx ob)
      | None \<Rightarrow>
          TreeObj (keys ob @ [k]) (raws ob @ [raw]) (vals ob @ [v])
            ((idx ob)(k \<mapsto> length (keys ob))))"

text \<open>\<open>put\<close> quotes the key only when it is new.\<close>

definition obj_put :: "bytes \<Rightarrow> 'v \<Rightarrow> 'v treeObj \<Rightarrow> 'v treeObj" where
  "obj_put k v ob =
     (case idx ob k of
        Some i \<Rightarrow> TreeObj (keys ob) (raws ob) ((vals ob)[i := v]) (idx ob)
      | None \<Rightarrow> obj_set k (stringifyJSON k) v ob)"

text \<open>The loop of \<open>del\<close> that renumbers the keys after the removed one.\<close>

fun reindex :: "bytes list \<Rightarrow> nat \<Rightarrow> (bytes \<rightharpoonup> nat) \<Rightarrow> (bytes \<rightharpoonup> nat)" where
  "reindex [] j m = m"
| "reindex (k # ks) j m = reindex ks (Suc j) (m(k \<mapsto> j))"

definition obj_del :: "bytes \<Rightarrow> 'v treeObj \<Rightarrow> 'v treeObj" where
  "obj_del k ob =
     (case idx ob k of
        None \<Rightarrow> ob
      | Some i \<Rightarrow>
          (let ks = remove_at i (keys ob) in
           TreeObj ks (remove_at i (raws ob)) (remove_at i (vals ob))
             (reindex (drop i ks) i ((idx ob)(k := None)))))"

subsection \<open>Well-formedness\<close>

text \<open>
  The three arrays run in parallel and the index is exactly the inverse of \<open>keys\<close>. With it
  no index expression of the code is out of range.
\<close>

definition wf_obj :: "'v treeObj \<Rightarrow> bool" where
  "wf_obj ob \<longleftrightarrow>
     length (raws ob) = length (keys ob) \<and> length (vals ob) = length (keys ob) \<and>
     (\<forall>k i. idx ob k = Some i \<longleftrightarrow> i < length (keys ob) \<and> keys ob ! i = k)"

definition obj_entries :: "'v treeObj \<Rightarrow> (bytes \<times> bytes \<times> 'v) list" where
  "obj_entries ob = zip (keys ob) (zip (raws ob) (vals ob))"

lemma wf_TreeObj:
  "wf_obj (TreeObj ks rs vs m) \<longleftrightarrow>
     length rs = length ks \<and> length vs = length ks \<and>
     (\<forall>k i. m k = Some i \<longleftrightarrow> i < length ks \<and> ks ! i = k)"
  by (simp add: wf_obj_def)

lemma wf_lengths:
  "wf_obj ob \<Longrightarrow> length (raws ob) = length (keys ob)"
  "wf_obj ob \<Longrightarrow> length (vals ob) = length (keys ob)"
  by (simp_all add: wf_obj_def)

lemma wf_idx_Some:
  "wf_obj ob \<Longrightarrow> idx ob k = Some i \<longleftrightarrow> i < length (keys ob) \<and> keys ob ! i = k"
  by (simp add: wf_obj_def)

lemma wf_idx_None: "wf_obj ob \<Longrightarrow> idx ob k = None \<longleftrightarrow> k \<notin> set (keys ob)"
  using wf_idx_Some [of ob k] by (metis in_set_conv_nth not_None_eq)

lemma wf_distinct: "wf_obj ob \<Longrightarrow> distinct (keys ob)"
  unfolding distinct_conv_nth by (metis option.inject wf_idx_Some)

lemma reindex_app:
  "distinct ks \<Longrightarrow>
    reindex ks j m x = Some n \<longleftrightarrow>
      (if x \<in> set ks then \<exists>p < length ks. ks ! p = x \<and> n = j + p else m x = Some n)"
proof (induction ks arbitrary: j m)
  case Nil
  then show ?case by simp
next
  case (Cons a ks)
  show ?case
  proof (cases "x = a")
    case True
    with Cons.prems have x: "x \<notin> set ks" by simp
    then have "(\<exists>p < Suc (length ks). (a # ks) ! p = x \<and> n = j + p) \<longleftrightarrow> n = j"
      using True by (subst Ex_less_Suc2) auto
    with True x Cons show ?thesis by auto
  next
    case False
    have "(\<exists>p < length ks. ks ! p = x \<and> n = Suc j + p) \<longleftrightarrow>
        (\<exists>p < Suc (length ks). (a # ks) ! p = x \<and> n = j + p)"
      using False by (subst Ex_less_Suc2) auto
    with False Cons show ?thesis by auto
  qed
qed

lemma idx_remove_at:
  assumes wf: "wf_obj ob" and i: "idx ob k = Some i"
  defines "ks \<equiv> remove_at i (keys ob)"
  shows "reindex (drop i ks) i ((idx ob)(k := None)) x = Some n \<longleftrightarrow> n < length ks \<and> ks ! n = x"
proof -
  have len: "i < length (keys ob)" and key: "keys ob ! i = k"
    using i by (simp_all add: wf_idx_Some [OF wf])
  have dks: "distinct ks"
    using wf_distinct [OF wf] by (simp add: ks_def distinct_remove_at)
  have lks: "length ks = length (keys ob) - 1"
    using len by (simp add: ks_def)
  have nth_ks: "ks ! j = (if j < i then keys ob ! j else keys ob ! Suc j)" if "j < length ks" for j
    using that len lks by (simp add: ks_def nth_remove_at)
  have inj: "j = j'" if "ks ! j = ks ! j'" "j < length ks" "j' < length ks" for j j'
    using that dks by (simp add: nth_eq_iff_index_eq)
  show ?thesis
  proof (cases "x \<in> set (drop i ks)")
    case True
    then obtain p where p: "i + p < length ks" "ks ! (i + p) = x"
      by (force simp: in_set_conv_nth less_diff_conv add.commute)
    have "(\<exists>q < length (drop i ks). drop i ks ! q = x \<and> n = i + q) \<longleftrightarrow> n < length ks \<and> ks ! n = x"
      using p inj [of n "i + p"]
      by (auto simp: less_diff_conv add.commute intro!: exI [of _ p])
    with True show ?thesis using dks by (simp add: reindex_app)
  next
    case False
    have "((idx ob)(k := None)) x = Some n \<longleftrightarrow> n < length ks \<and> ks ! n = x"
    proof
      assume "((idx ob)(k := None)) x = Some n"
      then have "x \<noteq> k" "n < length (keys ob)" "keys ob ! n = x"
        by (auto simp: wf_idx_Some [OF wf] split: if_splits)
      moreover have "\<not> i < n"
      proof
        assume "i < n"
        then obtain m where m: "n = Suc m" "i \<le> m" by (cases n) auto
        with \<open>n < length (keys ob)\<close> lks have ml: "m < length ks" by simp
        with m have "drop i ks ! (m - i) \<in> set (drop i ks)"
          by (intro nth_mem) simp
        with m ml have "ks ! m \<in> set (drop i ks)" by simp
        moreover have "ks ! m = x"
          using nth_ks [OF ml] m \<open>keys ob ! n = x\<close> by auto
        ultimately show False using False by simp
      qed
      moreover have "n \<noteq> i" using key calculation by auto
      ultimately show "n < length ks \<and> ks ! n = x"
        using nth_ks [of n] lks len by auto
    next
      assume n: "n < length ks \<and> ks ! n = x"
      have "n < i"
      proof (rule ccontr)
        assume "\<not> n < i"
        with n have "x \<in> set (drop i ks)"
          by (auto simp: in_set_conv_nth intro!: exI [of _ "n - i"])
        with False show False by simp
      qed
      with n nth_ks lks have "idx ob x = Some n"
        by (auto simp: wf_idx_Some [OF wf])
      moreover have "x \<noteq> k"
        using \<open>idx ob x = Some n\<close> i \<open>n < i\<close> by auto
      ultimately show "((idx ob)(k := None)) x = Some n" by simp
    qed
    with False show ?thesis using dks by (simp add: reindex_app)
  qed
qed

lemma wf_newTreeObj [wf_intros]: "wf_obj newTreeObj"
  by (simp add: wf_obj_def newTreeObj_def)

lemma obj_set_old:
  "idx ob k = Some i \<Longrightarrow>
    obj_set k raw v ob = TreeObj (keys ob) (raws ob) ((vals ob)[i := v]) (idx ob)"
  by (simp add: obj_set_def)

lemma obj_set_new:
  "idx ob k = None \<Longrightarrow>
    obj_set k raw v ob =
      TreeObj (keys ob @ [k]) (raws ob @ [raw]) (vals ob @ [v]) ((idx ob)(k \<mapsto> length (keys ob)))"
  by (simp add: obj_set_def)

lemma wf_obj_set [wf_intros]: "wf_obj ob \<Longrightarrow> wf_obj (obj_set k raw v ob)"
proof (cases "idx ob k")
  case None
  assume wf: "wf_obj ob"
  have "((idx ob)(k \<mapsto> length (keys ob))) x = Some i \<longleftrightarrow>
      i < Suc (length (keys ob)) \<and> (keys ob @ [k]) ! i = x" for x i
    using None wf_idx_None [OF wf, of k] by (auto simp: wf_idx_Some [OF wf] nth_append less_Suc_eq)
  then show ?thesis
    unfolding obj_set_new [OF None] wf_TreeObj by (simp add: wf_lengths [OF wf])
next
  case (Some i)
  assume "wf_obj ob"
  then show ?thesis
    unfolding obj_set_old [OF Some] wf_TreeObj by (simp add: wf_obj_def)
qed

lemma obj_put_eq: "obj_put k v ob = obj_set k (stringifyJSON k) v ob"
  by (simp add: obj_put_def obj_set_def split: option.split)

lemma wf_obj_put [wf_intros]: "wf_obj ob \<Longrightarrow> wf_obj (obj_put k v ob)"
  by (simp add: obj_put_eq wf_obj_set)

lemma obj_del_Some:
  "idx ob k = Some i \<Longrightarrow>
    obj_del k ob =
      TreeObj (remove_at i (keys ob)) (remove_at i (raws ob)) (remove_at i (vals ob))
        (reindex (drop i (remove_at i (keys ob))) i ((idx ob)(k := None)))"
  by (simp add: obj_del_def Let_def)

lemma wf_obj_del [wf_intros]: "wf_obj ob \<Longrightarrow> wf_obj (obj_del k ob)"
proof (cases "idx ob k")
  case None
  assume "wf_obj ob"
  with None show ?thesis by (simp add: obj_del_def)
next
  case (Some i)
  assume wf: "wf_obj ob"
  with Some have "i < length (keys ob)" by (simp add: wf_idx_Some)
  then show ?thesis
    unfolding obj_del_Some [OF Some] wf_TreeObj
    by (simp add: idx_remove_at [OF wf Some] wf_lengths [OF wf])
qed

subsection \<open>The interface of an insertion-ordered object\<close>

text \<open>
  What the document code relies on, stated on the list of entries (key, key text, value):
  a lookup reads the entry with that key; a write replaces the value in place, keeping the
  key's text, or adds an entry at the end; a removal drops the entry and keeps the order of
  the others. \<open>quote\<close> gives the text of a new key.
\<close>

definition put_entry :: "(bytes \<Rightarrow> bytes) \<Rightarrow> bytes \<Rightarrow> 'v \<Rightarrow> (bytes \<times> bytes \<times> 'v) list \<Rightarrow> (bytes \<times> bytes \<times> 'v) list" where
  "put_entry quote k v es =
     (if k \<in> fst ` set es then map (\<lambda>(k', r, v'). (k', r, if k' = k then v else v')) es
      else es @ [(k, quote k, v)])"

locale ordered_object =
  fixes empty :: "'o"
    and get :: "'o \<Rightarrow> bytes \<Rightarrow> 'v option"
    and put :: "bytes \<Rightarrow> 'v \<Rightarrow> 'o \<Rightarrow> 'o"
    and del :: "bytes \<Rightarrow> 'o \<Rightarrow> 'o"
    and entries :: "'o \<Rightarrow> (bytes \<times> bytes \<times> 'v) list"
    and inv :: "'o \<Rightarrow> bool"
    and quote :: "bytes \<Rightarrow> bytes"
  assumes entries_empty: "entries empty = []"
    and distinct_entries: "inv ob \<Longrightarrow> distinct (map fst (entries ob))"
    and get_entries: "inv ob \<Longrightarrow> get ob k = map_option snd (map_of (entries ob) k)"
    and entries_put: "inv ob \<Longrightarrow> entries (put k v ob) = put_entry quote k v (entries ob)"
    and entries_del: "inv ob \<Longrightarrow> entries (del k ob) = filter (\<lambda>e. fst e \<noteq> k) (entries ob)"
    and inv_empty: "inv empty"
    and inv_put: "inv ob \<Longrightarrow> inv (put k v ob)"
    and inv_del: "inv ob \<Longrightarrow> inv (del k ob)"
begin

lemma get_empty: "get empty k = None"
  by (simp add: get_entries inv_empty entries_empty)

lemma map_of_overwrite:
  "map_of (map (\<lambda>(k', r, v'). (k', r, if k' = k then v else v')) es) x =
     map_option (\<lambda>(r, v'). (r, if x = k then v else v')) (map_of es x)"
  by (induction es) auto

lemma map_of_put_entry:
  "map_option snd (map_of (put_entry quote k v es) x) =
     (if x = k then Some v else map_option snd (map_of es x))"
proof (cases "k \<in> fst ` set es")
  case True
  then obtain rv where "map_of es k = Some rv"
    by (metis map_of_eq_None_iff not_None_eq)
  with True show ?thesis
    by (auto simp: put_entry_def map_of_overwrite option.map_comp comp_def split_beta
        intro!: option.map_cong)
next
  case False
  then have "map_of es k = None" by (simp add: map_of_eq_None_iff)
  with False show ?thesis
    by (auto simp: put_entry_def map_add_def split: option.splits)
qed

lemma get_put: "inv ob \<Longrightarrow> get (put k v ob) x = (if x = k then Some v else get ob x)"
  by (simp add: get_entries inv_put entries_put map_of_put_entry)

lemma map_of_filter_key:
  "map_of (filter (\<lambda>e. fst e \<noteq> k) es) x = (if x = k then None else map_of es x)"
  by (induction es) auto

lemma get_del: "inv ob \<Longrightarrow> get (del k ob) x = (if x = k then None else get ob x)"
  by (simp add: get_entries inv_del entries_del map_of_filter_key)

lemma overwrite_absent:
  "k \<notin> fst ` set es \<Longrightarrow> map (\<lambda>(k', r, v'). (k', r, if k' = k then w else v')) es = es"
  by (rule map_idI) (force simp: image_iff)

lemma fst_overwrite:
  "fst ` set (map (\<lambda>(k', r, v'). (k', r, if k' = k then v else v')) es) = fst ` set es"
  by (force simp: image_iff)

lemma put_put: "inv ob \<Longrightarrow> entries (put k w (put k v ob)) = entries (put k w ob)"
proof (cases "k \<in> fst ` set (entries ob)")
  case True
  assume "inv ob"
  with True show ?thesis
    by (simp add: entries_put inv_put put_entry_def fst_overwrite del: set_map) auto
next
  case False
  assume "inv ob"
  with False show ?thesis
    by (simp add: entries_put inv_put put_entry_def overwrite_absent)
qed

lemma del_put_new:
  "inv ob \<Longrightarrow> get ob k = None \<Longrightarrow> entries (del k (put k v ob)) = entries ob"
  by (auto simp: entries_put entries_del inv_put put_entry_def get_entries map_of_eq_None_iff
      filter_id_conv)

lemma key_order:
  "inv ob \<Longrightarrow>
    map fst (entries (put k v ob)) =
      (if get ob k = None then map fst (entries ob) @ [k] else map fst (entries ob))"
  by (auto simp: entries_put put_entry_def get_entries map_of_eq_None_iff comp_def split_beta)

end

subsection \<open>The code's object provides it\<close>

lemma map_fst_entries: "wf_obj ob \<Longrightarrow> map fst (obj_entries ob) = keys ob"
  by (simp add: obj_entries_def wf_lengths)

lemma set_fst_entries: "wf_obj ob \<Longrightarrow> fst ` set (obj_entries ob) = set (keys ob)"
  using map_fst_entries [of ob] by (metis list.set_map)

lemma entries_idx:
  assumes "wf_obj ob" and "idx ob k = Some i"
  shows "map_of (obj_entries ob) k = Some (raws ob ! i, vals ob ! i)"
proof -
  have i: "i < length (keys ob)" "keys ob ! i = k"
    using assms by (simp_all add: wf_idx_Some)
  then have "(k, raws ob ! i, vals ob ! i) \<in> set (obj_entries ob)"
    using wf_lengths [OF assms(1)] by (auto simp: obj_entries_def in_set_zip)
  then show ?thesis
    using wf_distinct [OF assms(1)] map_fst_entries [OF assms(1)] by simp
qed

lemma get_entries_obj: "wf_obj ob \<Longrightarrow> obj_get ob k = map_option snd (map_of (obj_entries ob) k)"
proof (cases "idx ob k")
  case None
  assume wf: "wf_obj ob"
  with None have "map_of (obj_entries ob) k = None"
    by (simp add: map_of_eq_None_iff set_fst_entries wf_idx_None)
  with None show ?thesis by (simp add: obj_get_def)
next
  case (Some i)
  assume "wf_obj ob"
  with Some show ?thesis by (simp add: obj_get_def entries_idx)
qed

lemma entries_set_obj:
  assumes wf: "wf_obj ob"
  shows "obj_entries (obj_set k raw v ob) = put_entry (\<lambda>_. raw) k v (obj_entries ob)"
proof (cases "idx ob k")
  case None
  then have "k \<notin> set (keys ob)" using wf by (simp add: wf_idx_None)
  with None wf show ?thesis
    by (simp add: obj_set_new put_entry_def set_fst_entries) (simp add: obj_entries_def wf_lengths)
next
  case (Some i)
  then have i: "i < length (keys ob)" "keys ob ! i = k"
    using wf by (simp_all add: wf_idx_Some)
  have other: "keys ob ! j = k \<longleftrightarrow> j = i" if "j < length (keys ob)" for j
    using that i wf_distinct [OF wf] by (metis nth_eq_iff_index_eq)
  have "obj_entries (obj_set k raw v ob) =
      map (\<lambda>(k', r, v'). (k', r, if k' = k then v else v')) (obj_entries ob)"
    by (rule nth_equalityI)
       (auto simp: obj_set_old [OF Some] obj_entries_def wf_lengths [OF wf] other nth_list_update)
  moreover have "k \<in> fst ` set (obj_entries ob)"
    using i wf by (auto simp: set_fst_entries)
  ultimately show ?thesis by (simp add: put_entry_def)
qed

lemma remove_at_filter:
  "distinct (map fst es) \<Longrightarrow> i < length es \<Longrightarrow>
    remove_at i es = filter (\<lambda>e. fst e \<noteq> fst (es ! i)) es"
proof (induction es arbitrary: i)
  case Nil
  then show ?case by simp
next
  case (Cons e es)
  show ?case
  proof (cases i)
    case 0
    with Cons.prems have "fst e' \<noteq> fst e" if "e' \<in> set es" for e'
      using that by (metis distinct.simps(2) imageI list.set_map list.simps(9))
    with 0 show ?thesis by (simp add: remove_at_def filter_id_conv)
  next
    case (Suc j)
    with Cons have "remove_at j es = filter (\<lambda>e. fst e \<noteq> fst (es ! j)) es" and "j < length es"
      by auto
    moreover have "fst e \<noteq> fst (es ! j)"
      using Cons.prems \<open>j < length es\<close> by auto
    ultimately show ?thesis using Suc by (simp add: remove_at_def)
  qed
qed

lemma zip_remove_at:
  "length xs = length ys \<Longrightarrow> zip (remove_at i xs) (remove_at i ys) = remove_at i (zip xs ys)"
  by (simp add: remove_at_def zip_append take_zip drop_zip)

lemma entries_del_obj:
  assumes wf: "wf_obj ob"
  shows "obj_entries (obj_del k ob) = filter (\<lambda>e. fst e \<noteq> k) (obj_entries ob)"
proof (cases "idx ob k")
  case None
  then have "k \<notin> fst ` set (obj_entries ob)" using wf by (simp add: wf_idx_None set_fst_entries)
  then have "filter (\<lambda>e. fst e \<noteq> k) (obj_entries ob) = obj_entries ob"
    by (auto simp: filter_id_conv)
  with None show ?thesis by (simp add: obj_del_def)
next
  case (Some i)
  then have i: "i < length (keys ob)" "keys ob ! i = k"
    using wf by (simp_all add: wf_idx_Some)
  have "obj_entries (obj_del k ob) = remove_at i (obj_entries ob)"
    by (simp add: obj_del_Some [OF Some] obj_entries_def zip_remove_at wf_lengths [OF wf])
  also have "\<dots> = filter (\<lambda>e. fst e \<noteq> fst (obj_entries ob ! i)) (obj_entries ob)"
    using i wf by (intro remove_at_filter)
      (simp_all add: map_fst_entries wf_distinct, simp add: obj_entries_def wf_lengths)
  also have "fst (obj_entries ob ! i) = k"
    using i by (simp add: obj_entries_def wf_lengths [OF wf])
  finally show ?thesis .
qed

lemma obj_entries_new: "obj_entries newTreeObj = []"
  by (simp add: obj_entries_def newTreeObj_def)

interpretation tob: ordered_object newTreeObj obj_get obj_put obj_del obj_entries wf_obj stringifyJSON
proof unfold_locales
  fix ob :: "'a treeObj" and k v
  show "obj_entries (newTreeObj :: 'a treeObj) = []" by (rule obj_entries_new)
  show "wf_obj (newTreeObj :: 'a treeObj)" by (rule wf_newTreeObj)
  assume wf: "wf_obj ob"
  show "distinct (map fst (obj_entries ob))"
    using wf by (simp add: map_fst_entries wf_distinct)
  show "obj_get ob k = map_option snd (map_of (obj_entries ob) k)"
    using wf by (rule get_entries_obj)
  show "obj_entries (obj_put k v ob) = put_entry stringifyJSON k v (obj_entries ob)"
    using wf by (simp add: obj_put_eq entries_set_obj put_entry_def)
  show "obj_entries (obj_del k ob) = filter (\<lambda>e. fst e \<noteq> k) (obj_entries ob)"
    using wf by (rule entries_del_obj)
  show "wf_obj (obj_put k v ob)" using wf by (rule wf_obj_put)
  show "wf_obj (obj_del k ob)" using wf by (rule wf_obj_del)
qed

lemmas obj_laws = tob.get_empty tob.get_put tob.get_del

declare tob.get_empty [obj_simps] tob.get_put [obj_simps] tob.get_del [obj_simps]

end
