(* ===== verification/Tree.thy ===== *)
theory Tree
  imports TreeObj
begin

text \<open>
  The document tree of \<open>internal/db/tree.go\<close>: its nodes, key paths, and the read, write
  and delete walks, both over a list of segments (paths with an escape) and over the path
  itself (paths without one).
\<close>

subsection \<open>Nodes\<close>

text \<open>
  The dynamic types of a tree value: \<open>treeLeaf\<close> (the raw JSON text of a scalar),
  \<open>*treeObj\<close>, \<open>[]any\<close> and \<open>nil\<close>, which pads an array.
\<close>

datatype node =
    Leaf bytes
  | Obj "node treeObj"
  | Arr "node list"
  | Nil

definition isTreeContainer :: "node \<Rightarrow> bool" where
  "isTreeContainer n = (case n of Obj _ \<Rightarrow> True | Arr _ \<Rightarrow> True | _ \<Rightarrow> False)"

definition container_or_new :: "node \<Rightarrow> node" where
  "container_or_new n = (if isTreeContainer n then n else Obj newTreeObj)"

subsection \<open>Paths\<close>

definition isPlainPath :: "bytes \<Rightarrow> bool" where
  "isPlainPath p = list_all (\<lambda>c. c \<noteq> CHR ''#'' \<and> c \<noteq> CHR ''*'' \<and> c \<noteq> CHR ''?'') p"

text \<open>
  The loop of \<open>splitTreePath\<close>: the rest of the path, the segment being read and the
  segments read so far. A backslash escapes the byte after it; a last one stands for itself.
\<close>

fun splitLoop :: "bytes \<Rightarrow> bytes \<Rightarrow> bytes list \<Rightarrow> bytes list" where
  "splitLoop [] cur out = out @ [cur]"
| "splitLoop [c] cur out =
     (if c = CHR ''.'' then splitLoop [] [] (out @ [cur])
      else splitLoop [] (cur @ [c]) out)"
| "splitLoop (c # d # cs) cur out =
     (if c = backslash then splitLoop cs (cur @ [d]) out
      else if c = CHR ''.'' then splitLoop (d # cs) [] (out @ [cur])
      else splitLoop (d # cs) (cur @ [c]) out)"

definition splitTreePath :: "bytes \<Rightarrow> bytes list" where
  "splitTreePath p =
     (if index_byte backslash p = None then split_byte (CHR ''.'') p else splitLoop p [] [])"

definition cutSeg :: "bytes \<Rightarrow> bytes \<times> bytes \<times> bool" where
  "cutSeg path =
     (case index_byte (CHR ''.'') path of
        None \<Rightarrow> (path, [], True)
      | Some i \<Rightarrow> (take i path, drop (Suc i) path, False))"

lemma cutSeg_shorter: "cutSeg path = (seg, rest, False) \<Longrightarrow> length rest < length path"
  by (auto simp: cutSeg_def dest: index_byte_Some split: option.splits)

lemma split_cutSeg [path_simps]:
  "split_byte (CHR ''.'') path =
     (case cutSeg path of (seg, rest, lst) \<Rightarrow>
        if lst then [seg] else seg # split_byte (CHR ''.'') rest)"
  by (subst split_byte_index) (simp add: cutSeg_def split: option.split)

lemma splitLoop_nonempty: "splitLoop p cur out \<noteq> []"
  by (induction p cur out rule: splitLoop.induct) auto

lemma splitTreePath_nonempty [simp]: "splitTreePath p \<noteq> []"
  by (simp add: splitTreePath_def splitLoop_nonempty)

lemma splitLoop_plain:
  "backslash \<notin> set p \<Longrightarrow>
    splitLoop p cur out = out @ (cur @ hd (split_byte (CHR ''.'') p)) # tl (split_byte (CHR ''.'') p)"
  by (induction p cur out rule: splitLoop.induct) (auto split: list.splits)

subsection \<open>Reading\<close>

text \<open>One step of a lookup: the body of the \<open>switch\<close> in both lookup loops.\<close>

definition treeStep :: "node \<Rightarrow> bytes \<Rightarrow> node option" where
  "treeStep n s =
     (case n of
        Obj ob \<Rightarrow> obj_get ob s
      | Arr c \<Rightarrow>
          (case atoi s of
             None \<Rightarrow> None
           | Some i \<Rightarrow> if i < 0 \<or> int (length c) \<le> i then None else Some (c ! nat i))
      | _ \<Rightarrow> None)"

fun treeLookup :: "node \<Rightarrow> bytes list \<Rightarrow> node option" where
  "treeLookup n [] = Some n"
| "treeLookup n (s # ss) =
     (case treeStep n s of None \<Rightarrow> None | Some v \<Rightarrow> treeLookup v ss)"

function treeLookupPlain :: "node \<Rightarrow> bytes \<Rightarrow> node option" where
  "treeLookupPlain n path =
     (case cutSeg path of (seg, rest, lst) \<Rightarrow>
        (case treeStep n seg of
           None \<Rightarrow> None
         | Some v \<Rightarrow> if lst then Some v else treeLookupPlain v rest))"
  by pat_completeness auto
termination
  by (relation "measure (\<lambda>(n, path). length path)") (auto dest: cutSeg_shorter [OF sym])

definition treeLookupPath :: "node \<Rightarrow> bytes \<Rightarrow> node option" where
  "treeLookupPath n path =
     (if index_byte backslash path \<noteq> None then treeLookup n (splitTreePath path)
      else treeLookupPlain n path)"

subsection \<open>Writing\<close>

text \<open>
  \<open>pathError\<close>, with the segment its message quotes, and the panic of \<open>segs[0]\<close> on no
  segments, which no path produces.
\<close>

datatype path_error = NonNumericKey bytes | IndexPanic

definition path_error_text :: "path_error \<Rightarrow> bytes" where
  "path_error_text e =
     (case e of
        NonNumericKey s \<Rightarrow> ''cannot set array element for non-numeric key '' @ [CHR 0x27] @ s @ [CHR 0x27]
      | IndexPanic \<Rightarrow> ''runtime error: index out of range [0] with length 0'')"

definition obj_child :: "node treeObj \<Rightarrow> bytes \<Rightarrow> node" where
  "obj_child ob s =
     (case obj_get ob s of None \<Rightarrow> Obj newTreeObj | Some c \<Rightarrow> container_or_new c)"

function treeSet :: "node \<Rightarrow> bytes list \<Rightarrow> node \<Rightarrow> path_error + node" where
  "treeSet n [] val = Inl IndexPanic"
| "treeSet n (s # ss) val =
     (case n of
        Obj ob \<Rightarrow>
          if ss = [] then Inr (Obj (obj_put s val ob))
          else (case treeSet (obj_child ob s) ss val of
                  Inl e \<Rightarrow> Inl e
                | Inr nc \<Rightarrow> Inr (Obj (obj_put s nc ob)))
      | Arr c \<Rightarrow>
          if s = ''-1'' then
            if ss = [] then Inr (Arr (c @ [val]))
            else (case treeSet (Obj newTreeObj) ss val of
                    Inl e \<Rightarrow> Inl e
                  | Inr nc \<Rightarrow> Inr (Arr (c @ [nc])))
          else
            (case atoi s of
               None \<Rightarrow> Inl (NonNumericKey s)
             | Some i \<Rightarrow>
                 if i < 0 then Inl (NonNumericKey s)
                 else let c' = pad_to Nil (nat i) c in
                   if ss = [] then Inr (Arr (c'[nat i := val]))
                   else (case treeSet (container_or_new (c' ! nat i)) ss val of
                           Inl e \<Rightarrow> Inl e
                         | Inr nc \<Rightarrow> Inr (Arr (c'[nat i := nc]))))
      | _ \<Rightarrow> treeSet (Obj newTreeObj) (s # ss) val)"
  by pat_completeness auto
termination
  by (relation "measures [\<lambda>(n, ss, v). length ss, \<lambda>(n, ss, v). if isTreeContainer n then 0 else 1]")
     (auto simp: isTreeContainer_def)

function treeSetPlain :: "node \<Rightarrow> bytes \<Rightarrow> node \<Rightarrow> path_error + node" where
  "treeSetPlain n path val =
     (case cutSeg path of (seg, rest, lst) \<Rightarrow>
       (case n of
          Obj ob \<Rightarrow>
            if lst then Inr (Obj (obj_put seg val ob))
            else (case treeSetPlain (obj_child ob seg) rest val of
                    Inl e \<Rightarrow> Inl e
                  | Inr nc \<Rightarrow> Inr (Obj (obj_put seg nc ob)))
        | Arr c \<Rightarrow>
            if seg = ''-1'' then
              if lst then Inr (Arr (c @ [val]))
              else (case treeSetPlain (Obj newTreeObj) rest val of
                      Inl e \<Rightarrow> Inl e
                    | Inr nc \<Rightarrow> Inr (Arr (c @ [nc])))
            else
              (case atoi seg of
                 None \<Rightarrow> Inl (NonNumericKey seg)
               | Some i \<Rightarrow>
                   if i < 0 then Inl (NonNumericKey seg)
                   else let c' = pad_to Nil (nat i) c in
                     if lst then Inr (Arr (c'[nat i := val]))
                     else (case treeSetPlain (container_or_new (c' ! nat i)) rest val of
                             Inl e \<Rightarrow> Inl e
                           | Inr nc \<Rightarrow> Inr (Arr (c'[nat i := nc]))))
        | _ \<Rightarrow> treeSetPlain (Obj newTreeObj) path val))"
  by pat_completeness auto
termination
  by (relation "measures [\<lambda>(n, p, v). length p, \<lambda>(n, p, v). if isTreeContainer n then 0 else 1]")
     (auto simp: isTreeContainer_def dest: cutSeg_shorter [OF sym])

definition treeSetPath :: "node \<Rightarrow> bytes \<Rightarrow> node \<Rightarrow> path_error + node" where
  "treeSetPath n path val =
     (if index_byte backslash path \<noteq> None then treeSet n (splitTreePath path) val
      else treeSetPlain n path val)"

subsection \<open>Deleting\<close>

text \<open>\<open>None\<close> is the panic of \<open>segs[0]\<close> on no segments.\<close>

fun treeDel :: "node \<Rightarrow> bytes list \<Rightarrow> node option" where
  "treeDel n [] = None"
| "treeDel n (s # ss) =
     (case n of
        Obj ob \<Rightarrow>
          if ss = [] then Some (Obj (obj_del s ob))
          else (case obj_get ob s of
                  Some child \<Rightarrow> map_option (\<lambda>c. Obj (obj_put s c ob)) (treeDel child ss)
                | None \<Rightarrow> Some n)
      | Arr c \<Rightarrow>
          (case atoi s of
             None \<Rightarrow> Some n
           | Some i \<Rightarrow>
               if i < 0 \<or> int (length c) \<le> i then Some n
               else if ss = [] then Some (Arr (remove_at (nat i) c))
               else map_option (\<lambda>x. Arr (c[nat i := x])) (treeDel (c ! nat i) ss))
      | _ \<Rightarrow> Some n)"

function treeDelPlain :: "node \<Rightarrow> bytes \<Rightarrow> node" where
  "treeDelPlain n path =
     (case cutSeg path of (seg, rest, lst) \<Rightarrow>
       (case n of
          Obj ob \<Rightarrow>
            if lst then Obj (obj_del seg ob)
            else (case obj_get ob seg of
                    Some child \<Rightarrow> Obj (obj_put seg (treeDelPlain child rest) ob)
                  | None \<Rightarrow> n)
        | Arr c \<Rightarrow>
            (case atoi seg of
               None \<Rightarrow> n
             | Some i \<Rightarrow>
                 if i < 0 \<or> int (length c) \<le> i then n
                 else if lst then Arr (remove_at (nat i) c)
                 else Arr (c[nat i := treeDelPlain (c ! nat i) rest]))
        | _ \<Rightarrow> n))"
  by pat_completeness auto
termination
  by (relation "measure (\<lambda>(n, path). length path)") (auto dest: cutSeg_shorter [OF sym])

definition treeDelPath :: "node \<Rightarrow> bytes \<Rightarrow> node option" where
  "treeDelPath n path =
     (if index_byte backslash path \<noteq> None then treeDel n (splitTreePath path)
      else Some (treeDelPlain n path))"

declare treeSet.simps(2) [simp del] treeSetPlain.simps [simp del]
  treeLookupPlain.simps [simp del] treeDelPlain.simps [simp del]

subsection \<open>The walk over the path is the walk over its segments\<close>

lemma treeLookupPlain_split:
  "treeLookupPlain n path = treeLookup n (split_byte (CHR ''.'') path)"
proof (induction n path rule: treeLookupPlain.induct)
  case (1 n path)
  then show ?case
    by (subst treeLookupPlain.simps)
       (simp add: split_cutSeg [of path] split: prod.split option.split)
qed

lemma treeSetPlain_split:
  "treeSetPlain n path val = treeSet n (split_byte (CHR ''.'') path) val"
proof (induction n path val rule: treeSetPlain.induct)
  case (1 n path val)
  obtain seg rest lst where cut: "cutSeg path = (seg, rest, lst)"
    by (cases "cutSeg path")
  have segs: "split_byte (CHR ''.'') path =
      seg # (if lst then [] else split_byte (CHR ''.'') rest)"
    by (simp add: split_cutSeg [of path] cut)
  show ?case
    using 1 [OF cut [symmetric] refl]
    by (cases n; cases lst)
       (simp_all add: treeSetPlain.simps [of _ path] treeSet.simps(2) cut segs Let_def
         split: option.split)
qed

lemma treeDelPlain_split:
  "treeDel n (split_byte (CHR ''.'') path) = Some (treeDelPlain n path)"
proof (induction n path rule: treeDelPlain.induct)
  case (1 n path)
  obtain seg rest lst where cut: "cutSeg path = (seg, rest, lst)"
    by (cases "cutSeg path")
  have segs: "split_byte (CHR ''.'') path =
      seg # (if lst then [] else split_byte (CHR ''.'') rest)"
    by (simp add: split_cutSeg [of path] cut)
  show ?case
    using 1 [OF cut [symmetric] refl]
    by (cases n; cases lst)
       (simp_all add: treeDelPlain.simps [of _ path] cut segs split: option.split)
qed

end
