(* ===== verification/TreeLaws.thy ===== *)
theory TreeLaws
  imports Tree
begin

text \<open>
  The laws of the document tree: the two walks agree on every path, no operation breaks the
  objects' index, a write is read back, a write disturbs nothing beside its path, and which
  writes and deletes do nothing or fail.
\<close>

subsection \<open>The path operations are the segment operations\<close>

lemma treeLookupPath_segs: "treeLookupPath n p = treeLookup n (splitTreePath p)"
  by (simp add: treeLookupPath_def treeLookupPlain_split splitTreePath_def)

lemma treeSetPath_segs: "treeSetPath n p v = treeSet n (splitTreePath p) v"
  by (simp add: treeSetPath_def treeSetPlain_split splitTreePath_def)

lemma treeDelPath_segs: "treeDelPath n p = treeDel n (splitTreePath p)"
  by (simp add: treeDelPath_def treeDelPlain_split splitTreePath_def)

lemmas path_segs = treeLookupPath_segs treeSetPath_segs treeDelPath_segs

subsection \<open>The equations of a write, by the kind of node\<close>

lemma treeSet_Obj:
  "treeSet (Obj ob) (s # ss) v =
     (if ss = [] then Inr (Obj (obj_put s v ob))
      else map_sum id (\<lambda>nc. Obj (obj_put s nc ob)) (treeSet (obj_child ob s) ss v))"
  by (simp add: treeSet.simps(2) split: sum.split)

lemma treeSet_Arr:
  "treeSet (Arr c) (s # ss) v =
     (if s = ''-1'' then
        if ss = [] then Inr (Arr (c @ [v]))
        else map_sum id (\<lambda>nc. Arr (c @ [nc])) (treeSet (Obj newTreeObj) ss v)
      else
        (case atoi s of
           None \<Rightarrow> Inl (NonNumericKey s)
         | Some i \<Rightarrow>
             if i < 0 then Inl (NonNumericKey s)
             else if ss = [] then Inr (Arr ((pad_to Nil (nat i) c)[nat i := v]))
             else map_sum id (\<lambda>nc. Arr ((pad_to Nil (nat i) c)[nat i := nc]))
               (treeSet (container_or_new (pad_to Nil (nat i) c ! nat i)) ss v)))"
  by (simp add: treeSet.simps(2) Let_def split: sum.split option.split)

lemma treeSet_other:
  "treeSet (Leaf t) (s # ss) v = treeSet (Obj newTreeObj) (s # ss) v"
  "treeSet Nil (s # ss) v = treeSet (Obj newTreeObj) (s # ss) v"
  by (simp_all add: treeSet.simps(2) [of "Leaf t"] treeSet.simps(2) [of Nil])

lemmas treeSet_eqs = treeSet_Obj treeSet_Arr treeSet_other

subsection \<open>Well-formed trees\<close>

inductive wf_node :: "node \<Rightarrow> bool" where
  wf_Leaf: "wf_node (Leaf t)"
| wf_Nil: "wf_node Nil"
| wf_Arr: "(\<And>x. x \<in> set c \<Longrightarrow> wf_node x) \<Longrightarrow> wf_node (Arr c)"
| wf_Obj: "wf_obj ob \<Longrightarrow> (\<And>x. x \<in> set (vals ob) \<Longrightarrow> wf_node x) \<Longrightarrow> wf_node (Obj ob)"

inductive_simps wf_node_simps [simp]:
  "wf_node (Leaf t)" "wf_node Nil" "wf_node (Arr c)" "wf_node (Obj ob)"

lemma wf_new [wf_intros]: "wf_node (Obj newTreeObj)"
  by (simp add: wf_newTreeObj) (simp add: newTreeObj_def)

lemma obj_get_vals: "wf_obj ob \<Longrightarrow> obj_get ob s = Some c \<Longrightarrow> c \<in> set (vals ob)"
  by (auto simp: obj_get_def wf_idx_Some wf_lengths split: option.splits)

lemma vals_obj_put: "set (vals (obj_put s v ob)) \<subseteq> insert v (set (vals ob))"
  by (auto simp: obj_put_eq obj_set_def dest: set_update_subset_insert [THEN subsetD]
      split: option.splits)

lemma vals_obj_del: "set (vals (obj_del s ob)) \<subseteq> set (vals ob)"
  using set_remove_at [of _ "vals ob"] by (auto simp: obj_del_def Let_def split: option.split)

lemma wf_put_node [wf_intros]: "wf_node (Obj ob) \<Longrightarrow> wf_node v \<Longrightarrow> wf_node (Obj (obj_put s v ob))"
  using vals_obj_put [of s v ob] by (auto simp: wf_obj_put)

lemma wf_del_node [wf_intros]: "wf_node (Obj ob) \<Longrightarrow> wf_node (Obj (obj_del s ob))"
  using vals_obj_del [of s ob] by (auto simp: wf_obj_del)

lemma wf_child [wf_intros]: "wf_node (Obj ob) \<Longrightarrow> wf_node (obj_child ob s)"
  using wf_new obj_get_vals [of ob s]
  by (auto simp: obj_child_def container_or_new_def split: option.split)

lemma wf_pad [wf_intros]: "wf_node (Arr c) \<Longrightarrow> wf_node (Arr (pad_to Nil i c))"
  using set_pad_to [of Nil i c] by auto

lemma wf_update [wf_intros]: "wf_node (Arr c) \<Longrightarrow> wf_node v \<Longrightarrow> wf_node (Arr (c[i := v]))"
  using set_update_subset_insert [of c i v] by auto

lemma wf_pad_nth [wf_intros]: "wf_node (Arr c) \<Longrightarrow> wf_node (pad_to Nil i c ! i)"
  using wf_pad [of c i] by (auto simp: length_pad_to intro: nth_mem)

lemma wf_container [wf_intros]: "wf_node n \<Longrightarrow> wf_node (container_or_new n)"
  using wf_new by (simp add: container_or_new_def)

text \<open>
  A write first turns a node that is not a container into an empty object; what remains is
  an object or an array, and the recursion is on the segments.
\<close>

lemma treeSet_container: "treeSet n (s # ss) v = treeSet (container_or_new n) (s # ss) v"
  by (cases n) (simp_all add: container_or_new_def isTreeContainer_def treeSet_other)

lemma container_cases:
  obtains (obj) ob where "container_or_new n = Obj ob" | (arr) c where "container_or_new n = Arr c"
  by (cases n) (auto simp: container_or_new_def isTreeContainer_def)

lemma map_sum_Inr: "map_sum id f r = Inr y \<longleftrightarrow> (\<exists>x. r = Inr x \<and> y = f x)"
  by (cases r) auto

lemma map_sum_Inl: "map_sum id f r = Inl e \<longleftrightarrow> r = Inl e"
  by (cases r) auto

text \<open>What a successful write to an array did: appended, or padded and updated.\<close>

lemma treeSet_Arr_cases:
  assumes "treeSet (Arr c) (s # ss) v = Inr n'"
  obtains (append) x where "s = ''-1''" "n' = Arr (c @ [x])"
      "if ss = [] then x = v else treeSet (Obj newTreeObj) ss v = Inr x"
  | (update) i x where "s \<noteq> ''-1''" "atoi s = Some i" "0 \<le> i"
      "n' = Arr ((pad_to Nil (nat i) c)[nat i := x])"
      "if ss = [] then x = v
       else treeSet (container_or_new (pad_to Nil (nat i) c ! nat i)) ss v = Inr x"
  using assms by (fastforce simp: treeSet_Arr map_sum_Inr split: if_splits option.splits)

lemma treeSet_Obj_cases:
  assumes "treeSet (Obj ob) (s # ss) v = Inr n'"
  obtains x where "n' = Obj (obj_put s x ob)"
    "if ss = [] then x = v else treeSet (obj_child ob s) ss v = Inr x"
  using assms by (fastforce simp: treeSet_Obj map_sum_Inr split: if_splits)

lemma wf_treeSet:
  "wf_node n \<Longrightarrow> wf_node v \<Longrightarrow> treeSet n segs v = Inr n' \<Longrightarrow> wf_node n'"
proof (induction segs arbitrary: n n')
  case Nil
  then show ?case by simp
next
  case (Cons s ss)
  have set: "treeSet (container_or_new n) (s # ss) v = Inr n'"
    using Cons.prems(3) by (subst (asm) treeSet_container)
  have wfc: "wf_node (container_or_new n)" using Cons.prems(1) by (rule wf_container)
  show ?case
  proof (cases n rule: container_cases)
    case (obj ob)
    from set [unfolded obj] show ?thesis
    proof (cases rule: treeSet_Obj_cases)
      case (1 x)
      have "wf_node x"
        using 1(2) Cons.IH [OF wf_child [OF wfc [unfolded obj]]] Cons.prems(2)
        by (auto split: if_splits)
      with wfc show ?thesis unfolding obj 1(1) by (rule wf_put_node)
    qed
  next
    case (arr c)
    from set [unfolded arr] show ?thesis
    proof (cases rule: treeSet_Arr_cases)
      case (append x)
      have "wf_node x"
        using append(3) Cons.IH [OF wf_new] Cons.prems(2) by (auto split: if_splits)
      then show ?thesis using wfc unfolding arr append(2) by auto
    next
      case (update i x)
      have "wf_node x"
        using update(5) Cons.IH [OF wf_container [OF wf_pad_nth [OF wfc [unfolded arr]]]] Cons.prems(2)
        by (auto split: if_splits)
      then show ?thesis
        unfolding update(4) by (rule wf_update [OF wf_pad [OF wfc [unfolded arr]]])
    qed
  qed
qed

lemma wf_treeDel: "wf_node n \<Longrightarrow> treeDel n segs = Some n' \<Longrightarrow> wf_node n'"
proof (induction n segs arbitrary: n' rule: treeDel.induct)
  case (1 n)
  then show ?case by simp
next
  case (2 n s ss)
  show ?case
  proof (cases n)
    case (Obj ob)
    show ?thesis
    proof (cases "ss = [] \<or> obj_get ob s = None")
      case True
      with 2 Obj wf_del_node [of ob s] show ?thesis by (auto split: if_splits)
    next
      case False
      then obtain child where child: "obj_get ob s = Some child" and ss: "ss \<noteq> []" by auto
      with 2 Obj obtain c where "treeDel child ss = Some c" and n': "n' = Obj (obj_put s c ob)"
        by auto
      moreover have "wf_node child"
        using "2.prems"(1) Obj child obj_get_vals [of ob s child] by auto
      ultimately have "wf_node c" using "2.IH"(1) [OF Obj ss child] by blast
      with "2.prems" Obj n' show ?thesis by (simp add: wf_put_node del: wf_node_simps)
    qed
  next
    case (Arr c)
    show ?thesis
    proof (cases "treeStep n s = None \<or> ss = []")
      case True
      have "wf_node (Arr (remove_at j c))" if "wf_node (Arr c)" for j
        using that set_remove_at [of j c] by auto
      moreover have "n' = n \<or> (\<exists>j. n' = Arr (remove_at j c))"
        using True 2(4) Arr by (auto simp: treeStep_def split: option.splits if_splits)
      ultimately show ?thesis using 2(3) Arr by blast
    next
      case False
      then obtain i where i: "atoi s = Some i" "\<not> (i < 0 \<or> int (length c) \<le> i)" and ss: "ss \<noteq> []"
        using Arr by (auto simp: treeStep_def split: option.splits if_splits)
      obtain x where "treeDel (c ! nat i) ss = Some x" and n': "n' = Arr (c[nat i := x])"
        using "2.prems"(2) Arr i ss by auto
      moreover have "wf_node (c ! nat i)" using "2.prems"(1) Arr i by auto
      ultimately have "wf_node x" using "2.IH"(2) [OF Arr i ss] by blast
      with "2.prems" Arr n' show ?thesis by (simp add: wf_update del: wf_node_simps)
    qed
  qed (use 2 in auto)
qed


subsection \<open>A write is read back\<close>

lemma obj_get_put [simp]: "wf_obj ob \<Longrightarrow> obj_get (obj_put k v ob) x = (if x = k then Some v else obj_get ob x)"
  by (rule tob.get_put)

lemma obj_get_del [simp]: "wf_obj ob \<Longrightarrow> obj_get (obj_del k ob) x = (if x = k then None else obj_get ob x)"
  by (rule tob.get_del)

lemma obj_get_new [simp]: "obj_get newTreeObj k = None"
  by (rule tob.get_empty)

lemma treeStep_Obj [simp]: "treeStep (Obj ob) s = obj_get ob s"
  by (simp add: treeStep_def)

lemma treeStep_Arr:
  "treeStep (Arr c) s = Some x \<longleftrightarrow>
     (\<exists>i. atoi s = Some i \<and> 0 \<le> i \<and> i < int (length c) \<and> x = c ! nat i)"
  by (auto simp: treeStep_def split: option.splits)

lemma treeStep_other [simp]: "treeStep (Leaf t) s = None" "treeStep Nil s = None"
  by (simp_all add: treeStep_def)

lemma atoi_minus_one: "atoi ''-1'' = Some (- 1)"
  by (simp add: atoi_def is_digit_def digits_val_def digit_val_def)

lemma treeStep_minus_one: "treeStep (Arr c) ''-1'' = None"
  by (simp add: treeStep_def atoi_minus_one)

lemma lookup_container: "treeLookup (container_or_new n) (s # ss) = treeLookup n (s # ss)"
  by (cases n) (simp_all add: container_or_new_def isTreeContainer_def)

lemma nth_pad_update:
  "(pad_to x i c)[i := v] ! j = (if j = i then v else if j < length c then c ! j else x)"
  if "j < max (length c) (Suc i)"
  using that by (simp add: nth_list_update length_pad_to nth_pad_to)

lemma treeStep_updated:
  assumes "atoi s = Some i" and "0 \<le> i"
  shows "treeStep (Arr ((pad_to Nil (nat i) c)[nat i := x])) s = Some x"
proof -
  have "nat i < length (pad_to Nil (nat i) c)" by (simp add: length_pad_to)
  then show ?thesis using assms by (simp add: treeStep_def)
qed

lemma treeSet_get:
  "wf_node n \<Longrightarrow> ''-1'' \<notin> set segs \<Longrightarrow> treeSet n segs v = Inr n' \<Longrightarrow>
    treeLookup n' segs = Some v"
proof (induction segs arbitrary: n n')
  case Nil
  then show ?case by simp
next
  case (Cons s ss)
  have set: "treeSet (container_or_new n) (s # ss) v = Inr n'"
    using Cons.prems(3) by (subst (asm) treeSet_container)
  have wfc: "wf_node (container_or_new n)" using Cons.prems(1) by (rule wf_container)
  show ?case
  proof (cases n rule: container_cases)
    case (obj ob)
    from set [unfolded obj] show ?thesis
    proof (cases rule: treeSet_Obj_cases)
      case (1 x)
      have "treeLookup x ss = Some v"
        using 1(2) Cons.IH [OF wf_child [OF wfc [unfolded obj]]] Cons.prems(2)
        by (auto split: if_splits)
      with 1(1) wfc obj show ?thesis by simp
    qed
  next
    case (arr c)
    from set [unfolded arr] show ?thesis
    proof (cases rule: treeSet_Arr_cases)
      case (append x)
      with Cons.prems(2) show ?thesis by simp
    next
      case (update i x)
      have "treeLookup x ss = Some v"
        using update(5) Cons.IH [OF wf_container [OF wf_pad_nth [OF wfc [unfolded arr]]]] Cons.prems(2)
        by (auto split: if_splits)
      moreover have "treeStep n' s = Some x"
        unfolding update(4) by (rule treeStep_updated [OF update(2,3)])
      ultimately show ?thesis by simp
    qed
  qed
qed

subsection \<open>A write below a node is a write to that node\<close>

lemma step_container: "treeStep n s = Some m \<Longrightarrow> container_or_new n = n"
  by (cases n) (simp_all add: container_or_new_def isTreeContainer_def)

lemma obj_child_get: "obj_get ob s = Some m \<Longrightarrow> obj_child ob s = container_or_new m"
  by (simp add: obj_child_def)

lemma treeSet_into:
  assumes "wf_node n" and "treeStep n s = Some m" and "ss \<noteq> []" and "treeSet m ss v = Inr m'"
  shows "\<exists>n'. treeSet n (s # ss) v = Inr n' \<and> treeStep n' s = Some m'"
proof -
  obtain t ts where ss: "ss = t # ts" using assms(3) by (cases ss) auto
  have m: "treeSet (container_or_new m) ss v = Inr m'"
    using assms(4) unfolding ss by (subst (asm) treeSet_container)
  show ?thesis
  proof (cases n)
    case (Obj ob)
    with assms m show ?thesis by (auto simp: treeSet_Obj obj_child_get)
  next
    case (Arr c)
    with assms(2) obtain i where i: "atoi s = Some i" "0 \<le> i" "i < int (length c)" "m = c ! nat i"
      by (auto simp: treeStep_Arr)
    then have "s \<noteq> ''-1''" and "pad_to Nil (nat i) c = c"
      by (auto simp: atoi_minus_one pad_to_longer)
    with Arr i m assms(3) show ?thesis
      by (auto simp: treeSet_Arr treeStep_Arr)
  qed (use assms in auto)
qed

lemma treeLookup_append: "treeLookup n (p @ q) = (case treeLookup n p of None \<Rightarrow> None | Some m \<Rightarrow> treeLookup m q)"
  by (induction p arbitrary: n) (auto split: option.splits)

lemma wf_treeStep: "wf_node n \<Longrightarrow> treeStep n s = Some m \<Longrightarrow> wf_node m"
  by (cases n) (auto simp: treeStep_Arr intro: obj_get_vals)

lemma wf_treeLookup: "wf_node n \<Longrightarrow> treeLookup n p = Some m \<Longrightarrow> wf_node m"
  by (induction p arbitrary: n) (auto split: option.splits dest: wf_treeStep)

lemma treeSet_below:
  "wf_node n \<Longrightarrow> treeLookup n p = Some m \<Longrightarrow> q \<noteq> [] \<Longrightarrow> treeSet m q v = Inr m' \<Longrightarrow>
    \<exists>n'. treeSet n (p @ q) v = Inr n' \<and> treeLookup n' p = Some m'"
proof (induction p arbitrary: n)
  case Nil
  then show ?case by simp
next
  case (Cons s p)
  then obtain k where k: "treeStep n s = Some k" "treeLookup k p = Some m"
    by (auto split: option.splits)
  obtain k' where k': "treeSet k (p @ q) v = Inr k'" "treeLookup k' p = Some m'"
    using Cons.IH [OF wf_treeStep [OF Cons.prems(1) k(1)] k(2) Cons.prems(3,4)] by blast
  obtain n' where "treeSet n (s # p @ q) v = Inr n'" "treeStep n' s = Some k'"
    using treeSet_into [OF Cons.prems(1) k(1) _ k'(1)] Cons.prems(3) by blast
  with k'(2) show ?case by simp
qed

subsection \<open>A write leaves what lies beside its path\<close>

text \<open>
  Two paths part where their segments differ and cannot name the same array element
  (\<open>1\<close>, \<open>01\<close> and \<open>+1\<close> do).
\<close>

fun diverge :: "bytes list \<Rightarrow> bytes list \<Rightarrow> bool" where
  "diverge (s # ss) (t # ts) =
     (if s = t then diverge ss ts else atoi s = None \<or> atoi t = None \<or> atoi s \<noteq> atoi t)"
| "diverge _ _ = False"

text \<open>What a lookup beside the path may gain: the \<open>null\<close> that pads an array.\<close>

definition same_or_padded :: "bool \<Rightarrow> node option \<Rightarrow> node option \<Rightarrow> bool" where
  "same_or_padded appends before after \<longleftrightarrow>
     after = before \<or> before = None \<and> (after = Some Nil \<or> appends)"

lemma same_or_padded_refl [simp]: "same_or_padded a x x"
  by (simp add: same_or_padded_def)

lemma same_or_padded_more: "same_or_padded a x y \<Longrightarrow> (a \<Longrightarrow> b) \<Longrightarrow> same_or_padded b x y"
  by (auto simp: same_or_padded_def)

lemma lookup_child:
  assumes "ts \<noteq> []"
  shows "treeLookup (obj_child ob s) ts = treeLookup (Obj ob) (s # ts)"
proof -
  obtain u us where "ts = u # us" using assms by (cases ts) auto
  then show ?thesis
    using lookup_container [of _ u us] by (auto simp: obj_child_def split: option.split)
qed

lemma lookup_padded:
  assumes "ts \<noteq> []" and "atoi s = Some i" and "0 \<le> i"
  shows "treeLookup (container_or_new (pad_to Nil (nat i) c ! nat i)) ts = treeLookup (Arr c) (s # ts)"
proof -
  obtain u us where ts: "ts = u # us" using assms(1) by (cases ts) auto
  have "pad_to Nil (nat i) c ! nat i = (if nat i < length c then c ! nat i else Nil)"
    by (rule nth_pad_to) (simp add: length_pad_to)
  moreover have "nat i < length c \<longleftrightarrow> i < int (length c)" using assms(3) by linarith
  ultimately show ?thesis
    using assms(2,3) unfolding ts lookup_container by (simp add: treeStep_def)
qed

lemma treeStep_beside:
  fixes c x
  assumes "0 \<le> i" and "atoi t \<noteq> Some i"
  defines "n' \<equiv> Arr ((pad_to Nil (nat i) c)[nat i := x])"
  shows "treeStep n' t = treeStep (Arr c) t \<or> treeStep (Arr c) t = None \<and> treeStep n' t = Some Nil"
proof (cases "treeStep n' t")
  case None
  then show ?thesis
    by (auto simp: treeStep_def n'_def length_pad_to split: option.splits if_splits)
next
  case (Some y)
  then obtain j where j: "atoi t = Some j" "0 \<le> j" "nat j < max (length c) (Suc (nat i))"
      "y = (pad_to Nil (nat i) c)[nat i := x] ! nat j"
    by (auto simp: n'_def treeStep_Arr length_pad_to)
  moreover have "nat j \<noteq> nat i" using j(1,2) assms(1,2) by auto
  ultimately have "y = (if nat j < length c then c ! nat j else Nil)"
    using nth_pad_update [of "nat j" c "nat i" Nil x] by (simp only: if_False)
  with Some j(1,2) show ?thesis by (auto simp: treeStep_def)
qed

lemma treeLookup_missing: "treeLookup (Obj newTreeObj) (s # ss) = None" "treeLookup Nil (s # ss) = None"
  by simp_all

lemma treeSet_beside:
  "wf_node n \<Longrightarrow> treeSet n p v = Inr n' \<Longrightarrow> diverge p q \<Longrightarrow>
    same_or_padded (''-1'' \<in> set p) (treeLookup n q) (treeLookup n' q)"
proof (induction p arbitrary: n n' q)
  case Nil
  then show ?case by simp
next
  case (Cons s ss)
  then obtain t ts where q: "q = t # ts" by (cases q) auto
  have set: "treeSet (container_or_new n) (s # ss) v = Inr n'"
    using Cons.prems(2) by (subst (asm) treeSet_container)
  have wfc: "wf_node (container_or_new n)" using Cons.prems(1) by (rule wf_container)
  have look: "treeLookup n q = treeLookup (container_or_new n) q"
    by (simp add: q lookup_container del: treeLookup.simps)
  have IH: "same_or_padded (''-1'' \<in> set ss) (treeLookup m ts) (treeLookup x ts)"
    if "s = t" "wf_node m" "if ss = [] then x = v else treeSet m ss v = Inr x" for m x
    using Cons.IH [of m x ts] Cons.prems(3) that q by (cases ss) auto
  have ts: "s = t \<Longrightarrow> ts \<noteq> []" using Cons.prems(3) q by (cases ss; cases ts) auto
  show ?case
  proof (cases n rule: container_cases)
    case (obj ob)
    from set [unfolded obj] show ?thesis
    proof (cases rule: treeSet_Obj_cases)
      case (1 x)
      have wfob: "wf_obj ob" using wfc obj by simp
      show ?thesis
      proof (cases "s = t")
        case True
        have "treeLookup (obj_child ob s) ts = treeLookup (Obj ob) q"
          using lookup_child [OF ts [OF True]] True q by simp
        moreover have "treeLookup n' q = treeLookup x ts"
          unfolding 1(1) q using wfob True by simp
        moreover have "same_or_padded (''-1'' \<in> set ss)
            (treeLookup (obj_child ob s) ts) (treeLookup x ts)"
          by (rule IH [OF True wf_child [OF wfc [unfolded obj]] 1(2)])
        ultimately show ?thesis
          unfolding look obj by (simp add: same_or_padded_more)
      next
        case False
        then show ?thesis unfolding look unfolding obj q 1(1) using wfob by simp
      qed
    qed
  next
    case (arr c)
    from set [unfolded arr] show ?thesis
    proof (cases rule: treeSet_Arr_cases)
      case (append x)
      have "treeStep n' t = treeStep (Arr c) t" if "treeStep (Arr c) t \<noteq> None"
        using that append(2) by (auto simp: treeStep_def nth_append split: option.splits if_splits)
      then show ?thesis
        unfolding look unfolding arr q using append(1) by (cases "treeStep (Arr c) t") (auto simp: same_or_padded_def)
    next
      case (update i x)
      let ?c = "pad_to Nil (nat i) c"
      show ?thesis
      proof (cases "s = t")
        case True
        have "treeLookup (container_or_new (?c ! nat i)) ts = treeLookup (Arr c) q"
          using lookup_padded [OF ts [OF True] update(2,3)] True q by simp
        moreover have "treeLookup n' q = treeLookup x ts"
          using treeStep_updated [OF update(2,3)] True q update(4) by simp
        moreover have "same_or_padded (''-1'' \<in> set ss)
            (treeLookup (container_or_new (?c ! nat i)) ts) (treeLookup x ts)"
          by (rule IH [OF True wf_container [OF wf_pad_nth [OF wfc [unfolded arr]]] update(5)])
        ultimately show ?thesis
          unfolding look arr by (simp add: same_or_padded_more)
      next
        case False
        have ne: "atoi t \<noteq> Some i" using Cons.prems(3) False q update(2) by auto
        have "treeStep n' t = treeStep (Arr c) t \<or> treeStep (Arr c) t = None \<and> treeStep n' t = Some Nil"
          unfolding update(4) by (rule treeStep_beside [OF update(3) ne])
        then show ?thesis
          unfolding look unfolding arr q by (cases ts) (auto simp: same_or_padded_def)
      qed
    qed
  qed
qed

subsection \<open>When a write fails\<close>

text \<open>
  A segment that addresses no element of an array, and what it means for a path to run into
  one: a proper prefix of the path leads to an array and the segment after it is bad.
\<close>

definition bad_index :: "bytes \<Rightarrow> bool" where
  "bad_index s \<longleftrightarrow> s \<noteq> ''-1'' \<and> (case atoi s of None \<Rightarrow> True | Some i \<Rightarrow> i < 0)"

fun blocked_at :: "node \<Rightarrow> bytes list \<Rightarrow> bytes option" where
  "blocked_at n [] = None"
| "blocked_at (Arr c) (s # ss) =
     (if bad_index s then Some s
      else case treeStep (Arr c) s of None \<Rightarrow> None | Some m \<Rightarrow> blocked_at m ss)"
| "blocked_at n (s # ss) = (case treeStep n s of None \<Rightarrow> None | Some m \<Rightarrow> blocked_at m ss)"

lemma blocked_container: "blocked_at (container_or_new n) ss = blocked_at n ss"
  by (cases n; cases ss) (simp_all add: container_or_new_def isTreeContainer_def)

lemma blocked_new [simp]: "blocked_at (Obj newTreeObj) ss = None"
  by (cases ss) simp_all

lemma blocked_Nil [simp]: "blocked_at Nil ss = None"
  by (cases ss) simp_all

lemma blocked_child: "blocked_at (obj_child ob s) ss = blocked_at (Obj ob) (s # ss)"
  by (simp add: obj_child_def blocked_container split: option.split)

lemma not_bad_index: "\<not> bad_index s \<Longrightarrow> s \<noteq> ''-1'' \<Longrightarrow> \<exists>i. atoi s = Some i \<and> 0 \<le> i"
  by (auto simp: bad_index_def split: option.splits)

lemma blocked_padded:
  assumes "atoi s = Some i" and "0 \<le> i"
  shows "blocked_at (container_or_new (pad_to Nil (nat i) c ! nat i)) ss =
    (case treeStep (Arr c) s of None \<Rightarrow> None | Some m \<Rightarrow> blocked_at m ss)"
proof -
  have "pad_to Nil (nat i) c ! nat i = (if nat i < length c then c ! nat i else Nil)"
    by (rule nth_pad_to) (simp add: length_pad_to)
  moreover have "nat i < length c \<longleftrightarrow> i < int (length c)" using assms(2) by linarith
  ultimately show ?thesis
    using assms by (simp add: blocked_container treeStep_def)
qed

lemma treeSet_Inl:
  "segs \<noteq> [] \<Longrightarrow> treeSet n segs v = Inl e \<longleftrightarrow> (\<exists>s. blocked_at n segs = Some s \<and> e = NonNumericKey s)"
proof (induction segs arbitrary: n)
  case Nil
  then show ?case by simp
next
  case (Cons s ss)
  have deep: "(if ss = [] then False else treeSet m ss v = Inl e) \<longleftrightarrow>
      (\<exists>s. blocked_at m ss = Some s \<and> e = NonNumericKey s)" for m
    using Cons.IH [of m] by auto
  have "treeSet (container_or_new n) (s # ss) v = Inl e \<longleftrightarrow>
      (\<exists>t. blocked_at (container_or_new n) (s # ss) = Some t \<and> e = NonNumericKey t)"
  proof (cases n rule: container_cases)
    case (obj ob)
    have "treeSet (Obj ob) (s # ss) v = Inl e \<longleftrightarrow>
        (if ss = [] then False else treeSet (obj_child ob s) ss v = Inl e)"
      by (simp add: treeSet_Obj map_sum_Inl)
    then show ?thesis unfolding obj deep blocked_child .
  next
    case (arr c)
    consider (minus) "s = ''-1''" | (bad) "bad_index s"
      | (index) i where "s \<noteq> ''-1''" "\<not> bad_index s" "atoi s = Some i" "0 \<le> i"
      using not_bad_index by blast
    then show ?thesis
    proof cases
      case minus
      have "treeSet (Arr c) (s # ss) v = Inl e \<longleftrightarrow>
          (if ss = [] then False else treeSet (Obj newTreeObj) ss v = Inl e)"
        using minus by (simp add: treeSet_Arr map_sum_Inl)
      moreover have "blocked_at (Arr c) (s # ss) = None"
        using minus by (simp add: bad_index_def treeStep_minus_one)
      ultimately show ?thesis unfolding arr deep by simp
    next
      case bad
      then have "treeSet (Arr c) (s # ss) v = Inl (NonNumericKey s)"
        by (auto simp: treeSet_Arr bad_index_def split: option.splits)
      then show ?thesis unfolding arr using bad by auto
    next
      case index
      have "treeSet (Arr c) (s # ss) v = Inl e \<longleftrightarrow>
          (if ss = [] then False
           else treeSet (container_or_new (pad_to Nil (nat i) c ! nat i)) ss v = Inl e)"
        using index by (simp add: treeSet_Arr map_sum_Inl)
      then show ?thesis
        unfolding arr deep blocked_padded [OF index(3,4)] using index(2) by simp
    qed
  qed
  then show ?case
    unfolding blocked_container by (subst treeSet_container)
qed

lemma blocked_at_iff:
  "blocked_at n segs = Some s \<longleftrightarrow>
     (\<exists>p q c. segs = p @ s # q \<and> treeLookup n p = Some (Arr c) \<and> bad_index s)"
  (is "_ \<longleftrightarrow> ?R n segs")
proof (induction segs arbitrary: n)
  case Nil
  then show ?case by simp
next
  case (Cons t ss)
  have step: "blocked_at n (t # ss) =
      (if (\<exists>c. n = Arr c) \<and> bad_index t then Some t
       else case treeStep n t of None \<Rightarrow> None | Some m \<Rightarrow> blocked_at m ss)"
    by (cases n) simp_all
  have excl: "treeStep n t = None" if "(\<exists>c. n = Arr c) \<and> bad_index t"
    using that by (auto simp: treeStep_def bad_index_def split: option.splits)
  have R: "?R n (t # ss) \<longleftrightarrow>
      (\<exists>c. n = Arr c) \<and> bad_index s \<and> t = s \<or> (\<exists>m. treeStep n t = Some m \<and> ?R m ss)"
    (is "_ \<longleftrightarrow> ?A \<or> ?B")
  proof
    assume "?R n (t # ss)"
    then obtain p q c where *: "t # ss = p @ s # q" "treeLookup n p = Some (Arr c)" "bad_index s"
      by blast
    then show "?A \<or> ?B"
      by (cases p) (auto split: option.splits)
  next
    assume "?A \<or> ?B"
    then show "?R n (t # ss)"
    proof
      assume ?A
      then obtain c where "n = Arr c" "bad_index s" "t = s" by blast
      then have "t # ss = [] @ s # ss \<and> treeLookup n [] = Some (Arr c) \<and> bad_index s" by simp
      then show ?thesis by blast
    next
      assume ?B
      then obtain m p q c where *: "treeStep n t = Some m" "ss = p @ s # q"
        "treeLookup m p = Some (Arr c)" "bad_index s" by blast
      then show ?thesis by (intro exI [of _ "t # p"] exI [of _ q] exI [of _ c]) simp
    qed
  qed
  show ?case
    unfolding step R using excl Cons.IH by (auto split: option.split)
qed

subsection \<open>Deletes\<close>

text \<open>Deleting what is not there changes nothing, not even the order of the keys.\<close>

lemma obj_put_same: "obj_get ob s = Some c \<Longrightarrow> obj_put s c ob = ob"
  by (cases ob) (auto simp: obj_get_def obj_put_def list_update_id split: option.splits)

lemma obj_del_missing: "obj_get ob s = None \<Longrightarrow> obj_del s ob = ob"
  by (auto simp: obj_get_def obj_del_def split: option.splits)

lemma treeDel_missing:
  "segs \<noteq> [] \<Longrightarrow> treeLookup n segs = None \<Longrightarrow> treeDel n segs = Some n"
proof (induction segs arbitrary: n)
  case Nil
  then show ?case by simp
next
  case (Cons s ss)
  show ?case
  proof (cases "treeStep n s")
    case None
    then show ?thesis
      by (cases n) (auto simp: treeStep_def obj_del_missing split: option.splits if_splits)
  next
    case (Some m)
    with Cons.prems(2) have "treeLookup m ss = None" by simp
    then have ss: "ss \<noteq> []" by auto
    with Cons.IH [OF _ \<open>treeLookup m ss = None\<close>] have m: "treeDel m ss = Some m" .
    show ?thesis
      using Some ss m
      by (cases n) (auto simp: treeStep_def obj_put_same split: option.splits if_splits)
  qed
qed

text \<open>A delete below a node is a delete in that node, and touches nothing beside it.\<close>

lemma treeDel_into:
  assumes "wf_node n" and "treeStep n s = Some m" and "ss \<noteq> []" and "treeDel m ss = Some m'"
  shows "\<exists>n'. treeDel n (s # ss) = Some n' \<and> treeStep n' s = Some m' \<and>
    (\<forall>t. diverge [s] [t] \<longrightarrow> treeStep n' t = treeStep n t)"
proof (cases n)
  case (Obj ob)
  with assms show ?thesis by auto
next
  case (Arr c)
  with assms(2) obtain i where i: "atoi s = Some i" "0 \<le> i" "i < int (length c)" "m = c ! nat i"
    by (auto simp: treeStep_Arr)
  have "treeStep (Arr (c[nat i := m'])) t = treeStep (Arr c) t" if "diverge [s] [t]" for t
  proof (cases "treeStep (Arr c) t")
    case None
    then show ?thesis by (auto simp: treeStep_def split: option.splits if_splits)
  next
    case (Some y)
    then obtain j where j: "atoi t = Some j" "0 \<le> j" "j < int (length c)" "y = c ! nat j"
      by (auto simp: treeStep_Arr)
    with that i have "nat j \<noteq> nat i" by (auto split: if_splits)
    with j Some show ?thesis by (simp add: treeStep_def)
  qed
  moreover have "treeStep (Arr (c[nat i := m'])) s = Some m'"
    using i by (simp add: treeStep_def nat_less_iff)
  ultimately show ?thesis
    using Arr assms(3,4) i by simp
qed (use assms in auto)

lemma treeDel_below:
  "wf_node n \<Longrightarrow> treeLookup n p = Some m \<Longrightarrow> q \<noteq> [] \<Longrightarrow> treeDel m q = Some m' \<Longrightarrow>
    \<exists>n'. treeDel n (p @ q) = Some n' \<and> treeLookup n' p = Some m' \<and>
      (\<forall>r. diverge p r \<longrightarrow> treeLookup n' r = treeLookup n r)"
proof (induction p arbitrary: n)
  case Nil
  then show ?case by simp
next
  case (Cons s p)
  then obtain k where k: "treeStep n s = Some k" "treeLookup k p = Some m"
    by (auto split: option.splits)
  obtain k' where k': "treeDel k (p @ q) = Some k'" "treeLookup k' p = Some m'"
      "\<And>r. diverge p r \<Longrightarrow> treeLookup k' r = treeLookup k r"
    using Cons.IH [OF wf_treeStep [OF Cons.prems(1) k(1)] k(2) Cons.prems(3,4)] by blast
  obtain n' where n': "treeDel n (s # p @ q) = Some n'" "treeStep n' s = Some k'"
      "\<And>t. diverge [s] [t] \<Longrightarrow> treeStep n' t = treeStep n t"
    using treeDel_into [OF Cons.prems(1) k(1) _ k'(1)] Cons.prems(3) by blast
  have "treeLookup n' r = treeLookup n r" if d: "diverge (s # p) r" for r
  proof -
    obtain t ts where r: "r = t # ts" using d by (cases r) auto
    show ?thesis
    proof (cases "s = t")
      case True
      with d r have "diverge p ts" by simp
      with True r n'(2) k(1) k'(3) show ?thesis by simp
    next
      case False
      with d r have "diverge [s] [t]" by simp
      with r n'(3) show ?thesis by simp
    qed
  qed
  with n' k'(2) show ?case by auto
qed

lemma treeDel_key:
  assumes "wf_node n" and "treeLookup n p = Some (Obj ob)"
  shows "\<exists>n'. treeDel n (p @ [k]) = Some n' \<and> treeLookup n' p = Some (Obj (obj_del k ob)) \<and>
    (\<forall>r. treeLookup n' (p @ k # r) = None) \<and>
    (\<forall>r. diverge p r \<longrightarrow> treeLookup n' r = treeLookup n r)"
proof -
  have wf: "wf_obj ob" using wf_treeLookup [OF assms] by simp
  obtain n' where n': "treeDel n (p @ [k]) = Some n'" "treeLookup n' p = Some (Obj (obj_del k ob))"
    "\<And>r. diverge p r \<Longrightarrow> treeLookup n' r = treeLookup n r"
    using treeDel_below [OF assms, of "[k]"] by auto
  then show ?thesis using wf by (auto simp: treeLookup_append)
qed

lemma treeDel_index:
  assumes "wf_node n" and "treeLookup n p = Some (Arr c)"
    and "atoi k = Some i" and "0 \<le> i" and "i < int (length c)"
  shows "\<exists>n'. treeDel n (p @ [k]) = Some n' \<and> treeLookup n' p = Some (Arr (remove_at (nat i) c)) \<and>
    (\<forall>r. diverge p r \<longrightarrow> treeLookup n' r = treeLookup n r)"
  using treeDel_below [OF assms(1,2), of "[k]"] assms(3-5) by auto

end
