(* ===== verification/TreeSpec.thy ===== *)
theory TreeSpec
  imports TreeLaws
begin

text \<open>
  The abstract document and the proof that the tree implements it. An abstract object is the
  list of its entries in order; there are no parallel arrays, no index and no distinction
  between a scalar and a container that is about to be replaced. The operations on it are
  three short recursions on the segments.
\<close>

subsection \<open>The abstract document\<close>

datatype doc =
    DLeaf bytes
  | DObj "(bytes \<times> bytes \<times> doc) list"
  | DArr "doc list"

text \<open>
  \<open>nil\<close>, the padding of an array, and a stored \<open>null\<close> read, print and behave alike; the
  abstraction identifies them.
\<close>

abbreviation DNull :: doc where
  "DNull \<equiv> DLeaf ''null''"

fun doc_entries :: "doc \<Rightarrow> (bytes \<times> bytes \<times> doc) list" where
  "doc_entries (DObj es) = es"
| "doc_entries _ = []"

definition entry :: "bytes \<Rightarrow> (bytes \<times> bytes \<times> doc) list \<Rightarrow> doc option" where
  "entry s es = map_option snd (map_of es s)"

definition element :: "bytes \<Rightarrow> doc list \<Rightarrow> doc option" where
  "element s c =
     (case atoi s of
        None \<Rightarrow> None
      | Some i \<Rightarrow> if 0 \<le> i \<and> i < int (length c) then Some (c ! nat i) else None)"

definition spec_step :: "doc \<Rightarrow> bytes \<Rightarrow> doc option" where
  "spec_step d s = (case d of DArr c \<Rightarrow> element s c | _ \<Rightarrow> entry s (doc_entries d))"

fun spec_get :: "doc \<Rightarrow> bytes list \<Rightarrow> doc option" where
  "spec_get d [] = Some d"
| "spec_get d (s # ss) = Option.bind (spec_step d s) (\<lambda>x. spec_get x ss)"

text \<open>The value at \<open>s\<close> that a write below it starts from; nothing at all is \<open>DNull\<close>.\<close>

definition old_value :: "doc option \<Rightarrow> doc" where
  "old_value r = (case r of None \<Rightarrow> DNull | Some d \<Rightarrow> d)"

fun spec_set :: "doc \<Rightarrow> bytes list \<Rightarrow> doc \<Rightarrow> path_error + doc" where
  "spec_set d [] v = Inr v"
| "spec_set d (s # ss) v =
     (case d of
        DArr c \<Rightarrow>
          if s = ''-1'' then map_sum id (\<lambda>x. DArr (c @ [x])) (spec_set DNull ss v)
          else if bad_index s then Inl (NonNumericKey s)
          else (let i = nat (the (atoi s)) in
            map_sum id (\<lambda>x. DArr ((pad_to DNull i c)[i := x])) (spec_set (pad_to DNull i c ! i) ss v))
      | _ \<Rightarrow>
          map_sum id (\<lambda>x. DObj (put_entry stringifyJSON s x (doc_entries d)))
            (spec_set (old_value (entry s (doc_entries d))) ss v))"

fun spec_del :: "doc \<Rightarrow> bytes list \<Rightarrow> doc" where
  "spec_del d [] = d"
| "spec_del d (s # ss) =
     (case spec_step d s of
        None \<Rightarrow> d
      | Some x \<Rightarrow>
          (case d of
             DArr c \<Rightarrow>
               (let i = nat (the (atoi s)) in
                DArr (if ss = [] then remove_at i c else c[i := spec_del x ss]))
           | _ \<Rightarrow>
               DObj (if ss = [] then filter (\<lambda>e. fst e \<noteq> s) (doc_entries d)
                     else put_entry stringifyJSON s (spec_del x ss) (doc_entries d))))"

subsection \<open>The abstraction\<close>

primrec abs_node :: "node \<Rightarrow> doc" where
  "abs_node (Leaf t) = DLeaf t"
| "abs_node (Obj ob) = DObj (obj_entries (map_treeObj abs_node ob))"
| "abs_node (Arr c) = DArr (map abs_node c)"
| "abs_node Nil = DNull"

abbreviation abs_entries :: "node treeObj \<Rightarrow> (bytes \<times> bytes \<times> doc) list" where
  "abs_entries ob \<equiv> obj_entries (map_treeObj abs_node ob)"

lemma sel_map_treeObj:
  "keys (map_treeObj f ob) = keys ob" "raws (map_treeObj f ob) = raws ob"
  "vals (map_treeObj f ob) = map f (vals ob)" "idx (map_treeObj f ob) = idx ob"
  by (cases ob; simp)+

lemma wf_map_treeObj [simp]: "wf_obj (map_treeObj f ob) = wf_obj ob"
  by (simp add: wf_obj_def sel_map_treeObj)

lemma get_map_treeObj: "wf_obj ob \<Longrightarrow> obj_get (map_treeObj f ob) s = map_option f (obj_get ob s)"
proof (cases "idx ob s")
  case (Some i)
  assume wf: "wf_obj ob"
  with Some have "i < length (vals ob)" by (simp add: wf_idx_Some wf_lengths)
  with Some show ?thesis by (simp add: obj_get_def sel_map_treeObj)
qed (simp add: obj_get_def sel_map_treeObj)

lemma put_map_treeObj: "map_treeObj f (obj_put s v ob) = obj_put s (f v) (map_treeObj f ob)"
  by (cases ob) (simp add: obj_put_eq obj_set_def map_update split: option.split)

lemma del_map_treeObj: "map_treeObj f (obj_del s ob) = obj_del s (map_treeObj f ob)"
  by (cases ob) (simp add: obj_del_def Let_def map_remove_at split: option.split)

lemma abs_entry: "wf_obj ob \<Longrightarrow> entry s (abs_entries ob) = map_option abs_node (obj_get ob s)"
  using tob.get_entries [of "map_treeObj abs_node ob" s] by (simp add: entry_def get_map_treeObj)

lemma abs_put:
  "wf_obj ob \<Longrightarrow> abs_entries (obj_put s v ob) = put_entry stringifyJSON s (abs_node v) (abs_entries ob)"
  by (simp add: put_map_treeObj tob.entries_put)

lemma abs_del: "wf_obj ob \<Longrightarrow> abs_entries (obj_del s ob) = filter (\<lambda>e. fst e \<noteq> s) (abs_entries ob)"
  by (simp add: del_map_treeObj tob.entries_del)

lemma abs_new [simp]: "abs_node (Obj newTreeObj) = DObj []"
  by (simp add: newTreeObj_def obj_entries_def)

lemma abs_pad: "map abs_node (pad_to Nil i c) = pad_to DNull i (map abs_node c)"
  by (simp add: pad_to_def)

lemma abs_element: "element s (map abs_node c) = map_option abs_node (treeStep (Arr c) s)"
  by (auto simp: element_def treeStep_def nat_less_iff split: option.split)

lemma abs_step: "wf_node n \<Longrightarrow> spec_step (abs_node n) s = map_option abs_node (treeStep n s)"
  by (cases n) (simp_all add: spec_step_def abs_element abs_entry, simp_all add: entry_def)

theorem abs_treeLookup: "wf_node n \<Longrightarrow> spec_get (abs_node n) segs = map_option abs_node (treeLookup n segs)"
  by (induction segs arbitrary: n)
     (auto simp: abs_step dest: wf_treeStep split: option.split)

subsection \<open>Writes\<close>

text \<open>A write does not see the difference between an empty object, a scalar and nothing.\<close>

lemma spec_set_blank: "spec_set (DLeaf t) (s # ss) v = spec_set (DObj []) (s # ss) v"
  by simp

lemma spec_container:
  "segs \<noteq> [] \<Longrightarrow> spec_set (abs_node (container_or_new n)) segs v = spec_set (abs_node n) segs v"
  by (cases n; cases segs)
    (simp_all add: container_or_new_def isTreeContainer_def newTreeObj_def obj_entries_def)

lemma spec_new: "segs \<noteq> [] \<Longrightarrow> spec_set (DObj []) segs v = spec_set DNull segs v"
  by (cases segs) simp_all

lemma spec_child:
  assumes "wf_obj ob" and "ss \<noteq> []"
  shows "spec_set (abs_node (obj_child ob s)) ss v = spec_set (old_value (entry s (abs_entries ob))) ss v"
proof (cases "obj_get ob s")
  case None
  then show ?thesis
    using spec_new [OF assms(2)] abs_entry [OF assms(1)]
    by (simp add: obj_child_def old_value_def del: abs_node.simps)
next
  case (Some m)
  then show ?thesis
    using spec_container [OF assms(2)] abs_entry [OF assms(1)] by (simp add: obj_child_def old_value_def)
qed

lemma map_sum_comp: "map_sum id f (map_sum id g r) = map_sum id (f \<circ> g) r"
  by (cases r) simp_all

theorem abs_treeSet:
  "segs \<noteq> [] \<Longrightarrow> wf_node n \<Longrightarrow>
    map_sum id abs_node (treeSet n segs v) = spec_set (abs_node n) segs (abs_node v)"
proof (induction segs arbitrary: n)
  case Nil
  then show ?case by simp
next
  case (Cons s ss)
  let ?v = "abs_node v"
  have wfc: "wf_node (container_or_new n)" using Cons.prems(2) by (rule wf_container)
  have deep: "map_sum id abs_node (if ss = [] then Inr v else treeSet m ss v) =
      spec_set (abs_node m) ss ?v" if "wf_node m" for m
  proof (cases "ss = []")
    case False
    show ?thesis unfolding if_not_P [OF False] by (rule Cons.IH [OF False that])
  qed simp
  have "map_sum id abs_node (treeSet (container_or_new n) (s # ss) v) =
      spec_set (abs_node (container_or_new n)) (s # ss) ?v"
  proof (cases n rule: container_cases)
    case (obj ob)
    have wf: "wf_obj ob" using wfc obj by simp
    have "map_sum id abs_node (treeSet (Obj ob) (s # ss) v) =
        map_sum id (\<lambda>x. DObj (put_entry stringifyJSON s x (abs_entries ob)))
          (map_sum id abs_node (if ss = [] then Inr v else treeSet (obj_child ob s) ss v))"
      by (simp add: treeSet_Obj map_sum_comp comp_def abs_put [OF wf])
    also have "\<dots> = spec_set (abs_node (Obj ob)) (s # ss) ?v"
      using deep [OF wf_child [OF wfc [unfolded obj]], of s] spec_child [OF wf, of ss s ?v]
      by (cases "ss = []") simp_all
    finally show ?thesis unfolding obj .
  next
    case (arr c)
    consider (minus) "s = ''-1''" | (bad) "bad_index s"
      | (index) i where "s \<noteq> ''-1''" "\<not> bad_index s" "atoi s = Some i" "0 \<le> i"
      using not_bad_index by blast
    then show ?thesis
    proof cases
      case minus
      have "map_sum id abs_node (treeSet (Arr c) (s # ss) v) =
          map_sum id (\<lambda>x. DArr (map abs_node c @ [x]))
            (map_sum id abs_node (if ss = [] then Inr v else treeSet (Obj newTreeObj) ss v))"
        using minus by (simp add: treeSet_Arr map_sum_comp comp_def)
      also have "\<dots> = spec_set (abs_node (Arr c)) (s # ss) ?v"
        using minus deep [OF wf_new, unfolded abs_new] spec_new [of ss ?v] by (cases "ss = []") simp_all
      finally show ?thesis unfolding arr .
    next
      case bad
      then show ?thesis
        unfolding arr by (auto simp: treeSet_Arr bad_index_def split: option.splits)
    next
      case index
      let ?m = "pad_to Nil (nat i) c ! nat i"
      have abs_m: "abs_node ?m = pad_to DNull (nat i) (map abs_node c) ! nat i"
        unfolding abs_pad [symmetric] by (subst nth_map) (simp_all add: length_pad_to)
      have wfm: "wf_node ?m" using wf_pad_nth [OF wfc [unfolded arr]] .
      have "map_sum id abs_node (treeSet (Arr c) (s # ss) v) =
          map_sum id (\<lambda>x. DArr ((pad_to DNull (nat i) (map abs_node c))[nat i := x]))
            (map_sum id abs_node (if ss = [] then Inr v else treeSet (container_or_new ?m) ss v))"
        using index by (simp add: treeSet_Arr map_sum_comp comp_def map_update abs_pad)
      also have "\<dots> = spec_set (abs_node (Arr c)) (s # ss) ?v"
        using index deep [OF wf_container [OF wfm]] spec_container [of ss ?m ?v] abs_m
        by (cases "ss = []") (simp_all add: Let_def)
      finally show ?thesis unfolding arr .
    qed
  qed
  then show ?case
    unfolding spec_container [OF list.distinct(2)] by (subst treeSet_container)
qed

subsection \<open>Deletes\<close>

lemma filter_missing: "entry s es = None \<Longrightarrow> filter (\<lambda>e. fst e \<noteq> s) es = es"
  by (auto simp: entry_def map_of_eq_None_iff filter_id_conv)

theorem abs_treeDel:
  "segs \<noteq> [] \<Longrightarrow> wf_node n \<Longrightarrow> map_option abs_node (treeDel n segs) = Some (spec_del (abs_node n) segs)"
proof (induction segs arbitrary: n)
  case Nil
  then show ?case by simp
next
  case (Cons s ss)
  show ?case
  proof (cases "treeStep n s")
    case None
    then have "treeDel n (s # ss) = Some n"
      by (cases n) (auto simp: treeStep_def obj_del_missing split: option.splits if_splits)
    moreover have "spec_del (abs_node n) (s # ss) = abs_node n"
      using abs_step [OF Cons.prems(2), of s] None by simp
    ultimately show ?thesis by simp
  next
    case (Some m)
    have wfm: "wf_node m" using wf_treeStep [OF Cons.prems(2) Some] .
    have step: "spec_step (abs_node n) s = Some (abs_node m)"
      using abs_step [OF Cons.prems(2), of s] Some by simp
    have IH: "ss \<noteq> [] \<Longrightarrow> \<exists>m'. treeDel m ss = Some m' \<and> abs_node m' = spec_del (abs_node m) ss"
      using Cons.IH [OF _ wfm] by auto
    show ?thesis
    proof (cases n)
      case (Obj ob)
      with Cons.prems(2) have "wf_obj ob" by simp
      with Some Obj step IH show ?thesis
        by (cases "ss = []") (auto simp: abs_put abs_del)
    next
      case (Arr c)
      with Some obtain i where "atoi s = Some i" "0 \<le> i" "i < int (length c)" "m = c ! nat i"
        by (auto simp: treeStep_Arr)
      with Arr step IH show ?thesis
        by (cases "ss = []") (auto simp: map_remove_at map_update)
    qed (use Some in auto)
  qed
qed

end
