(* ===== verification/GoFloat.thy ===== *)
theory GoFloat
  imports GoText Complex_Main
begin

text \<open>
  \<open>strconv.ParseFloat(s, 64)\<close> on a decimal numeral and \<open>strconv.AppendFloat(f, 'f', -1, 64)\<close>,
  in exact arithmetic: a numeral is read as the ratio it denotes and rounded once, to the
  nearest float and to even on a tie; a float is written with the fewest digits that read
  back as the same float, the nearest such decimal when there are two.
\<close>

subsection \<open>Floats\<close>

text \<open>
  \<open>Fin neg m e\<close> is the float \<open>m * 2 ^ e\<close> with its sign; the fields of a 64-bit float
  are \<open>m < 2 ^ 53\<close> and \<open>-1074 \<le> e \<le> 971\<close>, with \<open>2 ^ 52 \<le> m\<close> unless the exponent
  is the least.
\<close>

datatype float64 = Fin (sign: bool) (mant: nat) (expo: int) | Inf bool | NaN

definition fin_ok :: "nat \<Rightarrow> int \<Rightarrow> bool" where
  "fin_ok m e \<longleftrightarrow> m < 2 ^ 53 \<and> - 1074 \<le> e \<and> e \<le> 971 \<and> (2 ^ 52 \<le> m \<or> e = - 1074)"

fun float_ok :: "float64 \<Rightarrow> bool" where
  "float_ok (Fin s m e) = fin_ok m e"
| "float_ok _ = True"

subsection \<open>Ratios scaled by a power\<close>

text \<open>A pair is the ratio of its components; \<open>scale b k r\<close> is \<open>r * b ^ k\<close>.\<close>

type_synonym ratio = "nat \<times> nat"

definition scale :: "nat \<Rightarrow> int \<Rightarrow> ratio \<Rightarrow> ratio" where
  "scale b k r = (if 0 \<le> k then (fst r * b ^ nat k, snd r) else (fst r, snd r * b ^ nat (- k)))"

definition ge_power :: "nat \<Rightarrow> int \<Rightarrow> ratio \<Rightarrow> bool" where
  "ge_power b k r = (let s = scale b (- k) r in snd s \<le> fst s)"

function num_len :: "nat \<Rightarrow> nat \<Rightarrow> nat" where
  "num_len b n = (if n = 0 \<or> b < 2 then 0 else Suc (num_len b (n div b)))"
  by pat_completeness auto
termination by (relation "measure snd") auto

declare num_len.simps [simp del]

text \<open>The greatest \<open>k\<close> with \<open>b ^ k \<le> r\<close>: the lengths of the two numbers leave two values.\<close>

definition int_log :: "nat \<Rightarrow> ratio \<Rightarrow> int" where
  "int_log b r =
     (let k = int (num_len b (fst r)) - int (num_len b (snd r)) in if ge_power b k r then k else k - 1)"

text \<open>Division rounded to the nearest integer, to the even one on a tie.\<close>

definition round_div :: "nat \<Rightarrow> nat \<Rightarrow> nat" where
  "round_div p q =
     (let d = p div q; r = p mod q in if q < 2 * r \<or> q = 2 * r \<and> odd d then Suc d else d)"

text \<open>The nearest float to a ratio; \<open>None\<close> when it is past the largest.\<close>

definition round64 :: "ratio \<Rightarrow> (nat \<times> int) option" where
  "round64 r =
     (if fst r = 0 then Some (0, - 1074)
      else (let e = max (- 1074) (int_log 2 r - 52);
                s = scale 2 (- e) r;
                m = round_div (fst s) (snd s);
                f = (if m = 2 ^ 53 then (2 ^ 52, e + 1) else (m, e))
            in if 971 < snd f then None else Some f))"

subsection \<open>Reading a decimal\<close>

text \<open>
  \<open>ParseFloat\<close> on \<open>[sign] digits [. digits] [e [sign] digits]\<close>: it stops accumulating
  the exponent once it has reached 10000, and reports an overflow as an error.
\<close>

definition exp_val :: "bytes \<Rightarrow> nat" where
  "exp_val ds = foldl (\<lambda>e c. if e < 10000 then 10 * e + digit_val c else e) 0 ds"

definition signed_exp :: "bytes \<Rightarrow> int" where
  "signed_exp s =
     (case s of
        [] \<Rightarrow> 0
      | c # r \<Rightarrow> if c = CHR ''-'' then - int (exp_val r)
                 else if c = CHR ''+'' then int (exp_val r) else int (exp_val s))"

definition parse_ratio :: "bytes \<Rightarrow> ratio" where
  "parse_ratio t =
     (let ip = takeWhile is_digit t;
          r1 = dropWhile is_digit t;
          fp = (case r1 of c # r \<Rightarrow> if c = CHR ''.'' then takeWhile is_digit r else [] | [] \<Rightarrow> []);
          r2 = (case r1 of c # r \<Rightarrow> if c = CHR ''.'' then dropWhile is_digit r else r1 | [] \<Rightarrow> []);
          x = (case r2 of c # r \<Rightarrow> signed_exp r | [] \<Rightarrow> 0)
      in scale 10 (x - int (length fp)) (digits_val (ip @ fp), 1))"

definition parseFloat :: "bytes \<Rightarrow> float64 option" where
  "parseFloat s =
     (let neg = (case s of [] \<Rightarrow> False | c # _ \<Rightarrow> c = CHR ''-'');
          t = (case s of [] \<Rightarrow> [] | c # cs \<Rightarrow> if c = CHR ''-'' \<or> c = CHR ''+'' then cs else s)
      in map_option (\<lambda>(m, e). Fin neg m e) (round64 (parse_ratio t)))"

subsection \<open>Writing the shortest decimal\<close>

text \<open>
  With \<open>n\<close> digits the decimals next to a positive float are the floor and the ceiling of
  its first \<open>n\<close> digits. One of them is taken if it reads back as the float, the nearer one
  first; if neither does, \<open>n + 1\<close> digits are tried. 1400 digits write every float exactly.
\<close>

definition float_ratio :: "nat \<Rightarrow> int \<Rightarrow> ratio" where
  "float_ratio m e = scale 2 e (m, 1)"

definition digits_at :: "nat \<Rightarrow> int \<Rightarrow> nat \<Rightarrow> (nat \<times> int) option" where
  "digits_at m e n =
     (let x = int_log 10 (float_ratio m e) + 1 - int n;
          s = scale 10 (- x) (float_ratio m e);
          d = fst s div snd s;
          reads = (\<lambda>d. round64 (scale 10 x (d, 1)) = Some (m, e))
      in map_option (\<lambda>d. (d, x)) (find reads [round_div (fst s) (snd s), d, Suc d]))"

function shortest_from :: "nat \<Rightarrow> int \<Rightarrow> nat \<Rightarrow> nat \<times> int" where
  "shortest_from m e n =
     (if 1400 \<le> n
      then (let s = scale 10 (int n) (float_ratio m e) in (fst s div snd s, - int n))
      else (case digits_at m e n of Some r \<Rightarrow> r | None \<Rightarrow> shortest_from m e (Suc n)))"
  by pat_completeness auto
termination by (relation "measure (\<lambda>(m, e, n). 1400 - n)") auto

declare shortest_from.simps [simp del]

text \<open>The digits \<open>d\<close> and exponent \<open>x\<close> of \<open>d * 10 ^ x\<close>, written without an exponent.\<close>

definition pad_left :: "nat \<Rightarrow> bytes \<Rightarrow> bytes" where
  "pad_left n s = replicate (n - length s) (CHR ''0'') @ s"

definition decimal_text :: "nat \<times> int \<Rightarrow> bytes" where
  "decimal_text r =
     (case r of (d, x) \<Rightarrow>
        if 0 \<le> x then show_nat (d * 10 ^ nat x)
        else show_nat (d div 10 ^ nat (- x)) @ ''.'' @ pad_left (nat (- x)) (show_nat (d mod 10 ^ nat (- x))))"

fun formatFloat :: "float64 \<Rightarrow> bytes" where
  "formatFloat NaN = ''NaN''"
| "formatFloat (Inf neg) = (if neg then ''-Inf'' else ''+Inf'')"
| "formatFloat (Fin neg m e) =
     (if neg then ''-'' else []) @ (if m = 0 then ''0'' else decimal_text (shortest_from m e 1))"


subsection \<open>Ratios as reals\<close>

definition ratio_val :: "ratio \<Rightarrow> real" where
  "ratio_val r = real (fst r) / real (snd r)"

lemma snd_scale [simp]: "0 < b \<Longrightarrow> 0 < snd r \<Longrightarrow> 0 < snd (scale b k r)"
  by (simp add: scale_def)

lemma fst_scale [simp]: "0 < b \<Longrightarrow> 0 < fst (scale b k r) \<longleftrightarrow> 0 < fst r"
  by (simp add: scale_def)

lemma ratio_val_scale: "0 < b \<Longrightarrow> ratio_val (scale b k r) = ratio_val r * real b powi k"
  by (simp add: ratio_val_def scale_def power_int_def power_inverse divide_inverse)

lemma ge_power_iff:
  assumes "0 < b" and "0 < snd r"
  shows "ge_power b k r \<longleftrightarrow> real b powi k \<le> ratio_val r"
proof -
  let ?s = "scale b (- k) r"
  have "ge_power b k r \<longleftrightarrow> 1 \<le> ratio_val ?s"
    using snd_scale [OF assms, of "- k"] by (simp add: ge_power_def Let_def ratio_val_def le_divide_eq)
  also have "\<dots> \<longleftrightarrow> real b powi k \<le> ratio_val r"
    using assms(1) by (simp add: ratio_val_scale power_int_minus divide_inverse [symmetric] le_divide_eq)
  finally show ?thesis .
qed

lemma num_len_bounds:
  "2 \<le> b \<Longrightarrow> 0 < n \<Longrightarrow> 0 < num_len b n \<and> b ^ (num_len b n - 1) \<le> n \<and> n < b ^ num_len b n"
proof (induction b n rule: num_len.induct)
  case (1 b n)
  have len: "num_len b n = Suc (num_len b (n div b))"
    using 1 by (subst num_len.simps) simp
  show ?case
  proof (cases "n div b = 0")
    case True
    then have "n < b" using 1 by (simp add: div_eq_0_iff)
    with True 1 show ?thesis by (simp add: len num_len.simps [of b 0])
  next
    case False
    with 1 have IH: "0 < num_len b (n div b)" "b ^ (num_len b (n div b) - 1) \<le> n div b"
        "n div b < b ^ num_len b (n div b)" by auto
    have "b ^ num_len b (n div b) = b ^ (num_len b (n div b) - 1) * b"
      using IH(1) by (metis Suc_diff_1 power_Suc mult.commute)
    also have "\<dots> \<le> n div b * b" using IH(2) by simp
    also have "\<dots> \<le> n" by simp
    finally have "b ^ num_len b (n div b) \<le> n" .
    moreover have "n < b ^ num_len b (n div b) * b"
      using IH(3) 1 by (simp add: div_less_iff_less_mult)
    ultimately show ?thesis by (simp add: len mult.commute)
  qed
qed

lemma int_log_bounds:
  assumes b: "2 \<le> b" and pos: "0 < fst r" "0 < snd r"
  shows "real b powi int_log b r \<le> ratio_val r" "ratio_val r < real b powi (int_log b r + 1)"
proof -
  let ?p = "num_len b (fst r)" and ?q = "num_len b (snd r)"
  let ?k = "int ?p - int ?q"
  have p: "0 < ?p" "b ^ (?p - 1) \<le> fst r" "fst r < b ^ ?p"
    and q: "0 < ?q" "b ^ (?q - 1) \<le> snd r" "snd r < b ^ ?q"
    using num_len_bounds [OF b] pos by blast+
  have powi: "real b powi (int m - int n) = real b ^ m / real b ^ n" for m n
    using b by (simp add: power_int_diff)
  have "real b powi (?k - 1) = real b ^ (?p - 1) / real b ^ ?q"
    using p(1) powi [of "?p - 1" ?q] by (simp add: of_nat_diff algebra_simps)
  also have "\<dots> \<le> ratio_val r"
    unfolding ratio_val_def using p(2) q(3) pos
    by (intro frac_le) (simp_all flip: of_nat_power add: less_imp_le)
  finally have low: "real b powi (?k - 1) \<le> ratio_val r" .
  have "ratio_val r < real b ^ ?p / real b ^ (?q - 1)"
    unfolding ratio_val_def using p(3) q(2) pos b
    by (intro frac_less) (simp_all flip: of_nat_power)
  also have "\<dots> = real b powi (?k + 1)"
    using q(1) powi [of ?p "?q - 1"] by (simp add: of_nat_diff algebra_simps)
  finally have high: "ratio_val r < real b powi (?k + 1)" .
  show "real b powi int_log b r \<le> ratio_val r"
    using low ge_power_iff [of b r ?k] b pos by (simp add: int_log_def Let_def)
  show "ratio_val r < real b powi (int_log b r + 1)"
    using high ge_power_iff [of b r ?k] b pos by (simp add: int_log_def Let_def not_le)
qed

lemma int_log_le:
  assumes "2 \<le> b" "0 < fst r" "0 < snd r" and "ratio_val r < real b powi (k + 1)"
  shows "int_log b r \<le> k"
proof (rule ccontr)
  assume "\<not> int_log b r \<le> k"
  then have "real b powi (k + 1) \<le> real b powi int_log b r"
    using assms(1) by (intro power_int_increasing) auto
  with int_log_bounds(1) [OF assms(1-3)] assms(4) show False by linarith
qed

lemma int_log_ge:
  assumes "2 \<le> b" "0 < fst r" "0 < snd r" and "real b powi k \<le> ratio_val r"
  shows "k \<le> int_log b r"
proof (rule ccontr)
  assume "\<not> k \<le> int_log b r"
  then have "real b powi (int_log b r + 1) \<le> real b powi k"
    using assms(1) by (intro power_int_increasing) auto
  with int_log_bounds(2) [OF assms(1-3)] assms(4) show False by linarith
qed


subsection \<open>Rounding\<close>

lemma round_div_exact: "0 < q \<Longrightarrow> round_div (m * q) q = m"
  by (simp add: round_div_def)

lemma round_div_cases: "0 < q \<Longrightarrow> round_div p q = p div q \<or> round_div p q = Suc (p div q) \<and> 0 < p mod q"
  by (auto simp: round_div_def Let_def)

lemma round_div_upper: "0 < q \<Longrightarrow> p < n * q \<Longrightarrow> round_div p q \<le> n"
  using round_div_cases [of q p] by (auto simp: Suc_le_eq div_less_iff_less_mult less_imp_le)

lemma round_div_lower: "0 < q \<Longrightarrow> n * q \<le> p \<Longrightarrow> n \<le> round_div p q"
  using round_div_cases [of q p] by (auto simp: less_eq_div_iff_mult_less_eq le_SucI)

lemma ratio_less: "0 < snd r \<Longrightarrow> ratio_val r < real n \<longleftrightarrow> fst r < n * snd r"
  by (simp add: ratio_val_def divide_less_eq flip: of_nat_mult)

lemma ratio_le: "0 < snd r \<Longrightarrow> real n \<le> ratio_val r \<longleftrightarrow> n * snd r \<le> fst r"
  by (simp add: ratio_val_def le_divide_eq flip: of_nat_mult)

lemma ratio_eq: "0 < snd r \<Longrightarrow> ratio_val r = real n \<longleftrightarrow> fst r = n * snd r"
  by (simp add: ratio_val_def divide_eq_eq flip: of_nat_mult)

text \<open>What \<open>round64\<close> yields is a float.\<close>

lemma scaled_bounds:
  assumes pos: "0 < fst r" "0 < snd r"
  defines "l \<equiv> int_log 2 r"
  shows "e = l - 52 \<Longrightarrow> 2 ^ 52 \<le> ratio_val (scale 2 (- e) r) \<and> ratio_val (scale 2 (- e) r) < 2 ^ 53"
    and "l - 52 \<le> e \<Longrightarrow> ratio_val (scale 2 (- e) r) < 2 ^ 53"
    and "l - 52 < e \<Longrightarrow> ratio_val (scale 2 (- e) r) < 2 ^ 52"
proof -
  have val: "ratio_val (scale 2 (- e) r) = ratio_val r * 2 powi (- e)" for e
    by (simp add: ratio_val_scale)
  have lo: "2 powi l \<le> ratio_val r" and hi: "ratio_val r < 2 powi (l + 1)"
    using int_log_bounds [of 2 r] pos by (simp_all add: l_def)
  have up: "ratio_val r * 2 powi (- e) < 2 powi (l + 1 - e)" for e
  proof -
    have "ratio_val r * 2 powi (- e) < 2 powi (l + 1) * 2 powi (- e)"
      using hi by (intro mult_strict_right_mono) simp_all
    also have "\<dots> = 2 powi (l + 1 - e)" by (simp flip: power_int_add)
    finally show ?thesis .
  qed
  have down: "2 powi (l - e) \<le> ratio_val r * 2 powi (- e)" for e
  proof -
    have "2 powi (l - e) = 2 powi l * (2::real) powi (- e)" by (simp flip: power_int_add)
    also have "\<dots> \<le> ratio_val r * 2 powi (- e)"
      using lo by (intro mult_right_mono) simp_all
    finally show ?thesis .
  qed
  have mono: "(2::real) powi (l + 1 - e) \<le> 2 powi k" if "l + 1 - e \<le> k" for k
    using that by (intro power_int_increasing) simp_all
  show "l - 52 \<le> e \<Longrightarrow> ratio_val (scale 2 (- e) r) < 2 ^ 53"
    using up [of e] mono [of 53] by (simp add: val)
  show "l - 52 < e \<Longrightarrow> ratio_val (scale 2 (- e) r) < 2 ^ 52"
    using up [of e] mono [of 52] by (simp add: val)
  show "e = l - 52 \<Longrightarrow> 2 ^ 52 \<le> ratio_val (scale 2 (- e) r) \<and> ratio_val (scale 2 (- e) r) < 2 ^ 53"
    unfolding val using up [of e] down [of e] by simp
qed

lemma round64_ok:
  assumes "0 < snd r" and "round64 r = Some (m, e)"
  shows "fin_ok m e"
proof (cases "fst r = 0")
  case True
  with assms(2) show ?thesis by (auto simp: round64_def fin_ok_def)
next
  case False
  then have pos: "0 < fst r" by simp
  let ?e = "max (- 1074) (int_log 2 r - 52)"
  let ?s = "scale 2 (- ?e) r"
  let ?m = "round_div (fst ?s) (snd ?s)"
  have q: "0 < snd ?s" using assms(1) by simp
  have up: "?m \<le> 2 ^ 53"
  proof (rule round_div_upper [OF q])
    have "ratio_val ?s < real (2 ^ 53)"
      using scaled_bounds(2) [OF pos assms(1), of ?e] by simp
    then show "fst ?s < 2 ^ 53 * snd ?s" unfolding ratio_less [OF q] .
  qed
  have low: "2 ^ 52 \<le> ?m \<or> ?e = - 1074"
  proof (cases "?e = int_log 2 r - 52")
    case True
    then have "real (2 ^ 52) \<le> ratio_val ?s"
      using scaled_bounds(1) [OF pos assms(1), of ?e] by simp
    then have "2 ^ 52 * snd ?s \<le> fst ?s" unfolding ratio_le [OF q] .
    then show ?thesis using round_div_lower [OF q] by blast
  qed (auto simp: max_def)
  have "(m, e) = (if ?m = 2 ^ 53 then (2 ^ 52, ?e + 1) else (?m, ?e))" "e \<le> 971"
    using assms(2) False by (auto simp: round64_def Let_def split: if_splits)
  with up low show ?thesis by (auto simp: fin_ok_def split: if_splits)
qed

text \<open>A ratio that is a float rounds to it.\<close>

lemma round64_exact:
  assumes q: "0 < snd r" and ok: "fin_ok m e" and m: "0 < m" and val: "ratio_val r = real m * 2 powi e"
  shows "round64 r = Some (m, e)"
proof -
  have "0 < ratio_val r" using m by (simp add: val)
  then have p: "0 < fst r" using q by (auto simp: ratio_val_def zero_less_divide_iff)
  have "ratio_val r < 2 ^ 53 * 2 powi e"
    unfolding val using ok by (intro mult_strict_right_mono) (simp_all add: fin_ok_def flip: of_nat_power)
  also have "\<dots> = 2 powi (e + 52 + 1)" by (simp add: power_int_add)
  finally have up: "int_log 2 r \<le> e + 52"
    using int_log_le [of 2 r "e + 52"] p q by simp
  have e: "max (- 1074) (int_log 2 r - 52) = e"
  proof (cases "e = - 1074")
    case True
    with up show ?thesis by simp
  next
    case False
    then have "real (2 ^ 52) \<le> real m" using ok unfolding of_nat_le_iff by (simp add: fin_ok_def)
    then have "2 ^ 52 * 2 powi e \<le> ratio_val r"
      unfolding val by (intro mult_right_mono) simp_all
    then have "2 powi (e + 52) \<le> ratio_val r" by (simp add: power_int_add mult.commute)
    then have "e + 52 \<le> int_log 2 r"
      using int_log_ge [of 2 r "e + 52"] p q by simp
    with up ok show ?thesis by (simp add: fin_ok_def)
  qed
  let ?s = "scale 2 (- e) r"
  have s: "0 < snd ?s" using q by simp
  have "ratio_val ?s = real m" by (simp add: ratio_val_scale val flip: power_int_add)
  then have "fst ?s = m * snd ?s" using ratio_eq [OF s] by simp
  then have "round_div (fst ?s) (snd ?s) = m" using round_div_exact [OF s] by simp
  then show ?thesis
    using p ok unfolding round64_def Let_def e by (simp add: fin_ok_def)
qed

subsection \<open>The shortest decimal reads back\<close>

lemma ratio_val_float: "ratio_val (float_ratio m e) = real m * 2 powi e"
  by (simp add: float_ratio_def ratio_val_scale) (simp add: ratio_val_def)

lemma pow2_dvd_pow10: "n \<le> k \<Longrightarrow> (2::nat) ^ n dvd 10 ^ k"
proof -
  assume "n \<le> k"
  have "(10::nat) ^ k = 2 ^ k * 5 ^ k" by (simp flip: power_mult_distrib)
  with \<open>n \<le> k\<close> show ?thesis by (simp add: dvd_mult2 le_imp_power_dvd)
qed

lemma exact_decimal:
  assumes "fin_ok m e" and "1074 \<le> n"
  shows "snd (scale 10 (int n) (float_ratio m e)) dvd fst (scale 10 (int n) (float_ratio m e))"
proof -
  have "nat (- e) \<le> n" using assms unfolding fin_ok_def by linarith
  then have "(2::nat) ^ nat (- e) dvd m * 10 ^ n" by (intro dvd_mult pow2_dvd_pow10)
  then show ?thesis by (auto simp: scale_def float_ratio_def)
qed

lemma find_holds: "find P xs = Some x \<Longrightarrow> P x"
  by (auto simp: find_Some_iff)

lemma digits_at_reads:
  "digits_at m e n = Some (d, x) \<Longrightarrow> round64 (scale 10 x (d, 1)) = Some (m, e)"
  by (auto simp: digits_at_def Let_def simp del: find.simps dest!: find_holds)

lemma shortest_reads_back:
  "fin_ok m e \<Longrightarrow> 0 < m \<Longrightarrow> shortest_from m e n = (d, x) \<Longrightarrow>
    round64 (scale 10 x (d, 1)) = Some (m, e)"
proof (induction m e n rule: shortest_from.induct)
  case (1 m e n)
  show ?case
  proof (cases "1400 \<le> n")
    case True
    let ?s = "scale 10 (int n) (float_ratio m e)"
    have d: "d = fst ?s div snd ?s" and x: "x = - int n"
      using "1.prems"(3) True by (simp_all add: shortest_from.simps [of m e n] Let_def)
    have q: "0 < snd ?s" by (simp add: float_ratio_def)
    have "snd ?s dvd fst ?s" using exact_decimal [OF "1.prems"(1)] True by simp
    then have "real d = ratio_val ?s" using q unfolding d ratio_val_def by (simp add: real_of_nat_div)
    then have "ratio_val (scale 10 x (d, 1)) = real m * 2 powi e"
      unfolding x by (simp add: ratio_val_scale ratio_val_float)
        (simp add: ratio_val_def ratio_val_scale ratio_val_float power_int_minus)
    then show ?thesis using "1.prems" by (intro round64_exact) simp_all
  next
    case False
    show ?thesis
    proof (cases "digits_at m e n")
      case None
      with False 1 show ?thesis by (simp add: shortest_from.simps [of m e n])
    next
      case (Some r)
      with False "1.prems"(3) have "digits_at m e n = Some (d, x)"
        by (simp add: shortest_from.simps [of m e n])
      then show ?thesis by (rule digits_at_reads)
    qed
  qed
qed

subsection \<open>Text of digits\<close>

lemma digit_char_digit: "d < 10 \<Longrightarrow> is_digit (digit_char d) \<and> digit_val (digit_char d) = d"
  by (simp add: is_digit_def digit_char_def digit_val_def)

lemma digits_val_snoc: "digits_val (ds @ [c]) = 10 * digits_val ds + digit_val c"
  by (simp add: digits_val_def)

lemma digits_val_append: "digits_val (as @ bs) = digits_val as * 10 ^ length bs + digits_val bs"
proof (induction bs rule: rev_induct)
  case Nil
  then show ?case by (simp add: digits_val_def)
next
  case (snoc c bs)
  then show ?case
    using digits_val_snoc [of "as @ bs" c] by (simp add: digits_val_snoc algebra_simps)
qed

lemma digits_val_zeros: "digits_val (replicate k (CHR ''0'')) = 0"
  by (induction k) (simp_all add: digits_val_def digit_val_def foldl_conv_fold)

lemma show_nat_digits: "list_all is_digit (show_nat n) \<and> show_nat n \<noteq> [] \<and> digits_val (show_nat n) = n"
proof (induction n rule: show_nat.induct)
  case (1 n)
  show ?case
  proof (cases "n < 10")
    case True
    then show ?thesis
      using digit_char_digit [OF True] by (simp add: show_nat.simps [of n] digits_val_def)
  next
    case False
    have "n mod 10 < 10" by simp
    with 1 False show ?thesis
      using digit_char_digit [of "n mod 10"]
      by (simp add: show_nat.simps [of n] digits_val_snoc)
  qed
qed

lemma show_nat_length: "n < 10 ^ k \<Longrightarrow> 0 < k \<Longrightarrow> length (show_nat n) \<le> k"
proof (induction n arbitrary: k rule: show_nat.induct)
  case (1 n)
  show ?case
  proof (cases "n < 10")
    case True
    with 1 show ?thesis by (simp add: show_nat.simps [of n])
  next
    case False
    have "k \<noteq> 1" using "1.prems"(1) False by auto
    with "1.prems"(2) obtain j where k: "k = Suc j" "0 < j"
      by (metis One_nat_def Suc_diff_1 neq0_conv)
    with "1.prems" have "n div 10 < 10 ^ j" by (simp add: div_less_iff_less_mult)
    with "1.IH" [OF False _ k(2)] have "length (show_nat (n div 10)) \<le> j" .
    with False k show ?thesis by (simp add: show_nat.simps [of n])
  qed
qed

lemma not_digit: "\<not> is_digit CHR ''.''" "\<not> is_digit CHR ''-''" "\<not> is_digit CHR ''+''"
  "\<not> is_digit CHR ''e''" "\<not> is_digit CHR ''E''" "\<not> is_digit dquote"
  by (simp_all add: is_digit_def)

lemma show_nat_cons: obtains c cs where "show_nat n = c # cs" "is_digit c" "list_all is_digit cs"
  using show_nat_digits [of n] by (cases "show_nat n") auto

lemma show_nat_leading: "0 < n \<Longrightarrow> hd (show_nat n) \<noteq> CHR ''0''"
proof (induction n rule: show_nat.induct)
  case (1 n)
  show ?case
  proof (cases "n < 10")
    case True
    have "digit_char n \<noteq> CHR ''0''"
      using digit_char_digit [OF True] \<open>0 < n\<close> by (auto simp: digit_val_def)
    with True show ?thesis by (simp add: show_nat.simps [of n])
  next
    case False
    with 1 show ?thesis using show_nat_digits [of "n div 10"] by (simp add: show_nat.simps [of n] hd_append)
  qed
qed

lemma takeWhile_digits:
  "list_all is_digit ds \<Longrightarrow> takeWhile is_digit ds = ds \<and> dropWhile is_digit ds = []"
  "list_all is_digit ds \<Longrightarrow> \<not> is_digit c \<Longrightarrow>
    takeWhile is_digit (ds @ c # t) = ds \<and> dropWhile is_digit (ds @ c # t) = c # t"
  by (auto simp: list_all_iff takeWhile_eq_all_conv takeWhile_append dropWhile_append)

lemma parse_ratio_int: "list_all is_digit ds \<Longrightarrow> parse_ratio ds = (digits_val ds, 1)"
  by (simp add: parse_ratio_def takeWhile_digits scale_def)

lemma parse_ratio_frac:
  "list_all is_digit ds \<Longrightarrow> list_all is_digit fs \<Longrightarrow>
    parse_ratio (ds @ CHR ''.'' # fs) = scale 10 (- int (length fs)) (digits_val (ds @ fs), 1)"
  by (simp add: parse_ratio_def takeWhile_digits not_digit)

lemma pad_left_digits:
  assumes "n < 10 ^ k" and "0 < k"
  shows "list_all is_digit (pad_left k (show_nat n))" "length (pad_left k (show_nat n)) = k"
    "digits_val (pad_left k (show_nat n)) = n"
proof -
  show "list_all is_digit (pad_left k (show_nat n))"
    using show_nat_digits [of n] by (auto simp: pad_left_def list_all_iff is_digit_def)
  show "length (pad_left k (show_nat n)) = k"
    using show_nat_length [OF assms] by (simp add: pad_left_def)
  show "digits_val (pad_left k (show_nat n)) = n"
    using show_nat_digits [of n] by (simp add: pad_left_def digits_val_append digits_val_zeros)
qed

text \<open>The two shapes of a decimal's text.\<close>

lemma decimal_text_cases:
  obtains (int) "0 \<le> x" "decimal_text (d, x) = show_nat (d * 10 ^ nat x)"
  | (frac) fs where "x < 0" "decimal_text (d, x) = show_nat (d div 10 ^ nat (- x)) @ CHR ''.'' # fs"
      "list_all is_digit fs" "length fs = nat (- x)" "fs \<noteq> []" "digits_val fs = d mod 10 ^ nat (- x)"
proof (cases "0 \<le> x")
  case True
  then show ?thesis by (intro int) (simp_all add: decimal_text_def)
next
  case False
  let ?k = "nat (- x)"
  have "d mod 10 ^ ?k < 10 ^ ?k" "0 < ?k" using False by simp_all
  note pad = pad_left_digits [OF this]
  show ?thesis
    using False pad by (intro frac [of "pad_left ?k (show_nat (d mod 10 ^ ?k))"])
      (auto simp: decimal_text_def)
qed

lemma parse_decimal_text: "parse_ratio (decimal_text (d, x)) = scale 10 x (d, 1)"
proof (cases rule: decimal_text_cases [of x d])
  case int
  then show ?thesis
    using show_nat_digits [of "d * 10 ^ nat x"] by (simp add: parse_ratio_int scale_def)
next
  case (frac fs)
  then show ?thesis
    using show_nat_digits [of "d div 10 ^ nat (- x)"]
    by (simp add: parse_ratio_frac digits_val_append div_mult_mod_eq)
qed

lemma decimal_text_head: "\<exists>c cs. decimal_text (d, x) = c # cs \<and> is_digit c"
proof (cases rule: decimal_text_cases [of x d])
  case int
  then show ?thesis by (metis show_nat_cons)
next
  case (frac fs)
  then show ?thesis by (metis append_Cons show_nat_cons)
qed

lemma parseFloat_sign:
  "is_digit c \<Longrightarrow> parseFloat ((if neg then ''-'' else []) @ c # cs) =
    map_option (\<lambda>(m, e). Fin neg m e) (round64 (parse_ratio (c # cs)))"
  using not_digit(2,3) by (auto simp: parseFloat_def Let_def)

theorem parse_format:
  assumes "fin_ok m e"
  shows "parseFloat (formatFloat (Fin neg m e)) = Some (Fin neg m e)"
proof (cases "m = 0")
  case True
  with assms have "e = - 1074" by (simp add: fin_ok_def)
  moreover have "parse_ratio ''0'' = (0, 1)"
    by (subst parse_ratio_int) (simp_all add: is_digit_def digits_val_def digit_val_def)
  ultimately show ?thesis
    using True parseFloat_sign [of "CHR ''0''" neg "[]"] by (simp add: is_digit_def round64_def)
next
  case False
  obtain d x where dx: "shortest_from m e 1 = (d, x)" by (cases "shortest_from m e 1")
  obtain c cs where c: "decimal_text (d, x) = c # cs" "is_digit c"
    using decimal_text_head by blast
  have "round64 (parse_ratio (c # cs)) = Some (m, e)"
    unfolding c(1) [symmetric] parse_decimal_text
    using shortest_reads_back [OF assms _ dx] False by simp
  then show ?thesis using False dx c parseFloat_sign [OF c(2), of neg cs] by simp
qed

end
