(* ===== verification/TreeText.thy ===== *)
theory TreeText
  imports TreeSpec GoFloat
begin

text \<open>
  The tree as text: \<open>appendTree\<close> and \<open>parseTree\<close> of \<open>internal/db/tree.go\<close>, the
  canonical text of numbers, and the choice between a scalar and a container in
  \<open>internal/db/db.go\<close>. The JSON parser is the library gjson; what it makes of a text is
  the parameter \<open>gparse\<close>.
\<close>

subsection \<open>Serialization\<close>

primrec tree_text :: "node \<Rightarrow> bytes" where
  "tree_text (Leaf t) = t"
| "tree_text (Obj ob) =
     ''{'' @ join '','' (map (\<lambda>(k, raw, t). raw @ '':'' @ t) (obj_entries (map_treeObj tree_text ob))) @ ''}''"
| "tree_text (Arr c) = ''['' @ join '','' (map tree_text c) @ '']''"
| "tree_text Nil = ''null''"

definition appendTree :: "bytes \<Rightarrow> node \<Rightarrow> bytes" where
  "appendTree b n = b @ tree_text n"

subsection \<open>Numbers\<close>

text \<open>
  The three scans of \<open>canonicalNumberText\<close>. Each returns what is left of the text, the
  last two also whether their part was there; \<open>None\<close> is the early return.
\<close>

definition scan_int :: "bytes \<Rightarrow> bytes option" where
  "scan_int s =
     (case s of
        [] \<Rightarrow> None
      | d # ds \<Rightarrow>
          if \<not> is_digit d then None
          else if d = CHR ''0'' then Some ds else Some (dropWhile is_digit s))"

definition scan_frac :: "bytes \<Rightarrow> (bool \<times> bytes) option" where
  "scan_frac s =
     (case s of
        [] \<Rightarrow> Some (False, [])
      | c # t \<Rightarrow>
          if c \<noteq> CHR ''.'' then Some (False, s)
          else if takeWhile is_digit t = [] then None else Some (True, dropWhile is_digit t))"

definition scan_exp :: "bytes \<Rightarrow> (bool \<times> bytes) option" where
  "scan_exp s =
     (case s of
        [] \<Rightarrow> Some (False, [])
      | c # t \<Rightarrow>
          if c \<noteq> CHR ''e'' \<and> c \<noteq> CHR ''E'' then Some (False, s)
          else (let u = (case t of x # xs \<Rightarrow> if x = CHR ''+'' \<or> x = CHR ''-'' then xs else t | [] \<Rightarrow> []) in
            if takeWhile is_digit u = [] then None else Some (True, dropWhile is_digit u)))"

definition canonicalNumberText :: "bytes \<Rightarrow> bytes option" where
  "canonicalNumberText raw =
     (case raw of
        [] \<Rightarrow> None
      | c # cs \<Rightarrow>
          if c = dquote then None
          else
            (case scan_int (if c = CHR ''-'' then cs else raw) of
               None \<Rightarrow> None
             | Some r1 \<Rightarrow>
                 (case scan_frac r1 of
                    None \<Rightarrow> None
                  | Some (hasFrac, r2) \<Rightarrow>
                      (case scan_exp r2 of
                         None \<Rightarrow> None
                       | Some (hasExp, r3) \<Rightarrow>
                           if r3 \<noteq> [] then None
                           else if \<not> hasFrac \<and> \<not> hasExp then Some raw
                           else map_option formatFloat (parseFloat raw)))))"

subsection \<open>Parsing\<close>

text \<open>
  What gjson reports of a value: an object with its entries in order, each key decoded and
  as its raw text; an array with its elements; or any other value by its raw text.
\<close>

datatype gresult =
    GObject "(bytes \<times> bytes \<times> gresult) list"
  | GArray "gresult list"
  | GOther bytes

primrec parseTree :: "gresult \<Rightarrow> node" where
  "parseTree (GObject kvs) =
     Obj (foldl (\<lambda>ob (k, raw, v). obj_set k raw v ob) newTreeObj
       (map (map_prod id (map_prod id parseTree)) kvs))"
| "parseTree (GArray vs) = Arr (map parseTree vs)"
| "parseTree (GOther raw) =
     Leaf (case canonicalNumberText raw of Some c \<Rightarrow> c | None \<Rightarrow> raw)"

definition parseTreeRaw :: "(bytes \<Rightarrow> gresult) \<Rightarrow> bytes \<Rightarrow> node" where
  "parseTreeRaw gparse raw = parseTree (gparse raw)"

fun isJSONScalar :: "bytes \<Rightarrow> bool" where
  "isJSONScalar [] = False"
| "isJSONScalar (c # cs) =
     (if c = CHR '' '' \<or> c = CHR 0x09 \<or> c = nl \<or> c = CHR 0x0D then isJSONScalar cs
      else c \<noteq> CHR ''{'' \<and> c \<noteq> CHR ''['')"

definition nodeFromRaw :: "(bytes \<Rightarrow> gresult) \<Rightarrow> bytes \<Rightarrow> node" where
  "nodeFromRaw gparse raw =
     (if isJSONScalar raw then
        (case canonicalNumberText raw of Some c \<Rightarrow> Leaf c | None \<Rightarrow> Leaf raw)
      else parseTreeRaw gparse raw)"

definition plain_byte :: "char \<Rightarrow> bool" where
  "plain_byte c \<longleftrightarrow>
     \<not> (c = backslash \<or> c = dquote \<or> (of_char c :: nat) < 0x20 \<or> 0x7F < (of_char c :: nat))"

definition canonicalScalar :: "bytes \<Rightarrow> bytes option" where
  "canonicalScalar raw =
     (if raw = ''true'' \<or> raw = ''false'' \<or> raw = ''null'' then Some raw
      else if length raw < 2 \<or> hd raw \<noteq> dquote \<or> last raw \<noteq> dquote then None
      else if list_all plain_byte (butlast (tl raw)) then Some raw else None)"

subsection \<open>The canonical text of a number is a fixed point\<close>

lemma canonical_of_int:
  fixes neg :: bool
  assumes "list_all is_digit ds" and "ds \<noteq> []" and "hd ds = CHR ''0'' \<Longrightarrow> tl ds = []"
  defines "raw \<equiv> (if neg then ''-'' else []) @ ds"
  shows "canonicalNumberText raw = Some raw"
proof -
  obtain c cs where ds: "ds = c # cs" using assms(2) by (cases ds) auto
  with assms(1) have c: "is_digit c" "list_all is_digit cs" by auto
  then have neq: "c \<noteq> dquote" "c \<noteq> CHR ''-''" using not_digit by auto
  have "scan_int ds = Some []"
    using ds c assms(3) takeWhile_digits(1) [OF assms(1)] by (simp add: scan_int_def)
  then show ?thesis
    unfolding raw_def ds using neq
    by (cases neg) (simp_all add: canonicalNumberText_def scan_frac_def scan_exp_def)
qed

lemma canonical_of_frac:
  fixes neg :: bool
  assumes "list_all is_digit ds" and "ds \<noteq> []" and "hd ds = CHR ''0'' \<Longrightarrow> tl ds = []"
    and "list_all is_digit fs" and "fs \<noteq> []"
  defines "raw \<equiv> (if neg then ''-'' else []) @ ds @ CHR ''.'' # fs"
  shows "canonicalNumberText raw = map_option formatFloat (parseFloat raw)"
proof -
  obtain c cs where ds: "ds = c # cs" using assms(2) by (cases ds) auto
  with assms(1) have c: "is_digit c" "list_all is_digit cs" by auto
  then have neq: "c \<noteq> dquote" "c \<noteq> CHR ''-''" using not_digit by auto
  have "scan_int (ds @ CHR ''.'' # fs) = Some (CHR ''.'' # fs)"
    using ds c assms(3) takeWhile_digits(2) [OF assms(1) not_digit(1), of fs]
    by (simp add: scan_int_def)
  moreover have "scan_frac (CHR ''.'' # fs) = Some (True, [])"
    unfolding scan_frac_def using takeWhile_digits(1) [OF assms(4)] assms(5)
    by (simp del: takeWhile_eq_all_conv)
  ultimately show ?thesis
    unfolding raw_def ds using neq
    by (cases neg) (simp_all add: canonicalNumberText_def scan_exp_def)
qed

lemma show_nat_no_zeros: "hd (show_nat n) = CHR ''0'' \<Longrightarrow> tl (show_nat n) = []"
  using show_nat_leading [of n] by (cases "n = 0") (auto simp: show_nat.simps [of 0])

lemma canonical_format:
  assumes "fin_ok m e"
  shows "canonicalNumberText (formatFloat (Fin neg m e)) = Some (formatFloat (Fin neg m e))"
proof (cases "m = 0")
  case True
  then show ?thesis
    using canonical_of_int [of "''0''" neg] by (simp add: is_digit_def)
next
  case False
  obtain d x where dx: "shortest_from m e 1 = (d, x)" by (cases "shortest_from m e 1")
  have form: "formatFloat (Fin neg m e) = (if neg then ''-'' else []) @ decimal_text (d, x)"
    using False dx by simp
  show ?thesis
  proof (cases rule: decimal_text_cases [of x d])
    case int
    then show ?thesis
      unfolding form int(2)
      by (intro canonical_of_int) (simp_all add: show_nat_digits show_nat_no_zeros)
  next
    case (frac fs)
    have "canonicalNumberText (formatFloat (Fin neg m e)) =
        map_option formatFloat (parseFloat (formatFloat (Fin neg m e)))"
      unfolding form frac(2) using frac
      by (intro canonical_of_frac) (simp_all add: show_nat_digits show_nat_no_zeros)
    then show ?thesis unfolding parse_format [OF assms] by simp
  qed
qed

lemma parse_ratio_pos: "0 < snd (parse_ratio t)"
  by (simp add: parse_ratio_def Let_def)

lemma parseFloat_fin:
  assumes "parseFloat s = Some f"
  obtains neg m e where "f = Fin neg m e" "fin_ok m e"
  using assms round64_ok [OF parse_ratio_pos] by (auto simp: parseFloat_def Let_def)

lemma canonical_result:
  assumes "canonicalNumberText raw = Some c"
  shows "c = raw \<or> (\<exists>f. parseFloat raw = Some f \<and> c = formatFloat f)"
  using assms by (auto simp: canonicalNumberText_def split: list.splits option.splits if_splits)

lemma canonical_fixed:
  assumes "canonicalNumberText raw = Some c"
  shows "canonicalNumberText c = Some c"
  using canonical_result [OF assms]
proof
  assume "c = raw"
  with assms show ?thesis by simp
next
  assume "\<exists>f. parseFloat raw = Some f \<and> c = formatFloat f"
  then obtain f where "parseFloat raw = Some f" "c = formatFloat f" by blast
  then show ?thesis using canonical_format by (metis parseFloat_fin)
qed

lemma canonical_value:
  assumes "canonicalNumberText raw = Some c"
  shows "c = raw \<or> parseFloat c = parseFloat raw \<and> parseFloat raw \<noteq> None"
  using canonical_result [OF assms]
proof (elim disjE exE conjE)
  fix f
  assume f: "parseFloat raw = Some f" "c = formatFloat f"
  from parseFloat_fin [OF f(1)] obtain neg m e where "f = Fin neg m e" "fin_ok m e" .
  with f parse_format have "parseFloat c = parseFloat raw" by simp
  with f(1) show ?thesis by simp
qed simp

text \<open>An integer keeps its digits, however many: nothing is rounded.\<close>

lemma canonical_integer:
  "(\<exists>neg n. raw = (if neg then ''-'' else []) @ show_nat n) \<Longrightarrow> canonicalNumberText raw = Some raw"
  using canonical_of_int show_nat_digits show_nat_no_zeros by blast

subsection \<open>Text of the abstract document\<close>

primrec doc_text :: "doc \<Rightarrow> bytes" where
  "doc_text (DLeaf t) = t"
| "doc_text (DObj es) =
     ''{'' @ join '','' (map (\<lambda>(k, raw, t). raw @ '':'' @ t) (map (map_prod id (map_prod id doc_text)) es)) @ ''}''"
| "doc_text (DArr c) = ''['' @ join '','' (map doc_text c) @ '']''"

lemma entries_map_treeObj:
  "obj_entries (map_treeObj f ob) = map (map_prod id (map_prod id f)) (obj_entries ob)"
  by (simp add: obj_entries_def sel_map_treeObj zip_map2 map_prod_def split_beta comp_def)

lemma entries_vals: "e \<in> set (obj_entries ob) \<Longrightarrow> snd (snd e) \<in> set_treeObj ob"
  by (cases ob; cases e) (auto simp: obj_entries_def dest!: set_zip_rightD)

theorem tree_text_doc: "tree_text n = doc_text (abs_node n)"
proof (induction n)
  case (Obj ob)
  have "map (map_prod id (map_prod id tree_text)) (obj_entries ob) =
      map (map_prod id (map_prod id doc_text)) (map (map_prod id (map_prod id abs_node)) (obj_entries ob))"
    using Obj entries_vals by (fastforce simp: map_prod_def split_beta)
  then show ?case
    unfolding tree_text.simps doc_text.simps abs_node.simps entries_map_treeObj by (simp only:)
next
  case (Arr c)
  then have "map tree_text c = map doc_text (map abs_node c)" by simp
  then show ?case by (simp only: tree_text.simps doc_text.simps abs_node.simps)
qed simp_all

text \<open>What a JSON parser reports of the text of a document.\<close>

primrec doc_view :: "doc \<Rightarrow> gresult" where
  "doc_view (DLeaf t) = GOther t"
| "doc_view (DObj es) = GObject (map (map_prod id (map_prod id doc_view)) es)"
| "doc_view (DArr c) = GArray (map doc_view c)"

subsection \<open>Documents that hold canonical text\<close>

definition leaf_ok :: "bytes \<Rightarrow> bool" where
  "leaf_ok t \<longleftrightarrow> (case canonicalNumberText t of None \<Rightarrow> True | Some c \<Rightarrow> c = t)"

inductive doc_ok :: "doc \<Rightarrow> bool" where
  "leaf_ok t \<Longrightarrow> doc_ok (DLeaf t)"
| "distinct (map fst es) \<Longrightarrow> (\<And>e. e \<in> set es \<Longrightarrow> doc_ok (snd (snd e))) \<Longrightarrow> doc_ok (DObj es)"
| "(\<And>d. d \<in> set c \<Longrightarrow> doc_ok d) \<Longrightarrow> doc_ok (DArr c)"

inductive_simps doc_ok_simps [simp]: "doc_ok (DLeaf t)" "doc_ok (DObj es)" "doc_ok (DArr c)"

lemma leaf_ok_canonical: "canonicalNumberText raw = Some c \<Longrightarrow> leaf_ok c"
  by (simp add: leaf_ok_def canonical_fixed)

lemma leaf_ok_other: "canonicalNumberText raw = None \<Longrightarrow> leaf_ok raw"
  by (simp add: leaf_ok_def)

lemma canonical_null: "canonicalNumberText ''null'' = None"
  by (simp add: canonicalNumberText_def scan_int_def is_digit_def)

lemma doc_ok_null [simp]: "leaf_ok ''null''"
  by (rule leaf_ok_other [OF canonical_null])

text \<open>The loop over the entries of an object rebuilds it entry by entry.\<close>

abbreviation fill :: "'v treeObj \<Rightarrow> (bytes \<times> bytes \<times> 'v) list \<Rightarrow> 'v treeObj" where
  "fill \<equiv> foldl (\<lambda>ob (k, raw, v). obj_set k raw v ob)"

lemma wf_fill: "wf_obj ob \<Longrightarrow> wf_obj (fill ob es)"
  by (induction es arbitrary: ob) (auto simp: wf_obj_set)

lemma entries_fill:
  "wf_obj ob \<Longrightarrow> distinct (map fst es) \<Longrightarrow> fst ` set (obj_entries ob) \<inter> fst ` set es = {} \<Longrightarrow>
    obj_entries (fill ob es) = obj_entries ob @ es"
proof (induction es arbitrary: ob)
  case Nil
  then show ?case by simp
next
  case (Cons e es)
  obtain k raw v where e: "e = (k, raw, v)" by (cases e) auto
  have "k \<notin> fst ` set (obj_entries ob)" using Cons.prems(3) e by auto
  then have set: "obj_entries (obj_set k raw v ob) = obj_entries ob @ [e]"
    using Cons.prems(1) e by (simp add: entries_set_obj put_entry_def)
  then have "obj_entries (fill (obj_set k raw v ob) es) = (obj_entries ob @ [e]) @ es"
    using Cons.prems e by (subst Cons.IH) (auto simp: wf_obj_set)
  then show ?case using e by simp
qed

lemma vals_fill: "set (vals (fill ob es)) \<subseteq> set (vals ob) \<union> (snd \<circ> snd) ` set es"
proof (induction es arbitrary: ob)
  case Nil
  then show ?case by simp
next
  case (Cons e es)
  obtain k raw v where e: "e = (k, raw, v)" by (cases e) auto
  have "set (vals (obj_set k raw v ob)) \<subseteq> insert v (set (vals ob))"
    by (auto simp: obj_set_def dest: set_update_subset_insert [THEN subsetD] split: option.splits)
  then show ?case using Cons.IH [of "obj_set k raw v ob"] e by auto
qed

lemma vals_new [simp]: "vals newTreeObj = []"
  by (simp add: newTreeObj_def)

lemma fill_all:
  assumes "\<And>x. x \<in> (snd \<circ> snd) ` set es \<Longrightarrow> P x"
  shows "\<forall>x \<in> set (vals (fill newTreeObj es)). P x"
proof
  fix x
  assume "x \<in> set (vals (fill newTreeObj es))"
  then have "x \<in> (snd \<circ> snd) ` set es"
    using vals_fill [of newTreeObj es] by (simp del: image_comp comp_apply) (rule subsetD)
  then show "P x" by (rule assms)
qed

lemma wf_parseTree: "wf_node (parseTree g)"
proof (induction g)
  case (GObject kvs)
  have "wf_node x" if "x \<in> (snd \<circ> snd) ` set (map (map_prod id (map_prod id parseTree)) kvs)" for x
    using that GObject by (force simp: snds.simps)
  then have "\<forall>x \<in> set (vals (fill newTreeObj (map (map_prod id (map_prod id parseTree)) kvs))). wf_node x"
    by (rule fill_all)
  then show ?case by (simp add: wf_fill wf_newTreeObj)
qed (auto split: option.split)

lemma vals_entries: "wf_obj ob \<Longrightarrow> (snd \<circ> snd) ` set (obj_entries ob) = set (vals ob)"
proof -
  assume wf: "wf_obj ob"
  have "map (snd \<circ> snd) (obj_entries ob) = vals ob"
    unfolding obj_entries_def by (simp add: wf_lengths [OF wf] flip: map_map)
  then show ?thesis by (metis list.set_map)
qed

lemma doc_ok_Obj:
  "wf_obj ob \<Longrightarrow> doc_ok (abs_node (Obj ob)) \<longleftrightarrow> (\<forall>x \<in> set (vals ob). doc_ok (abs_node x))"
proof -
  assume wf: "wf_obj ob"
  have "map fst (abs_entries ob) = keys ob"
    by (simp add: entries_map_treeObj comp_def flip: map_fst_entries [OF wf])
  moreover have "(\<forall>e \<in> set (abs_entries ob). doc_ok (snd (snd e))) \<longleftrightarrow>
      (\<forall>x \<in> (snd \<circ> snd) ` set (obj_entries ob). doc_ok (abs_node x))"
    by (simp add: entries_map_treeObj)
  moreover have "doc_ok (DObj es) \<longleftrightarrow> distinct (map fst es) \<and> (\<forall>e \<in> set es. doc_ok (snd (snd e)))" for es
    by force
  ultimately show ?thesis
    using wf_distinct [OF wf] unfolding vals_entries [OF wf] by (simp del: doc_ok_simps)
qed

lemma doc_ok_parseTree: "doc_ok (abs_node (parseTree g))"
proof (induction g)
  case (GObject kvs)
  have "doc_ok (abs_node x)" if "x \<in> (snd \<circ> snd) ` set (map (map_prod id (map_prod id parseTree)) kvs)" for x
    using that GObject by (force simp: snds.simps)
  then have "\<forall>x \<in> set (vals (fill newTreeObj (map (map_prod id (map_prod id parseTree)) kvs))).
      doc_ok (abs_node x)"
    by (rule fill_all)
  then show ?case
    unfolding parseTree.simps by (subst doc_ok_Obj) (simp_all add: wf_fill wf_newTreeObj)
next
  case (GOther raw)
  then show ?case
    by (auto simp: leaf_ok_canonical leaf_ok_other split: option.split)
qed auto

text \<open>Parsing what the text of such a document is read as gives the document back.\<close>

theorem parse_doc_view: "doc_ok d \<Longrightarrow> abs_node (parseTree (doc_view d)) = d"
proof (induction d)
  case (DLeaf t)
  then show ?case by (auto simp: leaf_ok_def split: option.splits)
next
  case (DObj es)
  let ?g = "map (map_prod id (map_prod id parseTree)) (map (map_prod id (map_prod id doc_view)) es)"
  have "distinct (map fst ?g)" using DObj.prems by (simp add: comp_def)
  then have "obj_entries (fill newTreeObj ?g) = ?g"
    by (subst entries_fill) (simp_all add: wf_newTreeObj obj_entries_new)
  moreover have "map (map_prod id (map_prod id abs_node)) ?g = es"
    using DObj by (auto intro!: map_idI simp: snds.simps map_prod_def split_beta)
  ultimately show ?case by (simp add: entries_map_treeObj)
next
  case (DArr c)
  then show ?case by (simp add: map_idI)
qed

end
