(* ===== verification/TreeValues.thy ===== *)
theory TreeValues
  imports TreeText
begin

text \<open>
  What a stored value is: the document operations keep every leaf canonical and every object
  free of duplicate keys, and the text written for a value reads back as that value.
\<close>

subsection \<open>Operations keep the document canonical\<close>

lemma fst_put_entry: "fst ` set (put_entry q k v es) = insert k (fst ` set es)"
  by (force simp: put_entry_def image_iff)

lemma distinct_put_entry:
  "distinct (map fst es) \<Longrightarrow> distinct (map fst (put_entry q k v es))"
  by (auto simp: put_entry_def comp_def split_beta)

lemma in_put_entry:
  "e \<in> set (put_entry q k v es) \<Longrightarrow> snd (snd e) = v \<or> e \<in> set es"
  by (auto simp: put_entry_def split: if_splits)

lemma doc_ok_put:
  "distinct (map fst es) \<Longrightarrow> \<forall>e \<in> set es. doc_ok (snd (snd e)) \<Longrightarrow> doc_ok v \<Longrightarrow>
    doc_ok (DObj (put_entry q k v es))"
  by (rule doc_ok.intros(2)) (metis distinct_put_entry, metis in_put_entry)

lemma doc_ok_entries:
  "doc_ok d \<Longrightarrow> distinct (map fst (doc_entries d)) \<and> (\<forall>e \<in> set (doc_entries d). doc_ok (snd (snd e)))"
  by (cases d) auto

lemma entry_in: "entry s es = Some x \<Longrightarrow> \<exists>e \<in> set es. snd (snd e) = x"
  by (force simp: entry_def dest: map_of_SomeD)

lemma doc_ok_old_value: "doc_ok d \<Longrightarrow> doc_ok (old_value (entry s (doc_entries d)))"
  using doc_ok_entries [of d] entry_in [of s "doc_entries d"]
  by (auto simp: old_value_def split: option.split)

lemma doc_ok_pad: "doc_ok (DArr c) \<Longrightarrow> doc_ok (DArr (pad_to DNull i c))"
  using set_pad_to [of DNull i c] by auto

lemma doc_ok_update: "doc_ok (DArr c) \<Longrightarrow> doc_ok x \<Longrightarrow> doc_ok (DArr (c[i := x]))"
  using set_update_subset_insert [of c i x] by auto

lemma doc_ok_nth: "doc_ok (DArr c) \<Longrightarrow> i < length c \<Longrightarrow> doc_ok (c ! i)"
  by auto

lemma doc_ok_set:
  "doc_ok d \<Longrightarrow> doc_ok v \<Longrightarrow> spec_set d segs v = Inr d' \<Longrightarrow> doc_ok d'"
proof (induction segs arbitrary: d d')
  case Nil
  then show ?case by simp
next
  case (Cons s ss)
  have obj: "doc_ok d'"
    if "map_sum id (\<lambda>x. DObj (put_entry stringifyJSON s x (doc_entries d)))
          (spec_set (old_value (entry s (doc_entries d))) ss v) = Inr d'"
    using that Cons.IH [OF doc_ok_old_value [OF Cons.prems(1)] Cons.prems(2)]
      doc_ok_entries [OF Cons.prems(1)] doc_ok_put
    by (auto simp: map_sum_Inr simp del: doc_ok_simps)
  show ?case
  proof (cases d)
    case (DArr c)
    show ?thesis
    proof (cases "s = ''-1''")
      case True
      have "doc_ok DNull" by simp
      with Cons.IH [OF this Cons.prems(2)] Cons.prems(1,3) True DArr show ?thesis
        by (auto simp: map_sum_Inr)
    next
      case False
      let ?c = "pad_to DNull (nat (the (atoi s))) c"
      have ok: "doc_ok (DArr ?c)" using Cons.prems(1) DArr doc_ok_pad by simp
      then have "doc_ok (?c ! nat (the (atoi s)))"
        by (rule doc_ok_nth) (simp add: length_pad_to)
      from Cons.IH [OF this Cons.prems(2)] Cons.prems(3) False DArr ok doc_ok_update show ?thesis
        by (auto simp: map_sum_Inr Let_def simp del: doc_ok_simps split: if_splits)
    qed
  qed (use obj Cons.prems(3) in simp_all)
qed

lemma spec_step_ok: "doc_ok d \<Longrightarrow> spec_step d s = Some x \<Longrightarrow> doc_ok x"
  using doc_ok_entries [of d] entry_in [of s "doc_entries d"]
  by (cases d) (auto simp: spec_step_def element_def split: option.splits if_splits)

lemma spec_get_ok: "doc_ok d \<Longrightarrow> spec_get d segs = Some x \<Longrightarrow> doc_ok x"
  by (induction segs arbitrary: d) (auto dest: spec_step_ok split: bind_splits)

lemma doc_ok_filter: "doc_ok (DObj es) \<Longrightarrow> doc_ok (DObj (filter P es))"
  by (auto simp: distinct_map_filter)

lemma doc_ok_remove: "doc_ok (DArr c) \<Longrightarrow> doc_ok (DArr (remove_at i c))"
  using set_remove_at [of i c] by auto

lemma doc_ok_del: "doc_ok d \<Longrightarrow> doc_ok (spec_del d segs)"
proof (induction segs arbitrary: d)
  case Nil
  then show ?case by simp
next
  case (Cons s ss)
  show ?case
  proof (cases "spec_step d s")
    case None
    with Cons.prems show ?thesis by simp
  next
    case (Some x)
    have x: "doc_ok (spec_del x ss)" using Cons.IH spec_step_ok [OF Cons.prems Some] .
    have es: "doc_ok (DObj (doc_entries d))"
      using doc_ok_entries [OF Cons.prems] by (intro doc_ok.intros(2)) blast+
    have obj: "doc_ok (DObj (if ss = [] then filter (\<lambda>e. fst e \<noteq> s) (doc_entries d)
        else put_entry stringifyJSON s (spec_del x ss) (doc_entries d)))"
      using doc_ok_filter [OF es] doc_ok_put doc_ok_entries [OF Cons.prems] x by presburger
    show ?thesis
    proof (cases d)
      case (DArr c)
      with Some Cons.prems x show ?thesis
        by (auto simp: Let_def doc_ok_update doc_ok_remove simp del: doc_ok_simps)
    next
      case (DLeaf t)
      from Some obj show ?thesis unfolding DLeaf by (simp del: doc_ok_simps)
    next
      case (DObj es)
      from Some obj show ?thesis unfolding DObj by (simp del: doc_ok_simps)
    qed
  qed
qed

subsection \<open>Stored nodes\<close>

definition node_ok :: "node \<Rightarrow> bool" where
  "node_ok n \<longleftrightarrow> wf_node n \<and> doc_ok (abs_node n)"

lemma node_ok_new: "node_ok (Obj newTreeObj)"
  unfolding node_ok_def abs_new using wf_new by (simp del: wf_node_simps)

lemma node_ok_parse: "node_ok (parseTree g)"
  by (simp add: node_ok_def wf_parseTree doc_ok_parseTree)

lemma node_ok_leaf: "node_ok (Leaf t) \<longleftrightarrow> leaf_ok t"
  by (simp add: node_ok_def)

lemma node_ok_raw: "node_ok (nodeFromRaw gparse raw)"
  by (auto simp: nodeFromRaw_def parseTreeRaw_def node_ok_parse node_ok_leaf leaf_ok_canonical
      leaf_ok_other split: option.split)

lemma node_ok_set:
  "node_ok n \<Longrightarrow> node_ok v \<Longrightarrow> segs \<noteq> [] \<Longrightarrow> treeSet n segs v = Inr n' \<Longrightarrow> node_ok n'"
  using abs_treeSet [of segs n v] wf_treeSet [of n v segs n'] doc_ok_set [of "abs_node n" "abs_node v" segs]
  by (auto simp: node_ok_def)

lemma node_ok_del: "node_ok n \<Longrightarrow> segs \<noteq> [] \<Longrightarrow> treeDel n segs = Some n' \<Longrightarrow> node_ok n'"
  using abs_treeDel [of segs n] wf_treeDel [of n segs n'] doc_ok_del [of "abs_node n" segs]
  by (auto simp: node_ok_def)

lemma node_ok_lookup: "node_ok n \<Longrightarrow> treeLookup n segs = Some m \<Longrightarrow> node_ok m"
  using abs_treeLookup [of n segs] wf_treeLookup [of n segs m] spec_get_ok [of "abs_node n" segs]
  by (auto simp: node_ok_def)

subsection \<open>The text of a value reads back\<close>

text \<open>
  What is asked of the parser: the text of this document is reported as the document's own
  structure. It is asked of containers only; scalars are not parsed.
\<close>

definition reads_back :: "(bytes \<Rightarrow> gresult) \<Rightarrow> doc \<Rightarrow> bool" where
  "reads_back gparse d \<longleftrightarrow>
     (case d of DLeaf t \<Rightarrow> isJSONScalar t | _ \<Rightarrow> gparse (doc_text d) = doc_view d)"

lemma not_scalar: "isJSONScalar (''{'' @ s) = False" "isJSONScalar (''['' @ s) = False"
  by simp_all

lemma nodeFromRaw_text:
  assumes "node_ok n" and "reads_back gparse (abs_node n)"
  shows "abs_node (nodeFromRaw gparse (tree_text n)) = abs_node n"
proof (cases "abs_node n")
  case (DLeaf t)
  with assms show ?thesis
    by (auto simp: node_ok_def reads_back_def tree_text_doc nodeFromRaw_def leaf_ok_def split: option.split)
next
  case (DObj es)
  then have "\<not> isJSONScalar (tree_text n)" by (simp add: tree_text_doc)
  with assms DObj show ?thesis
    using parse_doc_view [of "abs_node n"]
    by (simp add: node_ok_def reads_back_def nodeFromRaw_def parseTreeRaw_def tree_text_doc del: doc_view.simps doc_text.simps)
next
  case (DArr c)
  then have "\<not> isJSONScalar (tree_text n)" by (simp add: tree_text_doc)
  with assms DArr show ?thesis
    using parse_doc_view [of "abs_node n"]
    by (simp add: node_ok_def reads_back_def nodeFromRaw_def parseTreeRaw_def tree_text_doc del: doc_view.simps doc_text.simps)
qed

end
