(* ===== verification/TreeProps.thy ===== *)
theory TreeProps
  imports TreeValues
begin

text \<open>
  The properties of the document: the tree, its paths, its numbers and its text.
\<close>

subsection \<open>A small document for the examples\<close>

text \<open>\<open>{"a":[1,2]}\<close>.\<close>

definition sample_obj :: "node treeObj" where
  "sample_obj = obj_put ''a'' (Arr [Leaf ''1'', Leaf ''2'']) newTreeObj"

abbreviation sample :: node where
  "sample \<equiv> Obj sample_obj"

lemma wf_sample_obj: "wf_obj sample_obj"
  by (simp add: sample_obj_def wf_obj_put wf_newTreeObj)

lemma wf_sample: "wf_node sample"
  unfolding sample_obj_def by (rule wf_put_node [OF wf_new]) simp

lemma get_sample: "obj_get sample_obj k = (if k = ''a'' then Some (Arr [Leaf ''1'', Leaf ''2'']) else None)"
  by (simp add: sample_obj_def wf_newTreeObj)

lemma atoi_small: "atoi ''0'' = Some 0" "atoi ''1'' = Some 1" "atoi ''x'' = None" "atoi ''3'' = Some 3"
  by (simp_all add: atoi_def is_digit_def digits_val_def digit_val_def)

lemma split_sample:
  "splitTreePath ''a.1'' = [''a'', ''1'']" "splitTreePath ''a.x'' = [''a'', ''x'']"
  "splitTreePath ''b'' = [''b'']" "splitTreePath ''a.0'' = [''a'', ''0'']" "splitTreePath ''a'' = [''a'']"
  "splitTreePath ''b.c'' = [''b'', ''c'']"
  by (simp_all add: splitTreePath_def)

lemma set_sample:
  "treeSetPath sample ''a.1'' (Leaf ''9'') = Inr (Obj (obj_put ''a'' (Arr [Leaf ''1'', Leaf ''9'']) sample_obj))"
  by (simp add: treeSetPath_segs split_sample treeSet_eqs obj_child_def get_sample container_or_new_def
      isTreeContainer_def atoi_small pad_to_def)

text \<open>The float nearest to \<open>1.50\<close> and its text.\<close>

lemma parse_sample: "parseFloat ''1.50'' = Some (Fin False (3 * 2 ^ 51) (- 52))"
  by (simp add: parseFloat_def parse_ratio_def scale_def digits_val_def digit_val_def is_digit_def
      round64_def int_log_def ge_power_def num_len.simps Let_def round_div_def)

lemma format_sample: "formatFloat (Fin False (3 * 2 ^ 51) (- 52)) = ''1.5''"
  by (simp add: shortest_from.simps digits_at_def float_ratio_def scale_def round64_def int_log_def
      ge_power_def num_len.simps Let_def round_div_def decimal_text_def show_nat.simps pad_left_def
      digit_char_def) (simp add: char_of_def bit_Suc_0_iff)

lemma canonical_sample: "canonicalNumberText ''1.50'' = Some ''1.5''"
  using parse_sample format_sample
  by (simp add: canonicalNumberText_def scan_int_def scan_frac_def scan_exp_def is_digit_def)

subsection \<open>The tree\<close>

text \<open>C6. The tree implements the abstract document: reading, writing and deleting at a path do
  to the arrays, the hash index and the nested nodes what the list-of-entries document says,
  the errors included.\<close>

theorem tree_implements_document:
  assumes "wf_node n"
  shows "map_option abs_node (treeLookupPath n p) = spec_get (abs_node n) (splitTreePath p) \<and>
    map_sum id abs_node (treeSetPath n p v) = spec_set (abs_node n) (splitTreePath p) (abs_node v) \<and>
    map_option abs_node (treeDelPath n p) = Some (spec_del (abs_node n) (splitTreePath p))"
  unfolding path_segs
  using abs_treeLookup [OF assms] abs_treeSet [OF splitTreePath_nonempty assms]
    abs_treeDel [OF splitTreePath_nonempty assms] by simp

theorem tree_implements_document_witness:
  "map_sum id abs_node (treeSetPath sample ''a.1'' (Leaf ''9'')) =
     spec_set (abs_node sample) (splitTreePath ''a.1'') (DLeaf ''9'')"
  using tree_implements_document [OF wf_sample, of "''a.1''" "Leaf ''9''"] by simp

text \<open>C28. For a path without an escape the walk that cuts the path as it goes, which allocates
  nothing, does what the walk over the split path does, for reads, writes and deletes.\<close>

theorem plain_walk_is_split_walk:
  "treeLookupPlain n path = treeLookup n (split_byte (CHR ''.'') path) \<and>
   treeSetPlain n path v = treeSet n (split_byte (CHR ''.'') path) v \<and>
   Some (treeDelPlain n path) = treeDel n (split_byte (CHR ''.'') path)"
  by (simp add: treeLookupPlain_split treeSetPlain_split treeDelPlain_split)

text \<open>C29. Writes and deletes keep every object of the document well formed: the three arrays in
  step, the hash index exactly their inverse, no key twice.\<close>

theorem operations_keep_tree_wf:
  assumes "wf_node n" and "wf_node v"
  shows "(case treeSetPath n p v of Inl _ \<Rightarrow> True | Inr n' \<Rightarrow> wf_node n') \<and>
    (case treeDelPath n p of None \<Rightarrow> False | Some n' \<Rightarrow> wf_node n')"
  using wf_treeSet [OF assms, of "splitTreePath p"] wf_treeDel [OF assms(1), of "splitTreePath p"]
    abs_treeDel [OF splitTreePath_nonempty assms(1), of p]
  by (auto simp: path_segs split: sum.split option.split)

theorem operations_keep_tree_wf_witness:
  "wf_node (Obj (obj_put ''a'' (Arr [Leaf ''1'', Leaf ''9'']) sample_obj))"
  using operations_keep_tree_wf [OF wf_sample wf_Leaf, of "''a.1''" "''9''"]
  by (simp only: set_sample sum.case)

text \<open>C33. What has been written is read back at the same path, whatever the document was before,
  unless the path appends to an array (a segment \<open>-1\<close>).\<close>

theorem written_value_is_read:
  assumes "wf_node n" and "''-1'' \<notin> set (splitTreePath p)" and "treeSetPath n p v = Inr n'"
  shows "treeLookupPath n' p = Some v"
  using treeSet_get [OF assms(1,2)] assms(3) by (simp add: path_segs)

theorem written_value_is_read_witness:
  "treeLookupPath (Obj (obj_put ''a'' (Arr [Leaf ''1'', Leaf ''9'']) sample_obj)) ''a.1'' = Some (Leaf ''9'')"
  by (rule written_value_is_read [OF wf_sample _ set_sample]) (simp add: split_sample)

text \<open>A write disturbs nothing beside its path: a lookup at a path that parts from it finds
  what it found before; where it found nothing it may now find the padding of an array, or an
  appended element when the path appends.\<close>

theorem write_keeps_the_rest:
  assumes "wf_node n" and "treeSetPath n p v = Inr n'" and "diverge (splitTreePath p) (splitTreePath q)"
  shows "treeLookupPath n' q = treeLookupPath n q \<or>
    treeLookupPath n q = None \<and> (treeLookupPath n' q = Some Nil \<or> ''-1'' \<in> set (splitTreePath p))"
  using treeSet_beside [OF assms(1) _ assms(3)] assms(2) by (simp add: path_segs same_or_padded_def)

theorem write_keeps_the_rest_witness:
  "treeLookupPath (Obj (obj_put ''a'' (Arr [Leaf ''1'', Leaf ''9'']) sample_obj)) ''a.0'' = Some (Leaf ''1'')"
  using write_keeps_the_rest [OF wf_sample set_sample, of "''a.0''"]
  by (simp add: split_sample atoi_small treeLookupPath_segs get_sample treeStep_def)

text \<open>C27. A write fails exactly when the path runs into an array with a segment that is neither
  \<open>-1\<close> nor the decimal text of a non-negative index, and the error names that segment. The
  panic of the code's \<open>segs[0]\<close> cannot happen.\<close>

theorem write_error_iff:
  "treeSetPath n p v = Inl e \<longleftrightarrow>
     (\<exists>s pre post c. e = NonNumericKey s \<and> splitTreePath p = pre @ s # post \<and>
        treeLookup n pre = Some (Arr c) \<and> bad_index s)"
  unfolding treeSetPath_segs treeSet_Inl [OF splitTreePath_nonempty] blocked_at_iff by blast

text \<open>Deleting a key of an object removes that key, everything below it and nothing else.\<close>

theorem delete_key:
  assumes "wf_node n" and "splitTreePath p = pre @ [k]" and "treeLookup n pre = Some (Obj ob)"
  shows "\<exists>n'. treeDelPath n p = Some n' \<and> treeLookup n' pre = Some (Obj (obj_del k ob)) \<and>
    (\<forall>post. treeLookup n' (splitTreePath p @ post) = None) \<and>
    (\<forall>q. diverge pre q \<longrightarrow> treeLookup n' q = treeLookup n q) \<and>
    (\<forall>j. obj_get (obj_del k ob) j = (if j = k then None else obj_get ob j))"
  using treeDel_key [OF assms(1,3), of k] wf_treeLookup [OF assms(1,3)]
  unfolding path_segs assms(2) by auto

theorem delete_key_witness:
  "\<exists>n'. treeDelPath sample ''a'' = Some n' \<and> treeLookup n' [''a''] = None"
proof -
  obtain n' where "treeDelPath sample ''a'' = Some n'"
    "\<And>post. treeLookup n' (splitTreePath ''a'' @ post) = None"
    using delete_key [OF wf_sample, of "''a''" "[]" "''a''" sample_obj] by (auto simp: split_sample)
  then show ?thesis by (metis append_Nil2 split_sample(5))
qed

text \<open>Deleting an element of an array closes the gap: the elements after it move down by one,
  and nothing outside the array changes.\<close>

theorem delete_element:
  assumes "wf_node n" and "splitTreePath p = pre @ [k]" and "treeLookup n pre = Some (Arr c)"
    and "atoi k = Some i" and "0 \<le> i" and "i < int (length c)"
  shows "\<exists>n' c'. treeDelPath n p = Some n' \<and> treeLookup n' pre = Some (Arr c') \<and>
    length c' = length c - 1 \<and>
    (\<forall>j < length c - 1. c' ! j = (if j < nat i then c ! j else c ! Suc j)) \<and>
    (\<forall>q. diverge pre q \<longrightarrow> treeLookup n' q = treeLookup n q)"
proof -
  have i: "nat i < length c" using assms(5,6) by linarith
  obtain n' where "treeDel n (pre @ [k]) = Some n'" "treeLookup n' pre = Some (Arr (remove_at (nat i) c))"
    "\<forall>r. diverge pre r \<longrightarrow> treeLookup n' r = treeLookup n r"
    using treeDel_index [OF assms(1,3-6)] by blast
  with i show ?thesis
    unfolding path_segs assms(2) by (auto simp: nth_remove_at)
qed

theorem delete_element_witness:
  "\<exists>n' c'. treeDelPath sample ''a.0'' = Some n' \<and> treeLookup n' [''a''] = Some (Arr c') \<and> c' ! 0 = Leaf ''2''"
proof -
  have look: "treeLookup sample [''a''] = Some (Arr [Leaf ''1'', Leaf ''2''])" by (simp add: get_sample)
  show ?thesis
    using delete_element [OF wf_sample, of "''a.0''" "[''a'']" "''0''" "[Leaf ''1'', Leaf ''2'']" 0]
      look by (auto simp: split_sample atoi_small)
qed

text \<open>Deleting what is not there changes nothing, not even the order of the keys.\<close>

theorem delete_missing:
  assumes "treeLookupPath n p = None"
  shows "treeDelPath n p = Some n"
  using treeDel_missing [OF splitTreePath_nonempty] assms by (simp add: path_segs)

theorem delete_missing_witness: "treeDelPath sample ''b.c'' = Some sample"
  by (rule delete_missing) (simp add: treeLookupPath_segs split_sample get_sample)

text \<open>An object keeps the order in which its keys were first written: a new key goes to the
  end, with its quoted text; overwriting a key keeps its place and its text; deleting one keeps
  the order of the others.\<close>

theorem object_order:
  assumes "wf_obj ob"
  shows "(if obj_get ob k = None
      then obj_entries (obj_put k v ob) = obj_entries ob @ [(k, stringifyJSON k, v)]
      else map fst (obj_entries (obj_put k v ob)) = map fst (obj_entries ob)) \<and>
    map fst (obj_entries (obj_del k ob)) = filter (\<lambda>j. j \<noteq> k) (map fst (obj_entries ob))"
proof -
  have "obj_get ob k = None \<Longrightarrow> obj_entries (obj_put k v ob) = obj_entries ob @ [(k, stringifyJSON k, v)]"
    using assms by (auto simp: tob.entries_put put_entry_def tob.get_entries map_of_eq_None_iff)
  moreover have "obj_get ob k \<noteq> None \<Longrightarrow> map fst (obj_entries (obj_put k v ob)) = map fst (obj_entries ob)"
    using tob.key_order [OF assms, of k v] by simp
  moreover have "map fst (obj_entries (obj_del k ob)) = filter (\<lambda>j. j \<noteq> k) (map fst (obj_entries ob))"
    by (simp add: tob.entries_del [OF assms] filter_map comp_def)
  ultimately show ?thesis by simp
qed

theorem object_order_witness:
  "map fst (obj_entries (obj_put ''a'' Nil sample_obj)) = map fst (obj_entries sample_obj)"
  using object_order [OF wf_sample_obj, of "''a''" Nil] by (simp add: get_sample)

subsection \<open>Numbers\<close>

text \<open>The canonical text of a number is a fixed point and denotes the same float: a number
  that has been stored once is stored unchanged by every later reload, clone and replay.\<close>

theorem canonical_number_stable:
  assumes "canonicalNumberText raw = Some c"
  shows "canonicalNumberText c = Some c \<and>
    (c = raw \<or> parseFloat c = parseFloat raw \<and> parseFloat raw \<noteq> None)"
  using canonical_fixed [OF assms] canonical_value [OF assms] by simp

theorem canonical_number_stable_witness: "canonicalNumberText ''1.5'' = Some ''1.5''"
  using canonical_number_stable [OF canonical_sample] by (rule conjunct1)

text \<open>An integer of any length is stored digit for digit; nothing rounds it through a
  float.\<close>

theorem integer_text_kept: "canonicalNumberText ((if neg then ''-'' else []) @ show_nat n) = Some ((if neg then ''-'' else []) @ show_nat n)"
  by (rule canonical_integer) blast



subsection \<open>Text\<close>



text \<open>A quoted string holds no control byte, so a key or a string never breaks the line of
  the log it is written on; a string of plain bytes is quoted as it is.\<close>

theorem quoted_string_one_line:
  "list_all (byte_in 0x20 0xFF) (stringifyJSON s) \<and> nl \<notin> set (stringifyJSON s) \<and>
   quoteJSONString s = stringifyJSON s"
  by (intro conjI stringifyJSON_no_control stringifyJSON_no_newline quoteJSONString_eq)

end
