(* ===== verification/Lines.thy ===== *)
theory Lines
  imports TreeValues
begin

text \<open>
  The log is read line by line, and so a newline inside a key or a value would be read as the end
  of a record. Facts that no text of the document holds one, whatever values clients store, and
  that every record that is queued keeps to its own lines.
\<close>

subsection \<open>The texts of a document\<close>

text \<open>All that is copied when a document is written: its leaves and the quoted keys.\<close>

primrec texts :: "doc \<Rightarrow> bytes set" where
  "texts (DLeaf t) = {t}"
| "texts (DObj es) = (\<Union>(k, raw, ts) \<in> set (map (map_prod id (map_prod id texts)) es). insert raw ts)"
| "texts (DArr c) = \<Union> (set (map texts c))"

primrec view_texts :: "gresult \<Rightarrow> bytes set" where
  "view_texts (GOther raw) = {raw}"
| "view_texts (GObject kvs) = (\<Union>(k, raw, ts) \<in> set (map (map_prod id (map_prod id view_texts)) kvs). insert raw ts)"
| "view_texts (GArray vs) = \<Union> (set (map view_texts vs))"

lemma texts_DObj: "texts (DObj es) = (\<Union>e \<in> set es. insert (fst (snd e)) (texts (snd (snd e))))"
  by (force simp: split_beta)

lemma view_texts_GObject:
  "view_texts (GObject kvs) = (\<Union>e \<in> set kvs. insert (fst (snd e)) (view_texts (snd (snd e))))"
  by (force simp: split_beta)

declare texts.simps(2) [simp del]
declare texts_DObj [simp]

lemma texts_entries: "texts (DObj (doc_entries d)) \<subseteq> texts d"
  by (cases d) auto

lemma texts_put:
  "texts (DObj (put_entry q k v es)) \<subseteq> texts (DObj es) \<union> texts v \<union> range q"
  by (auto simp: put_entry_def split: if_splits)

lemma texts_entry: "entry s es = Some x \<Longrightarrow> texts x \<subseteq> texts (DObj es)"
  using entry_in [of s es x] by auto

lemma texts_old: "texts (old_value (entry s (doc_entries d))) \<subseteq> insert ''null'' (texts d)"
  using texts_entry [of s "doc_entries d"] texts_entries [of d]
  by (auto simp: old_value_def simp del: texts_DObj split: option.splits)

lemma texts_step: "spec_step d s = Some x \<Longrightarrow> texts x \<subseteq> texts d"
proof (cases d)
  case (DArr c)
  then show "spec_step d s = Some x \<Longrightarrow> texts x \<subseteq> texts d"
    by (force simp: spec_step_def element_def nat_less_iff split: option.splits if_splits)
qed (use texts_entry [of s "doc_entries d" x] in \<open>auto simp: spec_step_def entry_def simp del: texts_DObj\<close>)

lemma texts_get: "spec_get d segs = Some x \<Longrightarrow> texts x \<subseteq> texts d"
proof (induction segs arbitrary: d)
  case (Cons s ss)
  then obtain y where "spec_step d s = Some y" "spec_get y ss = Some x" by (auto split: bind_splits)
  then show ?case using Cons.IH texts_step by blast
qed simp

lemma texts_pad: "texts (DArr (pad_to DNull i c)) \<subseteq> insert ''null'' (texts (DArr c))"
  using set_pad_to [of DNull i c] by auto

lemma texts_update: "texts (DArr (c[i := x])) \<subseteq> texts (DArr c) \<union> texts x"
  using set_update_subset_insert [of c i x] by auto

text \<open>A write brings in the texts of the value, quoted keys, and the \<open>null\<close> of the padding.\<close>

definition new_texts :: "bytes set" where
  "new_texts = insert ''null'' (range stringifyJSON)"

lemma texts_set: "spec_set d segs v = Inr d' \<Longrightarrow> texts d' \<subseteq> texts d \<union> texts v \<union> new_texts"
proof (induction segs arbitrary: d d')
  case Nil
  then show ?case by auto
next
  case (Cons s ss)
  have obj: "texts d' \<subseteq> texts d \<union> texts v \<union> new_texts"
    if m: "map_sum id (\<lambda>x. DObj (put_entry stringifyJSON s x (doc_entries d)))
          (spec_set (old_value (entry s (doc_entries d))) ss v) = Inr d'"
  proof -
    obtain x where x: "spec_set (old_value (entry s (doc_entries d))) ss v = Inr x"
      "d' = DObj (put_entry stringifyJSON s x (doc_entries d))" using m by (auto simp: map_sum_Inr)
    have "texts d' \<subseteq> texts d \<union> texts x \<union> new_texts"
      using texts_put [of stringifyJSON s x "doc_entries d"] texts_entries [of d]
      unfolding x(2) new_texts_def by blast
    then show ?thesis using Cons.IH [OF x(1)] texts_old [of s d] by (auto simp: new_texts_def)
  qed
  show ?case
  proof (cases d)
    case (DArr c)
    show ?thesis
    proof (cases "s = ''-1''")
      case True
      then obtain x where x: "spec_set DNull ss v = Inr x" "d' = DArr (c @ [x])"
        using Cons.prems DArr by (auto simp: map_sum_Inr)
      then show ?thesis using Cons.IH [OF x(1)] DArr by (auto simp: new_texts_def)
    next
      case False
      let ?i = "nat (the (atoi s))" let ?c = "pad_to DNull ?i c"
      obtain x where x: "spec_set (?c ! ?i) ss v = Inr x" "d' = DArr (?c[?i := x])"
        using Cons.prems DArr False by (auto simp: map_sum_Inr Let_def split: if_splits)
      have "?c ! ?i \<in> set ?c" by (rule nth_mem) (simp add: length_pad_to)
      then have "texts (?c ! ?i) \<subseteq> texts (DArr ?c)" by auto
      then have "texts x \<subseteq> texts (DArr ?c) \<union> texts v \<union> new_texts" using Cons.IH [OF x(1)] by blast
      then show ?thesis
        using texts_update [of ?c ?i x] texts_pad [of ?i c] unfolding x(2) DArr new_texts_def by blast
    qed
  qed (use obj Cons.prems in simp_all)
qed

lemma texts_remove: "texts (DArr (remove_at i c)) \<subseteq> texts (DArr c)"
  using set_remove_at [of i c] by auto

lemma texts_del: "texts (spec_del d segs) \<subseteq> texts d \<union> new_texts"
proof (induction segs arbitrary: d)
  case Nil
  then show ?case by simp
next
  case (Cons s ss)
  show ?case
  proof (cases "spec_step d s")
    case None
    then show ?thesis by simp
  next
    case (Some x)
    let ?x = "spec_del x ss"
    have x: "texts ?x \<subseteq> texts d \<union> new_texts" using Cons.IH [of x] texts_step [OF Some] by blast
    have "texts (DObj (filter (\<lambda>e. fst e \<noteq> s) (doc_entries d))) \<subseteq> texts (DObj (doc_entries d))" by auto
    then have obj: "texts (DObj (if ss = [] then filter (\<lambda>e. fst e \<noteq> s) (doc_entries d)
        else put_entry stringifyJSON s ?x (doc_entries d))) \<subseteq> texts d \<union> new_texts"
      using texts_put [of stringifyJSON s ?x "doc_entries d"] texts_entries [of d] x
      unfolding new_texts_def by (cases "ss = []") (simp_all del: texts_DObj, blast+)
    show ?thesis
    proof (cases d)
      case (DArr c)
      then show ?thesis
        using Some x texts_remove [of "nat (the (atoi s))" c] texts_update [of c "nat (the (atoi s))" ?x]
        by (auto simp: Let_def simp del: texts.simps(3))
    next
      case (DLeaf t)
      from Some obj show ?thesis unfolding DLeaf by (simp del: texts_DObj texts.simps)
    next
      case (DObj es)
      from Some obj show ?thesis unfolding DObj by (simp del: texts_DObj texts.simps)
    qed
  qed
qed

subsection \<open>Line texts\<close>

text \<open>A text without a newline, and a parser that reports pieces of what it was given.\<close>

definition one_line :: "bytes \<Rightarrow> bool" where
  "one_line s \<longleftrightarrow> nl \<notin> set s"

definition lines_of :: "doc \<Rightarrow> bool" where
  "lines_of d \<longleftrightarrow> (\<forall>t \<in> texts d. one_line t)"

definition parser_keeps_lines :: "(bytes \<Rightarrow> gresult) \<Rightarrow> bool" where
  "parser_keeps_lines P \<longleftrightarrow> (\<forall>s. one_line s \<longrightarrow> (\<forall>t \<in> view_texts (P s). one_line t))"

lemma one_line_join: "\<forall>x \<in> set xs. one_line x \<Longrightarrow> one_line sep \<Longrightarrow> one_line (join sep xs)"
  by (induction sep xs rule: join.induct) (auto simp: one_line_def)

lemma one_line_append [simp]: "one_line (s @ t) \<longleftrightarrow> one_line s \<and> one_line t"
  by (auto simp: one_line_def)

lemma one_line_Cons [simp]: "one_line (c # s) \<longleftrightarrow> c \<noteq> nl \<and> one_line s"
  by (auto simp: one_line_def)

lemma one_line_Nil [simp]: "one_line []"
  by (simp add: one_line_def)

lemma doc_text_line: "lines_of d \<Longrightarrow> one_line (doc_text d)"
proof (induction d)
  case (DObj es)
  have "one_line (fst (snd e)) \<and> one_line (doc_text (snd (snd e)))" if e: "e \<in> set es" for e
  proof -
    have sub: "insert (fst (snd e)) (texts (snd (snd e))) \<subseteq> texts (DObj es)" using e by auto
    then have "lines_of (snd (snd e))" using DObj.prems by (auto simp: lines_of_def simp del: texts_DObj)
    then have "one_line (doc_text (snd (snd e)))" using e by (intro DObj.IH) (auto simp: snds.simps prod_set_simps)
    then show ?thesis using sub DObj.prems by (auto simp: lines_of_def simp del: texts_DObj)
  qed
  then show ?case by (auto intro!: one_line_join)
next
  case (DArr c)
  then have "one_line (doc_text x)" if "x \<in> set c" for x using that by (auto simp: lines_of_def)
  then show ?case by (auto intro!: one_line_join)
qed (simp_all add: lines_of_def)

lemma lines_mono: "texts d' \<subseteq> texts d \<Longrightarrow> lines_of d \<Longrightarrow> lines_of d'"
  by (auto simp: lines_of_def)

lemma new_texts_lines: "t \<in> new_texts \<Longrightarrow> one_line t"
  using stringifyJSON_no_newline by (auto simp: new_texts_def one_line_def)

lemma spec_set_lines: "lines_of d \<Longrightarrow> lines_of v \<Longrightarrow> spec_set d segs v = Inr d' \<Longrightarrow> lines_of d'"
  using texts_set [of d segs v d'] new_texts_lines by (auto simp: lines_of_def)

lemma spec_del_lines: "lines_of d \<Longrightarrow> lines_of (spec_del d segs)"
  using texts_del [of d segs] new_texts_lines by (auto simp: lines_of_def)

subsection \<open>Values\<close>

lemma digits_line: "list_all is_digit s \<Longrightarrow> one_line s"
  by (auto simp: one_line_def list_all_iff is_digit_def)

lemma show_nat_line [simp]: "one_line (show_nat n)"
  using show_nat_digits [of n] by (simp add: digits_line)

lemma show_int_line [simp]: "one_line (show_int i)"
  by (simp add: show_int_def)

lemma format_line [simp]: "one_line (formatFloat f)"
proof (cases f)
  case (Fin neg m e)
  obtain d x where dx: "shortest_from m e 1 = (d, x)" by (cases "shortest_from m e 1")
  have "one_line (decimal_text (d, x))"
    by (cases rule: decimal_text_cases [of x d]) (simp_all add: digits_line)
  then show ?thesis using dx by (simp add: Fin)
qed simp_all

text \<open>The text of a number has no byte but digits, signs, a dot and an \<open>e\<close>.\<close>

lemma is_digit_nl [simp]: "\<not> is_digit nl"
  by (simp add: is_digit_def)

lemma dropWhile_line: "one_line (dropWhile is_digit s) \<Longrightarrow> one_line s"
  by (induction s) (auto split: if_splits)

lemma scan_int_line: "scan_int s = Some r \<Longrightarrow> one_line r \<Longrightarrow> one_line s"
  by (cases s) (auto simp: scan_int_def split: if_splits dest: dropWhile_line)

lemma scan_rest: "scan_frac r = Some (False, s) \<Longrightarrow> s = r" "scan_exp r = Some (False, s) \<Longrightarrow> s = r"
  by (auto simp: scan_frac_def scan_exp_def split: list.splits if_splits)

lemma canonical_line: "canonicalNumberText raw = Some c \<Longrightarrow> one_line c"
proof (cases raw)
  case (Cons x xs)
  let ?s = "if x = CHR ''-'' then xs else raw"
  assume "canonicalNumberText raw = Some c"
  then have "(\<exists>f. c = formatFloat f) \<or>
      c = raw \<and> (\<exists>r s. scan_int ?s = Some r \<and> scan_frac r = Some (False, s) \<and> scan_exp s = Some (False, []))"
    using Cons by (simp add: canonicalNumberText_def split: option.splits prod.splits if_splits) blast+
  then show "one_line c"
  proof (elim disjE exE conjE)
    fix r s
    assume c: "c = raw" "scan_int ?s = Some r" "scan_frac r = Some (False, s)" "scan_exp s = Some (False, [])"
    then have "r = []" using scan_rest by force
    then have "one_line ?s" using scan_int_line [OF c(2)] by simp
    then show "one_line c" using Cons c(1) by (auto split: if_splits)
  qed simp
qed (simp add: canonicalNumberText_def)

lemma marshal_string_line [simp]: "one_line (marshal_string s)"
  using escape_json_no_control [of s] by (auto simp: marshal_string_def one_line_def list_all_iff byte_in_def)

lemma stringify_line [simp]: "one_line (stringifyJSON s)"
  using stringifyJSON_no_newline by (simp add: one_line_def)

lemma quote_line [simp]: "one_line (quoteJSONString s)"
  by (simp add: quoteJSONString_eq)

lemma strip_line: "one_line (strip_frac s) \<Longrightarrow> one_line s" "one_line (strip_exp s) \<Longrightarrow> one_line s"
  by (auto simp: strip_frac_def strip_exp_def split: list.splits if_splits dest: dropWhile_line)

lemma valid_number_line: "valid_number s \<Longrightarrow> one_line s"
proof -
  assume v: "valid_number s"
  define r where "r = (case s of c # cs \<Rightarrow> if c = CHR ''-'' then cs else s | [] \<Rightarrow> s)"
  then have s: "r = s \<or> s = CHR ''-'' # r" by (auto split: list.splits if_splits)
  have r: "r \<noteq> []" "is_digit (hd r)"
    "strip_exp (strip_frac (if hd r = CHR ''0'' then tl r else dropWhile is_digit (tl r))) = []"
    using v unfolding valid_number_def Let_def r_def [symmetric] by (auto split: list.splits if_splits)
  have "one_line (if hd r = CHR ''0'' then tl r else dropWhile is_digit (tl r))"
    using strip_line r(3) by (metis one_line_Nil)
  then have "one_line (tl r)" by (auto split: if_splits dest: dropWhile_line)
  then show "one_line s" using s r(1,2) by (cases r) auto
qed

lemma not_plain_nl: "\<not> plain_byte nl"
  by (simp add: plain_byte_def)

lemma scalar_line: "canonicalScalar raw = Some t \<Longrightarrow> one_line t"
proof -
  assume canon: "canonicalScalar raw = Some t"
  show "one_line t"
  proof (cases "raw = ''true'' \<or> raw = ''false'' \<or> raw = ''null''")
    case True
    then show ?thesis using canon by (auto simp: canonicalScalar_def)
  next
    case False
    then have t: "t = raw" "2 \<le> length raw" "hd raw = dquote" "last raw = dquote"
      "list_all plain_byte (butlast (tl raw))"
      using canon by (auto simp: canonicalScalar_def split: if_splits)
    have "one_line (butlast (tl raw))"
      using t(5) unfolding one_line_def list_all_iff by (metis not_plain_nl)
    then have "one_line (hd raw # butlast (tl raw) @ [last raw])" using t(3,4) by simp
    moreover have "raw = hd raw # butlast (tl raw) @ [last raw]"
    proof (cases raw)
      case (Cons x xs)
      then have "xs \<noteq> []" using t(2) by auto
      then show ?thesis using Cons by simp
    qed (use t(2) in simp)
    ultimately show ?thesis using t(1) by argo
  qed
qed

lemma those_Some: "those os = Some ts \<longleftrightarrow> os = map Some ts"
  by (induction os arbitrary: ts) (auto split: option.splits simp: Cons_eq_map_conv)

lemma marshal_line: "marshal j = Some t \<Longrightarrow> one_line t"
proof (induction j arbitrary: t rule: marshal.induct)
  case (4 s)
  then show ?case using valid_number_line by (auto simp: Let_def split: if_splits)
next
  case (5 xs)
  then obtain ts where ts: "map marshal xs = map Some ts" "t = ''['' @ join '','' ts @ '']''"
    by (auto simp: those_Some)
  have "one_line u" if "u \<in> set ts" for u
  proof -
    have "Some u \<in> set (map marshal xs)" using that ts(1) by simp
    then show ?thesis using 5(1) by auto
  qed
  then show ?case unfolding ts(2) by (auto intro!: one_line_join)
next
  case (6 kvs)
  then obtain ts where ts: "map (\<lambda>(k, v). map_option (Pair k) (marshal v)) kvs = map Some ts"
    "t = ''{'' @ join '','' (map (\<lambda>(k, t). marshal_string k @ '':'' @ t) (sort_key fst ts)) @ ''}''"
    by (auto simp: those_Some)
  have "one_line (snd u)" if "u \<in> set ts" for u
  proof -
    have "Some u \<in> set (map (\<lambda>(k, v). map_option (Pair k) (marshal v)) kvs)" using that ts(1) by simp
    then obtain k v where "(k, v) \<in> set kvs" "marshal v = Some (snd u)"
      by (auto dest!: sym [of "Some u"])
    then show ?thesis using 6(1) [of "(k, v)" k v] by simp
  qed
  then show ?case unfolding ts(2) by (auto intro!: one_line_join)
qed auto

subsection \<open>Stored nodes\<close>

lemma put_entry_all:
  assumes "\<forall>e \<in> set es. P (fst (snd e)) \<and> R (snd (snd e))" "P (q k)" "R v"
  shows "\<forall>e \<in> set (put_entry q k v es). P (fst (snd e)) \<and> R (snd (snd e))"
  using assms by (auto simp: put_entry_def split_beta)

lemma fill_entries:
  "wf_obj ob \<Longrightarrow> \<forall>e \<in> set (obj_entries ob). P (fst (snd e)) \<and> R (snd (snd e)) \<Longrightarrow>
    \<forall>e \<in> set es. P (fst (snd e)) \<and> R (snd (snd e)) \<Longrightarrow>
    \<forall>e \<in> set (obj_entries (fill ob es)). P (fst (snd e)) \<and> R (snd (snd e))"
proof (induction es arbitrary: ob)
  case (Cons e es)
  obtain k raw v where e: "e = (k, raw, v)" by (cases e) auto
  have "\<forall>e \<in> set (obj_entries (obj_set k raw v ob)). P (fst (snd e)) \<and> R (snd (snd e))"
    unfolding entries_set_obj [OF Cons.prems(1)]
    by (rule put_entry_all [OF Cons.prems(2)]) (use Cons.prems(3) e in simp_all)
  then have "\<forall>e \<in> set (obj_entries (fill (obj_set k raw v ob) es)). P (fst (snd e)) \<and> R (snd (snd e))"
    by (rule Cons.IH [OF wf_obj_set [OF Cons.prems(1)]]) (use Cons.prems(3) in simp)
  then show ?case by (simp add: e)
qed simp

lemma parse_lines: "\<forall>t \<in> view_texts g. one_line t \<Longrightarrow> lines_of (abs_node (parseTree g))"
proof (induction g)
  case (GObject kvs)
  let ?es = "map (map_prod id (map_prod id parseTree)) kvs"
  have "one_line (fst (snd e)) \<and> lines_of (abs_node (snd (snd e)))" if "e \<in> set ?es" for e
  proof -
    obtain k raw g where g: "(k, raw, g) \<in> set kvs" "e = (k, raw, parseTree g)" using \<open>e \<in> set ?es\<close> by auto
    have "insert raw (view_texts g) \<subseteq> view_texts (GObject kvs)"
      using g(1) by (auto simp: view_texts_GObject intro!: bexI [of _ "(k, raw, g)"])
    then have raw: "one_line raw" and t: "\<forall>t \<in> view_texts g. one_line t"
      using GObject.prems unfolding Ball_def by blast+
    have "lines_of (abs_node (parseTree g))" using g(1) t by (intro GObject.IH) auto
    then show ?thesis using raw g(2) by simp
  qed
  then have "\<forall>e \<in> set (obj_entries (fill newTreeObj ?es)). one_line (fst (snd e)) \<and> lines_of (abs_node (snd (snd e)))"
    by (intro fill_entries) (auto simp: wf_newTreeObj obj_entries_new)
  then show ?case by (force simp: entries_map_treeObj lines_of_def)
next
  case (GArray vs)
  then show ?case by (auto simp: lines_of_def)
next
  case (GOther raw)
  then show ?case by (auto simp: lines_of_def canonical_line split: option.split)
qed

lemma raw_lines:
  assumes "parser_keeps_lines P" "one_line raw"
  shows "lines_of (abs_node (nodeFromRaw P raw))"
  using assms parse_lines [of "P raw"]
  by (auto simp: nodeFromRaw_def parseTreeRaw_def parser_keeps_lines_def lines_of_def canonical_line split: option.split)

end
