(* ===== verification/Store.thy ===== *)
theory Store
  imports TreeValues "HOL-Library.Word"
begin

text \<open>
  The in-memory side of \<open>internal/db/db.go\<close>: the package's variables as a record, the value
  conversions, and every exported operation up to the moment its log record is queued. Under
  \<open>configMu\<close> an operation's read and write of the document are one step, so an operation is
  a function from the state to the state. The writer that takes the records from the queue is
  in theory \<open>Persist\<close>, the log they form in theory \<open>Aof\<close>.
\<close>

subsection \<open>The libraries\<close>

text \<open>
  What the code gets from packages outside the repository: gjson's parser and its query
  function, and goccy/go-json's decoder and \<open>Unmarshal\<close> (only whether it fails matters).
  A call of \<open>Decode\<close> yields a value and the rest of the input, the end of the input, or an
  error.
\<close>

datatype decoded = DecOk json_any bytes | DecEOF | DecErr bytes

record libs =
  gjsonParse :: "bytes \<Rightarrow> gresult"
  gjsonGet :: "bytes \<Rightarrow> bytes \<Rightarrow> bytes"
  goDecode :: "bytes \<Rightarrow> decoded"
  goUnmarshal :: "bytes \<Rightarrow> bytes option"

subsection \<open>The package's types\<close>

datatype FsyncPolicy = FsyncEverysec | FsyncAlways | FsyncNo

datatype cmd = DelCmd | DumpCmd | SetRawCmd | CloseCmd

text \<open>A queued record. \<open>done\<close> is the channel its writer waits on, numbered.\<close>

record persistable =
  command :: cmd
  key :: bytes
  val :: bytes
  done_chan :: "nat option"

datatype json_error =
    InvalidNumber bytes
  | UnsupportedNumber float64
  | DecodeError bytes

datatype db_error =
    ErrWritesRefused
  | JSONError json_error
  | MarshalError
  | PathError path_error
  | UnmarshalError bytes
  | TypePanic

text \<open>
  The package's variables. \<open>persists\<close> is what has been sent on the channel and not yet
  received, oldest first; \<open>wg\<close> counts the records sent and not yet handled; \<open>chans\<close> is
  the number of \<open>done\<close> channels made so far.
\<close>

record store =
  configRoot :: "node treeObj"
  configSnapshot :: bytes
  configStale :: bool
  fsyncPolicy :: FsyncPolicy
  backups :: int
  aofEnabled :: bool
  writesRefused :: bool
  persists :: "persistable list"
  wg :: nat
  chans :: nat

definition init_store :: store where
  "init_store = \<lparr>configRoot = newTreeObj, configSnapshot = ''{}'', configStale = False,
     fsyncPolicy = FsyncEverysec, backups = 3, aofEnabled = True, writesRefused = False,
     persists = [], wg = 0, chans = 0\<rparr>"

text \<open>The policy, and the unknown text of the error.\<close>

definition ParseFsyncPolicy :: "bytes \<Rightarrow> FsyncPolicy \<times> bytes option" where
  "ParseFsyncPolicy v =
     (if v = [] \<or> v = ''everysec'' then (FsyncEverysec, None)
      else if v = ''always'' then (FsyncAlways, None)
      else if v = ''no'' then (FsyncNo, None)
      else (FsyncEverysec, Some v))"

definition SetFsyncPolicy :: "FsyncPolicy \<Rightarrow> store \<Rightarrow> store" where
  "SetFsyncPolicy p st = st\<lparr>fsyncPolicy := p\<rparr>"

definition SetBackups :: "int \<Rightarrow> store \<Rightarrow> store" where
  "SetBackups n st = st\<lparr>backups := n\<rparr>"

definition DisableAOF :: "store \<Rightarrow> store" where
  "DisableAOF st = st\<lparr>aofEnabled := False\<rparr>"

definition checkWritable :: "store \<Rightarrow> db_error option" where
  "checkWritable st = (if aofEnabled st \<and> writesRefused st then Some ErrWritesRefused else None)"

subsection \<open>Values\<close>

text \<open>
  The dynamic types \<open>rawJSON\<close> and \<open>valueToNode\<close> distinguish. The narrower integers are
  widened to 64 bits, \<open>float32\<close> to \<open>float64\<close>, before anything else is done with them.
\<close>

datatype go_value =
    GNil
  | GString bytes
  | GBytes bytes
  | GBool bool
  | GInt "64 word"
  | GUint "64 word"
  | GFloat float64
  | GNumber bytes
  | GAny json_any

definition rawJSON :: "go_value \<Rightarrow> bytes option" where
  "rawJSON v =
     (case v of
        GNil \<Rightarrow> Some ''null''
      | GString s \<Rightarrow> Some (stringifyJSON s)
      | GBytes s \<Rightarrow> Some (stringifyJSON s)
      | GBool b \<Rightarrow> Some (if b then ''true'' else ''false'')
      | GInt w \<Rightarrow> Some (show_int (sint w))
      | GUint w \<Rightarrow> Some (show_nat (unat w))
      | GFloat f \<Rightarrow> Some (formatFloat f)
      | GNumber s \<Rightarrow> marshal (JNumber s)
      | GAny j \<Rightarrow> marshal j)"

definition floatNode :: "float64 \<Rightarrow> db_error + node" where
  "floatNode f =
     (case f of
        NaN \<Rightarrow> Inl (JSONError (UnsupportedNumber f))
      | Inf _ \<Rightarrow> Inl (JSONError (UnsupportedNumber f))
      | Fin _ _ _ \<Rightarrow> Inr (Leaf (formatFloat f)))"

definition valueToNode :: "libs \<Rightarrow> go_value \<Rightarrow> db_error + node" where
  "valueToNode L v =
     (case v of
        GNil \<Rightarrow> Inr (Leaf ''null'')
      | GString s \<Rightarrow> Inr (Leaf (quoteJSONString s))
      | GBool b \<Rightarrow> Inr (Leaf (if b then ''true'' else ''false''))
      | GInt w \<Rightarrow> Inr (Leaf (show_int (sint w)))
      | GUint w \<Rightarrow> Inr (Leaf (show_nat (unat w)))
      | GFloat f \<Rightarrow> floatNode f
      | GNumber s \<Rightarrow>
          (case canonicalNumberText s of
             Some c \<Rightarrow> Inr (Leaf c)
           | None \<Rightarrow> Inl (JSONError (InvalidNumber s)))
      | _ \<Rightarrow>
          (case rawJSON v of
             None \<Rightarrow> Inl MarshalError
           | Some raw \<Rightarrow> Inr (nodeFromRaw (gjsonParse L) raw)))"

definition storedText :: "node \<Rightarrow> bytes" where
  "storedText n = (case n of Leaf t \<Rightarrow> t | _ \<Rightarrow> appendTree [] n)"

text \<open>The value a decoder yields, as the dynamic type \<open>Set\<close> sees.\<close>

definition value_of_json :: "json_any \<Rightarrow> go_value" where
  "value_of_json j =
     (case j of
        JNil \<Rightarrow> GNil
      | JBool b \<Rightarrow> GBool b
      | JString s \<Rightarrow> GString s
      | JNumber s \<Rightarrow> GNumber s
      | _ \<Rightarrow> GAny j)"

definition decodeJSON :: "libs \<Rightarrow> bytes \<Rightarrow> bytes + json_any" where
  "decodeJSON L raw =
     (case goDecode L raw of
        DecErr e \<Rightarrow> Inl e
      | DecEOF \<Rightarrow> Inl ''EOF''
      | DecOk v rest \<Rightarrow>
          (case goDecode L rest of
             DecEOF \<Rightarrow> Inr v
           | DecOk _ _ \<Rightarrow> Inl ''extra data after JSON value''
           | DecErr e \<Rightarrow> Inl e))"

subsection \<open>The log queue\<close>

definition mk_row :: "cmd \<Rightarrow> bytes \<Rightarrow> bytes \<Rightarrow> persistable" where
  "mk_row c k v = \<lparr>command = c, key = k, val = v, done_chan = None\<rparr>"

definition appendAOF :: "persistable \<Rightarrow> store \<Rightarrow> store" where
  "appendAOF row st =
     (if \<not> aofEnabled st then st
      else if fsyncPolicy st = FsyncAlways
      then st\<lparr>persists := persists st @ [row\<lparr>done_chan := Some (chans st)\<rparr>],
              wg := wg st + 1, chans := chans st + 1\<rparr>
      else st\<lparr>persists := persists st @ [row], wg := wg st + 1\<rparr>)"

subsection \<open>Operations\<close>

text \<open>A result \<open>None\<close> is Go's \<open>nil\<close> error.\<close>

definition setNode :: "bytes \<Rightarrow> node \<Rightarrow> store \<Rightarrow> db_error option \<times> store" where
  "setNode k v st =
     (case treeSetPath (Obj (configRoot st)) k v of
        Inl e \<Rightarrow> (Some (PathError e), st)
      | Inr n \<Rightarrow>
          (case n of
             Obj ob \<Rightarrow> (None, st\<lparr>configRoot := ob, configStale := True\<rparr>)
           | _ \<Rightarrow> (Some TypePanic, st)))"

definition setonly :: "libs \<Rightarrow> bytes \<Rightarrow> go_value \<Rightarrow> store \<Rightarrow> db_error option \<times> store" where
  "setonly L k v st =
     (case valueToNode L v of Inl e \<Rightarrow> (Some e, st) | Inr n \<Rightarrow> setNode k n st)"

definition setrawonly :: "libs \<Rightarrow> bytes \<Rightarrow> bytes \<Rightarrow> store \<Rightarrow> db_error option \<times> store" where
  "setrawonly L k raw st = setNode k (nodeFromRaw (gjsonParse L) raw) st"

definition Set :: "libs \<Rightarrow> bytes \<Rightarrow> go_value \<Rightarrow> store \<Rightarrow> db_error option \<times> store" where
  "Set L k v st =
     (case checkWritable st of
        Some e \<Rightarrow> (Some e, st)
      | None \<Rightarrow>
          (case valueToNode L v of
             Inl e \<Rightarrow> (Some e, st)
           | Inr n \<Rightarrow>
               let txt = (if aofEnabled st then storedText n else []) in
               (case setNode k n st of
                  (Some e, st') \<Rightarrow> (Some e, st')
                | (None, st') \<Rightarrow>
                    (None, if aofEnabled st' then appendAOF (mk_row SetRawCmd k txt) st' else st'))))"

definition SetRaw :: "libs \<Rightarrow> bytes \<Rightarrow> bytes \<Rightarrow> store \<Rightarrow> db_error option \<times> store" where
  "SetRaw L k raw0 st =
     (case checkWritable st of
        Some e \<Rightarrow> (Some e, st)
      | None \<Rightarrow>
          let raw = trim_space raw0 in
          (case canonicalScalar raw of
             Some leaf \<Rightarrow>
               (case setNode k (Leaf leaf) st of
                  (Some e, st') \<Rightarrow> (Some e, st')
                | (None, st') \<Rightarrow> (None, appendAOF (mk_row SetRawCmd k leaf) st'))
           | None \<Rightarrow>
               (case decodeJSON L raw of
                  Inl e \<Rightarrow> (Some (JSONError (DecodeError e)), st)
                | Inr j \<Rightarrow> Set L k (value_of_json j) st)))"

definition delonly :: "bytes \<Rightarrow> store \<Rightarrow> store" where
  "delonly k st =
     (case treeDelPath (Obj (configRoot st)) k of
        Some (Obj ob) \<Rightarrow> st\<lparr>configRoot := ob, configStale := True\<rparr>
      | _ \<Rightarrow> st)"

definition Del :: "bytes \<Rightarrow> store \<Rightarrow> db_error option \<times> store" where
  "Del k st =
     (case checkWritable st of
        Some e \<Rightarrow> (Some e, st)
      | None \<Rightarrow> (None, appendAOF (mk_row DelCmd k []) (delonly k st)))"

definition Empty :: "store \<Rightarrow> bool" where
  "Empty st \<longleftrightarrow> keys (configRoot st) = []"

definition snapshot :: "store \<Rightarrow> bytes \<times> store" where
  "snapshot st =
     (if \<not> configStale st then (configSnapshot st, st)
      else (let s = appendTree [] (Obj (configRoot st)) in
            (s, st\<lparr>configSnapshot := s, configStale := False\<rparr>)))"

definition Get :: "libs \<Rightarrow> bytes \<Rightarrow> store \<Rightarrow> bytes \<times> store" where
  "Get L k st =
     (if k \<noteq> [] \<and> isPlainPath k then
        (case treeLookupPath (Obj (configRoot st)) k of
           None \<Rightarrow> ([], st)
         | Some n \<Rightarrow> (case n of Leaf t \<Rightarrow> (t, st) | _ \<Rightarrow> (appendTree [] n, st)))
      else
        (case snapshot st of
           (s, st') \<Rightarrow> (if k = [] then s else gjsonGet L s k, st')))"

definition Replace :: "libs \<Rightarrow> bytes \<Rightarrow> store \<Rightarrow> db_error option \<times> store" where
  "Replace L raw st =
     (case goUnmarshal L raw of
        Some e \<Rightarrow> (Some (UnmarshalError e), st)
      | None \<Rightarrow>
          let root = (case parseTreeRaw (gjsonParse L) raw of Obj ob \<Rightarrow> ob | _ \<Rightarrow> newTreeObj) in
          (None, st\<lparr>configRoot := root, configSnapshot := raw, configStale := False\<rparr>))"

definition cloneonly :: "libs \<Rightarrow> bytes \<Rightarrow> bytes \<Rightarrow> store \<Rightarrow> bytes \<times> store" where
  "cloneonly L fk tk st =
     (case treeLookupPath (Obj (configRoot st)) fk of
        None \<Rightarrow> ([], st)
      | Some src \<Rightarrow>
          (case src of
             Leaf t \<Rightarrow> (case setNode tk (Leaf t) st of (Some _, st') \<Rightarrow> ([], st') | (None, st') \<Rightarrow> (t, st'))
           | _ \<Rightarrow>
               let raw = appendTree [] src in
               if raw = [] then ([], st)
               else (case setrawonly L tk raw st of
                       (Some _, st') \<Rightarrow> ([], st')
                     | (None, st') \<Rightarrow> (raw, st'))))"

definition Clone :: "libs \<Rightarrow> bytes \<Rightarrow> bytes \<Rightarrow> store \<Rightarrow> db_error option \<times> store" where
  "Clone L fk tk st =
     (case checkWritable st of
        Some e \<Rightarrow> (Some e, st)
      | None \<Rightarrow>
          (case cloneonly L fk tk st of
             (v, st') \<Rightarrow> (None, if v \<noteq> [] then appendAOF (mk_row SetRawCmd tk v) st' else st')))"

definition Vacuum :: "store \<Rightarrow> store" where
  "Vacuum st = appendAOF (mk_row DumpCmd [] []) st"

end
