(* ===== verification/StoreLaws.thy ===== *)
theory StoreLaws
  imports Store
begin

text \<open>
  Facts about the store's operations: what each does to the abstract document, that none of
  them breaks the tree, that a failing one changes nothing, and that the serialized snapshot
  never goes out of date.
\<close>

subsection \<open>The document of a store\<close>

definition document :: "store \<Rightarrow> doc" where
  "document st = abs_node (Obj (configRoot st))"

definition store_ok :: "store \<Rightarrow> bool" where
  "store_ok st \<longleftrightarrow> node_ok (Obj (configRoot st))"

definition spec_write :: "doc \<Rightarrow> bytes \<Rightarrow> doc \<Rightarrow> doc" where
  "spec_write d k v = (case spec_set d (splitTreePath k) v of Inl _ \<Rightarrow> d | Inr d' \<Rightarrow> d')"

definition spec_remove :: "doc \<Rightarrow> bytes \<Rightarrow> doc" where
  "spec_remove d k = spec_del d (splitTreePath k)"

lemma store_ok_init: "store_ok init_store"
  by (simp add: store_ok_def init_store_def node_ok_new)

lemma document_init: "document init_store = DObj []"
  by (simp add: document_def init_store_def del: abs_node.simps)

lemma store_ok_wf: "store_ok st \<Longrightarrow> wf_node (Obj (configRoot st))"
  by (simp add: store_ok_def node_ok_def)

lemma treeSetPath_Obj:
  "treeSetPath (Obj ob) k v = Inr n \<Longrightarrow> \<exists>ob'. n = Obj ob'"
  unfolding treeSetPath_segs
  by (cases "splitTreePath k") (auto elim: treeSet_Obj_cases)

lemma treeDel_total: "segs \<noteq> [] \<Longrightarrow> treeDel n segs \<noteq> None"
  by (induction n segs rule: treeDel.induct) (auto split: node.split option.split)

lemma treeDelPath_Obj: "\<exists>ob'. treeDelPath (Obj ob) k = Some (Obj ob')"
proof -
  obtain s ss where segs: "splitTreePath k = s # ss" by (cases "splitTreePath k") auto
  have "ss \<noteq> [] \<Longrightarrow> \<exists>c'. treeDel c ss = Some c'" for c using treeDel_total [of ss c] by auto
  then show ?thesis
    unfolding treeDelPath_segs segs by (cases "obj_get ob s") auto
qed

text \<open>The two outcomes of a write to the document.\<close>

lemma setNode_cases:
  obtains (fails) e where "treeSetPath (Obj (configRoot st)) k v = Inl e"
      "setNode k v st = (Some (PathError e), st)"
  | (stored) ob where "treeSetPath (Obj (configRoot st)) k v = Inr (Obj ob)"
      "setNode k v st = (None, st\<lparr>configRoot := ob, configStale := True\<rparr>)"
proof (cases "treeSetPath (Obj (configRoot st)) k v")
  case (Inl e)
  then show ?thesis by (intro fails) (simp_all add: setNode_def)
next
  case (Inr n)
  then obtain ob where "n = Obj ob" using treeSetPath_Obj by blast
  with Inr show ?thesis by (intro stored) (simp_all add: setNode_def)
qed

lemma setNode_document:
  assumes "store_ok st"
  shows "document (snd (setNode k v st)) = spec_write (document st) k (abs_node v)"
proof -
  have "map_sum id abs_node (treeSetPath (Obj (configRoot st)) k v) =
      spec_set (document st) (splitTreePath k) (abs_node v)"
    unfolding treeSetPath_segs document_def
    by (rule abs_treeSet [OF splitTreePath_nonempty store_ok_wf [OF assms]])
  then show ?thesis
    by (cases rule: setNode_cases [of st k v])
      (auto simp: spec_write_def document_def split: sum.splits)
qed

lemma setNode_ok:
  assumes "store_ok st" and "node_ok v"
  shows "store_ok (snd (setNode k v st))"
proof (cases rule: setNode_cases [of st k v])
  case fails
  with assms show ?thesis by simp
next
  case (stored ob)
  then show ?thesis
    using node_ok_set [OF _ assms(2) splitTreePath_nonempty] assms(1)
    by (simp add: store_ok_def treeSetPath_segs)
qed

lemma delonly_result:
  obtains ob where "treeDelPath (Obj (configRoot st)) k = Some (Obj ob)"
    "delonly k st = st\<lparr>configRoot := ob, configStale := True\<rparr>"
  using treeDelPath_Obj [of "configRoot st" k] by (auto simp: delonly_def)

lemma delonly_document:
  assumes "store_ok st"
  shows "document (delonly k st) = spec_remove (document st) k"
proof -
  have "map_option abs_node (treeDelPath (Obj (configRoot st)) k) = Some (spec_remove (document st) k)"
    unfolding treeDelPath_segs document_def spec_remove_def
    by (rule abs_treeDel [OF splitTreePath_nonempty store_ok_wf [OF assms]])
  then show ?thesis
    by (cases rule: delonly_result [of st k]) (simp add: document_def)
qed

lemma delonly_ok: "store_ok st \<Longrightarrow> store_ok (delonly k st)"
  by (cases rule: delonly_result [of st k])
    (auto simp: store_ok_def treeDelPath_segs intro: node_ok_del [OF _ splitTreePath_nonempty])

subsection \<open>Stored values\<close>

lemma leaf_ok_nondigit: "c \<noteq> CHR ''-'' \<Longrightarrow> \<not> is_digit c \<Longrightarrow> leaf_ok (c # s)"
  by (simp add: leaf_ok_def canonicalNumberText_def scan_int_def)

lemma stringify_head: "\<exists>s'. stringifyJSON s = dquote # s'"
  by (simp add: stringifyJSON_def marshal_string_def)

lemma leaf_ok_string: "leaf_ok (quoteJSONString s)"
  using stringify_head [of s] leaf_ok_nondigit [of dquote] not_digit by (auto simp: quoteJSONString_eq)

lemma leaf_ok_int: "leaf_ok (show_int i)"
proof -
  have "\<exists>neg n. show_int i = (if neg then ''-'' else []) @ show_nat n"
    by (cases "i < 0") (auto simp: show_int_def intro: exI [of _ True] exI [of _ False])
  then show ?thesis using canonical_integer leaf_ok_canonical by blast
qed

lemma leaf_ok_nat: "leaf_ok (show_nat n)"
proof -
  have "\<exists>neg m. show_nat n = (if neg then ''-'' else []) @ show_nat m"
    by (intro exI [of _ False] exI [of _ n]) simp
  then show ?thesis using canonical_integer leaf_ok_canonical by blast
qed

lemma leaf_ok_bool: "leaf_ok (if b then ''true'' else ''false'')"
  by (simp add: leaf_ok_nondigit is_digit_def)

lemma leaf_ok_float: "fin_ok m e \<Longrightarrow> leaf_ok (formatFloat (Fin s m e))"
  by (rule leaf_ok_canonical [OF canonical_format])

text \<open>A float of the machine has an exponent and a mantissa in range.\<close>

definition value_ok :: "go_value \<Rightarrow> bool" where
  "value_ok v \<longleftrightarrow> (case v of GFloat f \<Rightarrow> float_ok f | _ \<Rightarrow> True)"

lemma node_ok_value: "value_ok v \<Longrightarrow> valueToNode L v = Inr n \<Longrightarrow> node_ok n"
  using leaf_ok_string leaf_ok_int leaf_ok_nat leaf_ok_bool leaf_ok_float
  by (cases v)
    (auto simp: valueToNode_def floatNode_def value_ok_def node_ok_leaf node_ok_raw leaf_ok_canonical
      simp del: formatFloat.simps split: option.splits float64.splits)

lemma canonicalScalar_ok: "canonicalScalar raw = Some t \<Longrightarrow> leaf_ok t"
  using leaf_ok_nondigit [of dquote]
  by (cases raw)
    (auto simp: canonicalScalar_def leaf_ok_nondigit is_digit_def not_digit split: if_splits)

subsection \<open>The invariant\<close>

lemma configRoot_appendAOF [simp]:
  "configRoot (appendAOF r st) = configRoot st" "configSnapshot (appendAOF r st) = configSnapshot st"
  "configStale (appendAOF r st) = configStale st"
  by (simp_all add: appendAOF_def)

lemma store_ok_appendAOF [simp]: "store_ok (appendAOF r st) = store_ok st"
  by (simp add: store_ok_def)

lemma document_appendAOF [simp]: "document (appendAOF r st) = document st"
  by (simp add: document_def)

lemma Set_ok: "store_ok st \<Longrightarrow> value_ok v \<Longrightarrow> store_ok (snd (Set L k v st))"
  using setNode_ok [of st _ k] node_ok_value [of v L]
  by (auto simp: Set_def Let_def split: option.splits sum.splits prod.splits) (metis snd_conv)+

lemma value_ok_json: "value_ok (value_of_json j)"
  by (simp add: value_ok_def value_of_json_def split: json_any.split)

lemma SetRaw_ok: "store_ok st \<Longrightarrow> store_ok (snd (SetRaw L k raw st))"
  using Set_ok [OF _ value_ok_json] setNode_ok [of st "Leaf _" k] canonicalScalar_ok
  by (auto simp: SetRaw_def Let_def node_ok_leaf split: option.splits sum.splits prod.splits)
    (metis node_ok_leaf snd_conv)+

lemma Del_ok: "store_ok st \<Longrightarrow> store_ok (snd (Del k st))"
  by (simp add: Del_def delonly_ok split: option.split)

lemma setrawonly_ok: "store_ok st \<Longrightarrow> store_ok (snd (setrawonly L k raw st))"
  by (simp add: setrawonly_def setNode_ok node_ok_raw)

lemma lookup_ok:
  "store_ok st \<Longrightarrow> treeLookupPath (Obj (configRoot st)) k = Some n \<Longrightarrow> node_ok n"
  unfolding store_ok_def treeLookupPath_segs by (rule node_ok_lookup)

lemma cloneonly_ok: "store_ok st \<Longrightarrow> store_ok (snd (cloneonly L fk tk st))"
  using setrawonly_ok [of st L tk] setNode_ok [of st "Leaf _" tk] lookup_ok [of st fk]
  by (auto simp: cloneonly_def Let_def split: option.splits node.splits prod.splits) (metis snd_conv)+

lemma Clone_ok: "store_ok st \<Longrightarrow> store_ok (snd (Clone L fk tk st))"
  using cloneonly_ok [of st L fk tk] by (auto simp: Clone_def split: option.splits prod.splits)

lemma Replace_ok: "store_ok st \<Longrightarrow> store_ok (snd (Replace L raw st))"
  using node_ok_parse node_ok_new
  by (auto simp: Replace_def Let_def store_ok_def parseTreeRaw_def split: option.split node.split) (metis)

lemma snapshot_keeps: "configRoot (snd (snapshot st)) = configRoot st"
  by (simp add: snapshot_def Let_def)

lemma Get_keeps: "configRoot (snd (Get L k st)) = configRoot st"
  using snapshot_keeps [of st] by (auto simp: Get_def split: option.splits node.splits prod.splits)

subsection \<open>Failures change nothing\<close>

lemma setNode_failed: "setNode k v st = (Some e, st') \<Longrightarrow> st' = st"
  by (cases rule: setNode_cases [of st k v]) auto

lemma Set_failed: "Set L k v st = (Some e, st') \<Longrightarrow> st' = st"
  using setNode_failed [of k _ st] by (auto simp: Set_def Let_def split: option.splits sum.splits prod.splits)

lemma SetRaw_failed: "SetRaw L k raw st = (Some e, st') \<Longrightarrow> st' = st"
  using setNode_failed [of k _ st] Set_failed [of L k _ st]
  by (auto simp: SetRaw_def Let_def split: option.splits sum.splits prod.splits)

subsection \<open>The snapshot\<close>

text \<open>Unless it is marked stale, the kept snapshot is the text of the document.\<close>

definition snapshot_ok :: "store \<Rightarrow> bool" where
  "snapshot_ok st \<longleftrightarrow> configStale st \<or> configSnapshot st = doc_text (document st)"

lemma snapshot_text:
  "snapshot_ok st \<Longrightarrow> fst (snapshot st) = doc_text (document st) \<and> snapshot_ok (snd (snapshot st))"
  using tree_text_doc [of "Obj (configRoot st)"]
  by (auto simp: snapshot_def snapshot_ok_def document_def Let_def appendTree_def)

lemma snapshot_ok_init: "snapshot_ok init_store"
  unfolding snapshot_ok_def document_init by (simp add: init_store_def)

lemma snapshot_ok_appendAOF [simp]: "snapshot_ok (appendAOF r st) = snapshot_ok st"
  by (simp add: snapshot_ok_def)

lemma snapshot_ok_setNode: "snapshot_ok st \<Longrightarrow> snapshot_ok (snd (setNode k v st))"
  by (cases rule: setNode_cases [of st k v]) (auto simp: snapshot_ok_def)

lemma snapshot_ok_delonly: "snapshot_ok (delonly k st)"
  by (cases rule: delonly_result [of st k]) (auto simp: snapshot_ok_def)

lemma snapshot_ok_Set: "snapshot_ok st \<Longrightarrow> snapshot_ok (snd (Set L k v st))"
  using snapshot_ok_setNode [of st k]
  by (auto simp: Set_def Let_def split: option.splits sum.splits prod.splits) (metis snd_conv)+

lemma snapshot_ok_SetRaw: "snapshot_ok st \<Longrightarrow> snapshot_ok (snd (SetRaw L k raw st))"
  using snapshot_ok_setNode [of st k] snapshot_ok_Set [of st L k]
  by (auto simp: SetRaw_def Let_def split: option.splits sum.splits prod.splits) (metis snd_conv)+

lemma snapshot_ok_Del: "snapshot_ok st \<Longrightarrow> snapshot_ok (snd (Del k st))"
  by (simp add: Del_def snapshot_ok_delonly split: option.split)

lemma snapshot_ok_Clone: "snapshot_ok st \<Longrightarrow> snapshot_ok (snd (Clone L fk tk st))"
  using snapshot_ok_setNode [of st tk]
  by (auto simp: Clone_def cloneonly_def setrawonly_def Let_def
      split: option.splits node.splits prod.splits) (metis snd_conv)+

lemma snapshot_ok_Get: "snapshot_ok st \<Longrightarrow> snapshot_ok (snd (Get L k st))"
  using snapshot_text [of st] by (auto simp: Get_def split: option.splits node.splits prod.splits)

text \<open>A replaced document keeps the text it was given, which the parser reads as that document.\<close>

lemma snapshot_ok_Replace:
  "snapshot_ok st \<Longrightarrow> gjsonParse L raw = doc_view (DObj es) \<Longrightarrow> raw = doc_text (DObj es) \<Longrightarrow>
    doc_ok (DObj es) \<Longrightarrow> snapshot_ok (snd (Replace L raw st))"
  using parse_doc_view [of "DObj es"]
  by (auto simp: Replace_def Let_def snapshot_ok_def document_def parseTreeRaw_def
      simp del: doc_text.simps doc_ok_simps split: option.split)

subsection \<open>Writes as steps on the document\<close>

text \<open>
  The log, Raft and the peers all apply writes in sequence, and all rely on the same contract: on a
  store it can work on, a write answers and leaves what the abstract document says.
\<close>

locale document_machine =
  fixes exec :: "'x \<Rightarrow> store \<Rightarrow> 'r \<times> store"
    and spec :: "'x \<Rightarrow> doc \<Rightarrow> 'r \<times> doc"
    and able :: "store \<Rightarrow> bool"
  assumes able_exec: "able st \<Longrightarrow> able (snd (exec x st))"
    and exec_spec: "able st \<Longrightarrow> map_prod id document (exec x st) = spec x (document st)"
begin

lemma run_spec:
  "able st \<Longrightarrow>
    map_prod id document (run_all exec xs st) = run_all spec xs (document st) \<and> able (snd (run_all exec xs st))"
proof (induction xs arbitrary: st)
  case (Cons x xs)
  obtain r st' where s: "exec x st = (r, st')" by fastforce
  then have "spec x (document st) = (r, document st')" "able st'"
    using exec_spec [OF Cons.prems, of x] able_exec [OF Cons.prems, of x] by simp_all
  then show ?case
    using s Cons.IH [of st'] by (cases "run_all exec xs st'"; cases "run_all spec xs (document st')") auto
qed simp

lemma run_agree:
  assumes "able a" "able b" "document a = document b"
  shows "fst (run_all exec xs a) = fst (run_all exec xs b) \<and>
    document (snd (run_all exec xs a)) = document (snd (run_all exec xs b))"
  using run_spec [OF assms(1), of xs] run_spec [OF assms(2), of xs] assms(3) by (auto simp: prod_eq_iff)

end

end
