(* ===== verification/Aof.thy ===== *)
theory Aof
  imports StoreLaws
begin

text \<open>
  The append-only file of \<open>internal/db/db.go\<close>: the bytes of a record, \<open>replayAOF\<close> and
  \<open>readRecordLine\<close>. Replaying the records a sequence of operations queued gives the
  document the operations left; replaying any prefix of the bytes gives the document after
  some prefix of the records, and cuts the file there.
\<close>

subsection \<open>Records\<close>

definition record_bytes :: "persistable \<Rightarrow> bytes" where
  "record_bytes row =
     (case command row of
        SetRawCmd \<Rightarrow> ''+'' @ key row @ [nl] @ val row @ [nl]
      | DelCmd \<Rightarrow> ''-'' @ key row @ [nl]
      | _ \<Rightarrow> [])"

definition log_bytes :: "persistable list \<Rightarrow> bytes" where
  "log_bytes rows = concat (map record_bytes rows)"

subsection \<open>Replay\<close>

text \<open>
  The next line without its newline and what follows it; \<open>None\<close> at the end of the file, an
  incomplete last line included.
\<close>

definition readRecordLine :: "bytes \<Rightarrow> (bytes \<times> bytes) option" where
  "readRecordLine bs =
     (case index_byte nl bs of None \<Rightarrow> None | Some i \<Rightarrow> Some (take i bs, drop (Suc i) bs))"

lemma readRecordLine_shorter: "readRecordLine bs = Some (l, r) \<Longrightarrow> length r < length bs"
  by (auto simp: readRecordLine_def dest: index_byte_Some split: option.splits)

lemma readRecordLine_line: "nl \<notin> set l \<Longrightarrow> readRecordLine (l @ nl # r) = Some (l, r)"
  by (simp add: readRecordLine_def index_byte_append)

lemma readRecordLine_None: "readRecordLine bs = None \<longleftrightarrow> nl \<notin> set bs"
  unfolding readRecordLine_def using index_byte_None [of nl bs] by (auto split: option.split)

text \<open>A snapshot record replaces the document.\<close>

definition load_snapshot :: "libs \<Rightarrow> bytes \<Rightarrow> store \<Rightarrow> store" where
  "load_snapshot L vl st =
     st\<lparr>configRoot := (case parseTreeRaw (gjsonParse L) vl of Obj ob \<Rightarrow> ob | _ \<Rightarrow> newTreeObj),
        configStale := True\<rparr>"

text \<open>
  The loop: the unread bytes, the store, and \<open>good\<close>, the offset just past the last whole
  record. A record that cannot be applied is skipped.
\<close>

function replay_loop :: "libs \<Rightarrow> bytes \<Rightarrow> store \<Rightarrow> nat \<Rightarrow> store \<times> nat" where
  "replay_loop L bs st good =
     (case readRecordLine bs of
        None \<Rightarrow> (st, good)
      | Some (kl, r) \<Rightarrow>
          (let size = length kl + 1 in
           case kl of
             [] \<Rightarrow> replay_loop L r st (good + size)
           | c # k \<Rightarrow>
               if c = CHR ''+'' then
                 (case readRecordLine r of
                    None \<Rightarrow> (st, good)
                  | Some (vl, r') \<Rightarrow>
                      replay_loop L r' (snd (setrawonly L k vl st)) (good + size + length vl + 1))
               else if c = CHR ''*'' then
                 (case readRecordLine r of
                    None \<Rightarrow> (st, good)
                  | Some (vl, r') \<Rightarrow>
                      replay_loop L r' (load_snapshot L vl st) (good + size + length vl + 1))
               else if c = CHR ''-'' then replay_loop L r (delonly k st) (good + size)
               else replay_loop L r st (good + size)))"
  by pat_completeness auto
termination
  by (relation "measure (\<lambda>(L, bs, st, good). length bs)")
    (simp_all, (metis readRecordLine_shorter less_trans)+)

declare replay_loop.simps [simp del]

text \<open>
  \<open>replayAOF\<close> with the results of its system calls: whether \<open>Stat\<close>, \<open>Truncate\<close> and
  \<open>Sync\<close> succeed. It yields whether it succeeded, the store, and the file.
\<close>

definition replayAOF :: "libs \<Rightarrow> bool \<Rightarrow> bool \<Rightarrow> bool \<Rightarrow> bytes \<Rightarrow> store \<Rightarrow> bool \<times> store \<times> bytes" where
  "replayAOF L statOk truncOk syncOk file st =
     (case replay_loop L file st 0 of
        (st', good) \<Rightarrow>
          if \<not> statOk then (False, st', file)
          else if good < length file then
            (if \<not> truncOk then (False, st', file) else (syncOk, st', take good file))
          else (True, st', file))"

subsection \<open>Replaying whole records\<close>

text \<open>What replaying a record does to the store.\<close>

definition apply_row :: "libs \<Rightarrow> persistable \<Rightarrow> store \<Rightarrow> store" where
  "apply_row L row st =
     (case command row of
        SetRawCmd \<Rightarrow> snd (setrawonly L (key row) (val row) st)
      | DelCmd \<Rightarrow> delonly (key row) st
      | _ \<Rightarrow> st)"

text \<open>Keys and values that stay on their line.\<close>

definition row_ok :: "persistable \<Rightarrow> bool" where
  "row_ok row \<longleftrightarrow>
     (command row = SetRawCmd \<or> command row = DelCmd) \<and> nl \<notin> set (key row) \<and> nl \<notin> set (val row)"

lemma replay_row:
  assumes "row_ok row"
  shows "replay_loop L (record_bytes row @ rest) st good =
    replay_loop L rest (apply_row L row st) (good + length (record_bytes row))"
proof (cases "command row")
  case SetRawCmd
  have "readRecordLine (record_bytes row @ rest) = Some (CHR ''+'' # key row, val row @ nl # rest)"
    using assms SetRawCmd readRecordLine_line [of "CHR ''+'' # key row" "val row @ nl # rest"]
    by (simp add: record_bytes_def row_ok_def)
  moreover have "length (record_bytes row) = length (key row) + length (val row) + 3"
    using SetRawCmd by (simp add: record_bytes_def)
  ultimately show ?thesis
    using assms SetRawCmd
    by (subst replay_loop.simps) (simp add: readRecordLine_line row_ok_def apply_row_def numeral_3_eq_3 add.assoc)
next
  case DelCmd
  have "readRecordLine (record_bytes row @ rest) = Some (CHR ''-'' # key row, rest)"
    using assms DelCmd readRecordLine_line [of "CHR ''-'' # key row" rest]
    by (simp add: record_bytes_def row_ok_def)
  moreover have "length (record_bytes row) = length (key row) + 2"
    using DelCmd by (simp add: record_bytes_def)
  ultimately show ?thesis
    using assms DelCmd by (subst replay_loop.simps) (simp add: apply_row_def)
qed (use assms in \<open>simp_all add: row_ok_def\<close>)

lemma log_bytes_Cons: "log_bytes (row # rows) = record_bytes row @ log_bytes rows"
  by (simp add: log_bytes_def)

lemma log_bytes_append: "log_bytes (as @ bs) = log_bytes as @ log_bytes bs"
  by (simp add: log_bytes_def)

lemma replay_rows:
  "list_all row_ok rows \<Longrightarrow>
    replay_loop L (log_bytes rows @ rest) st good =
      replay_loop L rest (fold (apply_row L) rows st) (good + length (log_bytes rows))"
proof (induction rows arbitrary: st good)
  case Nil
  then show ?case by (simp add: log_bytes_def)
next
  case (Cons row rows)
  then show ?case by (simp add: log_bytes_Cons replay_row add.assoc)
qed

lemma replay_end: "nl \<notin> set bs \<Longrightarrow> replay_loop L bs st good = (st, good)"
  using readRecordLine_None [of bs] by (simp add: replay_loop.simps [of L bs])

subsection \<open>A torn tail\<close>

text \<open>A proper prefix of a record's bytes is not taken for a record.\<close>

lemma replay_torn:
  assumes ok: "row_ok row" and part: "n < length (record_bytes row)"
  shows "replay_loop L (take n (record_bytes row)) st good = (st, good)"
proof (cases "nl \<in> set (take n (record_bytes row))")
  case False
  then show ?thesis by (rule replay_end)
next
  case True
  show ?thesis
  proof (cases "command row")
    case SetRawCmd
    let ?kl = "CHR ''+'' # key row"
    have row: "record_bytes row = ?kl @ nl # val row @ [nl]"
      using SetRawCmd by (simp add: record_bytes_def)
    have nokl: "nl \<notin> set ?kl" using ok by (simp add: row_ok_def)
    have long: "length ?kl < n"
    proof (rule ccontr)
      assume "\<not> length ?kl < n"
      then have "take n (record_bytes row) = take n ?kl"
        unfolding row by (simp only: take_append) simp
      with True nokl show False by (auto dest: in_set_takeD)
    qed
    then obtain m where m: "n = Suc (length ?kl + m)" by (metis less_iff_Suc_add)
    with part have "m \<le> length (val row)" unfolding row by simp
    with m have tk: "take n (record_bytes row) = ?kl @ nl # take m (val row)" unfolding row by simp
    have "nl \<notin> set (take m (val row))" using ok by (auto simp: row_ok_def dest: in_set_takeD)
    then have "readRecordLine (take m (val row)) = None" unfolding readRecordLine_None .
    then show ?thesis
      unfolding tk using readRecordLine_line [OF nokl, of "take m (val row)"]
      by (subst replay_loop.simps) simp
  next
    case DelCmd
    have "nl \<notin> set (take n (CHR ''-'' # key row))" using ok by (auto simp: row_ok_def dest: in_set_takeD)
    moreover have "take n (record_bytes row) = take n (CHR ''-'' # key row)"
    proof -
      have row: "record_bytes row = (CHR ''-'' # key row) @ [nl]"
        using DelCmd by (simp add: record_bytes_def)
      have "n \<le> length (CHR ''-'' # key row)" using part unfolding row by simp
      then show ?thesis unfolding row by (simp only: take_append) simp
    qed
    ultimately show ?thesis using True by simp
  qed (use ok in \<open>simp_all add: row_ok_def\<close>)
qed

text \<open>
  Any prefix of the log: the records that fit in it whole are replayed, the rest is not
  read, and the file is cut after the last whole record.
\<close>

lemma prefix_of_log:
  "\<exists>m. m \<le> length rows \<and> length (log_bytes (take m rows)) \<le> n \<and>
     (take n (log_bytes rows) = log_bytes rows \<and> m = length rows \<or>
      m < length rows \<and>
      (\<exists>k < length (record_bytes (rows ! m)).
         take n (log_bytes rows) = log_bytes (take m rows) @ take k (record_bytes (rows ! m))))"
proof (induction rows arbitrary: n)
  case Nil
  then show ?case by (simp add: log_bytes_def)
next
  case (Cons row rows)
  show ?case
  proof (cases "n < length (record_bytes row)")
    case True
    then show ?thesis
      by (intro exI [of _ 0]) (auto simp: log_bytes_Cons log_bytes_def intro!: exI [of _ n])
  next
    case False
    define n' where "n' = n - length (record_bytes row)"
    from Cons.IH [of n'] obtain m where m: "m \<le> length rows" "length (log_bytes (take m rows)) \<le> n'"
      "take n' (log_bytes rows) = log_bytes rows \<and> m = length rows \<or>
       m < length rows \<and>
       (\<exists>k < length (record_bytes (rows ! m)).
         take n' (log_bytes rows) = log_bytes (take m rows) @ take k (record_bytes (rows ! m)))"
      by blast
    have "take n (log_bytes (row # rows)) = record_bytes row @ take n' (log_bytes rows)"
      using False by (simp add: log_bytes_Cons n'_def)
    with m False show ?thesis
      by (intro exI [of _ "Suc m"]) (auto simp: log_bytes_Cons n'_def)
  qed
qed

theorem replay_prefix:
  assumes "list_all row_ok rows"
  shows "\<exists>m. m \<le> length rows \<and>
    replay_loop L (take n (log_bytes rows)) st 0 =
      (fold (apply_row L) (take m rows) st, length (log_bytes (take m rows))) \<and>
    length (log_bytes (take m rows)) \<le> n \<and>
    (m < length rows \<longrightarrow> n < length (log_bytes (take (Suc m) rows)))"
proof -
  from prefix_of_log [of rows n] obtain m where m: "m \<le> length rows"
    "length (log_bytes (take m rows)) \<le> n"
    and cut: "take n (log_bytes rows) = log_bytes rows \<and> m = length rows \<or>
      m < length rows \<and>
      (\<exists>k < length (record_bytes (rows ! m)).
         take n (log_bytes rows) = log_bytes (take m rows) @ take k (record_bytes (rows ! m)))"
    by blast
  have ok: "list_all row_ok (take m rows)" using assms by (auto simp: list_all_iff dest: in_set_takeD)
  from cut show ?thesis
  proof
    assume all: "take n (log_bytes rows) = log_bytes rows \<and> m = length rows"
    then show ?thesis
      using replay_rows [OF assms, of L "[]" st 0] m
      by (intro exI [of _ m]) (simp add: replay_end)
  next
    assume "m < length rows \<and> (\<exists>k < length (record_bytes (rows ! m)).
         take n (log_bytes rows) = log_bytes (take m rows) @ take k (record_bytes (rows ! m)))"
    then obtain k where k: "m < length rows" "k < length (record_bytes (rows ! m))"
      "take n (log_bytes rows) = log_bytes (take m rows) @ take k (record_bytes (rows ! m))"
      by blast
    have "row_ok (rows ! m)" using assms k(1) by (simp add: list_all_length)
    then have "replay_loop L (take n (log_bytes rows)) st 0 =
        (fold (apply_row L) (take m rows) st, length (log_bytes (take m rows)))"
      unfolding k(3) using replay_rows [OF ok, of L _ st 0] replay_torn [OF _ k(2)] by simp
    moreover have suc: "log_bytes (take (Suc m) rows) = log_bytes (take m rows) @ record_bytes (rows ! m)"
      using k(1) by (simp add: take_Suc_conv_app_nth log_bytes_append) (simp add: log_bytes_def)
    have "n < length (log_bytes (take (Suc m) rows))"
    proof (rule ccontr)
      assume "\<not> n < length (log_bytes (take (Suc m) rows))"
      moreover have "log_bytes rows = log_bytes (take (Suc m) rows) @ log_bytes (drop (Suc m) rows)"
        by (simp flip: log_bytes_append)
      ultimately have "length (log_bytes (take (Suc m) rows)) \<le> length (take n (log_bytes rows))"
        by simp
      then show False unfolding k(3) suc using k(2) by simp
    qed
    ultimately show ?thesis using m by blast
  qed
qed

end
