(* ===== verification/Durability.thy ===== *)
theory Durability
  imports Aof
begin

text \<open>
  The log and the memory agree: running operations one after another and replaying the
  records they queued give the same document, and a log cut anywhere gives the document as
  it was after some of the operations.
\<close>

subsection \<open>Operations as data\<close>

datatype op =
    OpSet bytes go_value
  | OpSetRaw bytes bytes
  | OpDel bytes
  | OpClone bytes bytes

fun run_op :: "libs \<Rightarrow> op \<Rightarrow> store \<Rightarrow> db_error option \<times> store" where
  "run_op L (OpSet k v) st = Set L k v st"
| "run_op L (OpSetRaw k raw) st = SetRaw L k raw st"
| "run_op L (OpDel k) st = Del k st"
| "run_op L (OpClone fk tk) st = Clone L fk tk st"

definition run_ops :: "libs \<Rightarrow> op list \<Rightarrow> store \<Rightarrow> store" where
  "run_ops L ops st = fold (\<lambda>x s. snd (run_op L x s)) ops st"

text \<open>
  What is asked of the parser for an operation: the text of the value it stores is read as
  that value. It is a condition on containers; for a scalar that is no container's text it
  holds by itself.
\<close>

definition set_reads :: "libs \<Rightarrow> go_value \<Rightarrow> bool" where
  "set_reads L v \<longleftrightarrow>
     value_ok v \<and> (case valueToNode L v of Inl _ \<Rightarrow> True | Inr n \<Rightarrow> reads_back (gjsonParse L) (abs_node n))"

fun op_reads :: "libs \<Rightarrow> op \<Rightarrow> store \<Rightarrow> bool" where
  "op_reads L (OpSet k v) st = set_reads L v"
| "op_reads L (OpSetRaw k raw) st =
     (case canonicalScalar (trim_space raw) of
        Some _ \<Rightarrow> True
      | None \<Rightarrow>
          (case decodeJSON L (trim_space raw) of
             Inl _ \<Rightarrow> True
           | Inr j \<Rightarrow> set_reads L (value_of_json j)))"
| "op_reads L (OpDel k) st = True"
| "op_reads L (OpClone fk tk) st =
     (case treeLookupPath (Obj (configRoot st)) fk of
        Some (Leaf t) \<Rightarrow> isJSONScalar t
      | _ \<Rightarrow> True)"

fun ops_read :: "libs \<Rightarrow> op list \<Rightarrow> store \<Rightarrow> bool" where
  "ops_read L [] st = True"
| "ops_read L (x # xs) st \<longleftrightarrow> op_reads L x st \<and> ops_read L xs (snd (run_op L x st))"

subsection \<open>A record's effect on the document\<close>

definition doc_apply :: "libs \<Rightarrow> persistable \<Rightarrow> doc \<Rightarrow> doc" where
  "doc_apply L row d =
     (case command row of
        SetRawCmd \<Rightarrow> spec_write d (key row) (abs_node (nodeFromRaw (gjsonParse L) (val row)))
      | DelCmd \<Rightarrow> spec_remove d (key row)
      | _ \<Rightarrow> d)"

lemma apply_row_document:
  "store_ok st \<Longrightarrow>
    document (apply_row L row st) = doc_apply L row (document st) \<and> store_ok (apply_row L row st)"
  by (cases "command row")
    (simp_all add: apply_row_def doc_apply_def setrawonly_def setNode_document setNode_ok node_ok_raw
      delonly_document delonly_ok)

interpretation replayed: document_machine "\<lambda>row st. ((), apply_row L row st)" "\<lambda>row d. ((), doc_apply L row d)" store_ok
  by unfold_locales (simp_all add: apply_row_document)

lemma apply_rows_document:
  "store_ok st \<Longrightarrow>
    document (fold (apply_row L) rows st) = fold (doc_apply L) rows (document st)"
  using replayed.run_spec [of st L rows] by (auto simp: prod_eq_iff snd_run_all)

subsection \<open>One operation\<close>

text \<open>The operation queued at most one record, and that record does what the operation did.\<close>

definition logged :: "libs \<Rightarrow> store \<Rightarrow> store \<Rightarrow> bool" where
  "logged L st st' \<longleftrightarrow>
     (\<exists>rows. persists st' = persists st @ rows \<and> length rows \<le> 1 \<and>
        document st' = fold (doc_apply L) rows (document st)) \<and>
     aofEnabled st' = aofEnabled st"

lemma logged_refl [simp]: "logged L st st"
  by (auto simp: logged_def intro: exI [of _ "[]"])

lemma persists_setNode [simp]:
  "persists (snd (setNode k v st)) = persists st" "aofEnabled (snd (setNode k v st)) = aofEnabled st"
  by (cases rule: setNode_cases [of st k v]; simp)+

lemma persists_delonly [simp]:
  "persists (delonly k st) = persists st" "aofEnabled (delonly k st) = aofEnabled st"
  by (cases rule: delonly_result [of st k]; simp)+

lemma doc_apply_chan [simp]: "doc_apply L (row\<lparr>done_chan := c\<rparr>) = doc_apply L row"
  by (rule ext) (cases "command row"; simp add: doc_apply_def)

lemma logged_append:
  assumes "aofEnabled st" "aofEnabled st1" "persists st1 = persists st"
    and "document st1 = doc_apply L row (document st)"
  shows "logged L st (appendAOF row st1)"
proof -
  obtain c where "persists (appendAOF row st1) = persists st @ [row\<lparr>done_chan := c\<rparr>]"
  proof (cases "fsyncPolicy st1 = FsyncAlways")
    case True
    then show ?thesis using assms by (intro that [of "Some (chans st1)"]) (simp add: appendAOF_def)
  next
    case False
    then show ?thesis using assms by (intro that [of "done_chan row"]) (simp add: appendAOF_def)
  qed
  moreover have "aofEnabled (appendAOF row st1) = aofEnabled st"
    using assms by (simp add: appendAOF_def)
  ultimately show ?thesis
    using assms(4) by (auto simp: logged_def intro!: exI [of _ "[row\<lparr>done_chan := c\<rparr>]"])
qed

lemma logged_setNode:
  assumes st: "store_ok st" "aofEnabled st" and n: "node_ok n" "reads_back (gjsonParse L) (abs_node n)"
    and set: "setNode k n st = (None, st1)" and written: "t = tree_text n"
  shows "logged L st (appendAOF (mk_row SetRawCmd k t) st1)"
proof -
  have "st1 = snd (setNode k n st)" using set by simp
  then show ?thesis
    using st setNode_document [OF st(1), of k n] nodeFromRaw_text [OF n] written
    by (intro logged_append) (simp_all add: doc_apply_def mk_row_def)
qed

lemma storedText_tree: "storedText n = tree_text n"
  by (simp add: storedText_def appendTree_def split: node.split)

lemma logged_Set:
  assumes "store_ok st" "aofEnabled st" "set_reads L v"
  shows "logged L st (snd (Set L k v st))"
proof (cases "checkWritable st")
  case (Some e)
  then show ?thesis by (simp add: Set_def)
next
  case None
  show ?thesis
  proof (cases "valueToNode L v")
    case (Inl e)
    with None show ?thesis by (simp add: Set_def)
  next
    case (Inr n)
    obtain r st1 where set: "setNode k n st = (r, st1)" by (cases "setNode k n st")
    have n: "node_ok n" "reads_back (gjsonParse L) (abs_node n)"
      using assms(3) Inr by (auto simp: set_reads_def intro: node_ok_value)
    show ?thesis
    proof (cases r)
      case (Some e)
      with set have "st1 = st" using setNode_failed by blast
      with Some None Inr set show ?thesis by (simp add: Set_def Let_def)
    next
      case None': None
      have "aofEnabled st1" using assms(2) set persists_setNode(2) [of k n st] by simp
      with None None' Inr set assms(2) show ?thesis
        using logged_setNode [OF assms(1,2) n, of k st1 "storedText n"]
        by (simp add: Set_def Let_def storedText_tree)
    qed
  qed
qed

lemma canonicalScalar_reads: "canonicalScalar raw = Some t \<Longrightarrow> isJSONScalar t"
  by (cases raw) (auto simp: canonicalScalar_def split: if_splits)

lemma logged_SetRaw:
  assumes "store_ok st" "aofEnabled st" "op_reads L (OpSetRaw k raw) st"
  shows "logged L st (snd (SetRaw L k raw st))"
proof (cases "checkWritable st")
  case (Some e)
  then show ?thesis by (simp add: SetRaw_def)
next
  case None
  show ?thesis
  proof (cases "canonicalScalar (trim_space raw)")
    case (Some t)
    obtain r st1 where set: "setNode k (Leaf t) st = (r, st1)" by (cases "setNode k (Leaf t) st")
    have n: "node_ok (Leaf t)" "reads_back (gjsonParse L) (abs_node (Leaf t))"
      using Some canonicalScalar_ok canonicalScalar_reads by (simp_all add: node_ok_leaf reads_back_def)
    show ?thesis
    proof (cases r)
      case (Some e)
      with set have "st1 = st" using setNode_failed by blast
      with \<open>canonicalScalar _ = Some t\<close> Some None set show ?thesis by (simp add: SetRaw_def Let_def)
    next
      case None': None
      with \<open>canonicalScalar _ = Some t\<close> None set show ?thesis
        using logged_setNode [OF assms(1,2) n, of k st1 t] by (simp add: SetRaw_def Let_def)
    qed
  next
    case None': None
    with None assms show ?thesis
      using logged_Set [OF assms(1,2)] by (auto simp: SetRaw_def Let_def split: sum.splits)
  qed
qed

lemma logged_Del: "store_ok st \<Longrightarrow> aofEnabled st \<Longrightarrow> logged L st (snd (Del k st))"
  by (auto simp: Del_def delonly_document doc_apply_def mk_row_def split: option.split
      intro!: logged_append)

lemma tree_text_container: "(\<And>t. n \<noteq> Leaf t) \<Longrightarrow> tree_text n \<noteq> []"
  by (cases n) auto

lemma logged_Clone:
  assumes "store_ok st" "aofEnabled st" "op_reads L (OpClone fk tk) st"
  shows "logged L st (snd (Clone L fk tk st))"
proof (cases "checkWritable st = None \<and> treeLookupPath (Obj (configRoot st)) fk \<noteq> None")
  case False
  then show ?thesis by (auto simp: Clone_def cloneonly_def split: option.split)
next
  case True
  then obtain src where cw: "checkWritable st = None"
    and src: "treeLookupPath (Obj (configRoot st)) fk = Some src" by auto
  have ok: "node_ok src" using lookup_ok [OF assms(1) src] .
  show ?thesis
  proof (cases "\<exists>t. src = Leaf t")
    case True
    then obtain t where t: "src = Leaf t" by blast
    obtain r st1 where set: "setNode tk (Leaf t) st = (r, st1)" by (cases "setNode tk (Leaf t) st")
    have reads: "reads_back (gjsonParse L) (abs_node (Leaf t))" and ne: "t \<noteq> []"
      using assms(3) src t by (auto simp: reads_back_def)
    show ?thesis
    proof (cases r)
      case (Some e)
      with set have "st1 = st" using setNode_failed by blast
      with Some cw src t set show ?thesis by (simp add: Clone_def cloneonly_def)
    next
      case None
      with cw src t set ne show ?thesis
        using logged_setNode [OF assms(1,2) ok [unfolded t] reads, of tk st1 t]
        by (simp add: Clone_def cloneonly_def)
    qed
  next
    case False
    let ?raw = "tree_text src"
    have raw: "cloneonly L fk tk st =
        (case setrawonly L tk ?raw st of (Some _, st') \<Rightarrow> ([], st') | (None, st') \<Rightarrow> (?raw, st'))"
      using False src tree_text_container [of src]
      by (cases src) (simp_all add: cloneonly_def appendTree_def Let_def del: tree_text.simps split: prod.split option.split)
    obtain r st1 where set: "setrawonly L tk ?raw st = (r, st1)" by (cases "setrawonly L tk ?raw st")
    show ?thesis
    proof (cases r)
      case (Some e)
      with set have "st1 = st" using setNode_failed unfolding setrawonly_def by blast
      with Some cw raw set show ?thesis by (simp add: Clone_def)
    next
      case None
      have st1: "st1 = snd (setNode tk (nodeFromRaw (gjsonParse L) ?raw) st)"
        using set by (simp add: setrawonly_def)
      have "logged L st (appendAOF (mk_row SetRawCmd tk ?raw) st1)"
        unfolding st1 using assms(1,2)
        by (intro logged_append) (simp_all add: setNode_document doc_apply_def mk_row_def)
      with None cw raw set False tree_text_container [of src] show ?thesis by (simp add: Clone_def)
    qed
  qed
qed

lemma logged_op: "store_ok st \<Longrightarrow> aofEnabled st \<Longrightarrow> op_reads L x st \<Longrightarrow> logged L st (snd (run_op L x st))"
  using logged_Set logged_SetRaw logged_Del logged_Clone by (cases x) (simp_all del: op_reads.simps(2-4))

lemma run_op_ok: "store_ok st \<Longrightarrow> op_reads L x st \<Longrightarrow> store_ok (snd (run_op L x st))"
  using Set_ok SetRaw_ok Del_ok Clone_ok by (cases x) (auto simp: set_reads_def)

subsection \<open>A sequence of operations\<close>

lemma run_ops_snoc: "run_ops L (xs @ [x]) st = snd (run_op L x (run_ops L xs st))"
  by (simp add: run_ops_def)

lemma ops_read_append:
  "ops_read L (xs @ ys) st \<longleftrightarrow> ops_read L xs st \<and> ops_read L ys (run_ops L xs st)"
  by (induction xs arbitrary: st) (simp_all add: run_ops_def)

lemma run_ops_ok: "store_ok st \<Longrightarrow> ops_read L xs st \<Longrightarrow> store_ok (run_ops L xs st)"
  by (induction xs arbitrary: st) (simp_all add: run_ops_def run_op_ok)

text \<open>
  Every prefix of the queued records is the records of a prefix of the operations, and the
  records do what the operations did.
\<close>

lemma logged_ops:
  assumes "store_ok st" "aofEnabled st"
  shows "ops_read L xs st \<Longrightarrow>
    aofEnabled (run_ops L xs st) \<and>
    (\<exists>rows. persists (run_ops L xs st) = persists st @ rows \<and>
      (\<forall>m \<le> length rows. \<exists>j \<le> length xs.
         document (run_ops L (take j xs) st) = fold (doc_apply L) (take m rows) (document st)) \<and>
      document (run_ops L xs st) = fold (doc_apply L) rows (document st))"
proof (induction xs rule: rev_induct)
  case Nil
  then show ?case using assms by (auto simp: run_ops_def)
next
  case (snoc x xs)
  let ?st = "run_ops L xs st"
  from snoc.prems have read: "ops_read L xs st" "op_reads L x ?st"
    by (simp_all add: ops_read_append)
  from snoc.IH [OF read(1)] obtain rows where rows: "aofEnabled ?st" "persists ?st = persists st @ rows"
    "\<And>m. m \<le> length rows \<Longrightarrow> \<exists>j \<le> length xs.
       document (run_ops L (take j xs) st) = fold (doc_apply L) (take m rows) (document st)"
    "document ?st = fold (doc_apply L) rows (document st)"
    by blast
  have "logged L ?st (snd (run_op L x ?st))"
    using logged_op [OF run_ops_ok [OF assms(1) read(1)] rows(1) read(2)] .
  then obtain r where r: "persists (run_ops L (xs @ [x]) st) = persists st @ rows @ r" "length r \<le> 1"
    "document (run_ops L (xs @ [x]) st) = fold (doc_apply L) (rows @ r) (document st)"
    "aofEnabled (run_ops L (xs @ [x]) st)"
    using rows by (auto simp: logged_def run_ops_snoc)
  have "\<exists>j \<le> length (xs @ [x]).
      document (run_ops L (take j (xs @ [x])) st) = fold (doc_apply L) (take m (rows @ r)) (document st)"
    if "m \<le> length (rows @ r)" for m
  proof (cases "m \<le> length rows")
    case True
    with rows(3) obtain j where "j \<le> length xs"
      "document (run_ops L (take j xs) st) = fold (doc_apply L) (take m rows) (document st)" by blast
    with True show ?thesis by (intro exI [of _ j]) simp
  next
    case False
    with that r(2) have "take m (rows @ r) = rows @ r" by simp
    with r(3) show ?thesis by (intro exI [of _ "length (xs @ [x])"]) simp
  qed
  with r show ?case by blast
qed

end
