(* ===== verification/LineProps.thy ===== *)
theory LineProps
  imports Lines Durability
begin

text \<open>
  Every record of the log keeps to its lines: what the operations of the store make of the
  document and of the queue, and so of what a client sends.
\<close>

subsection \<open>Values\<close>

lemma value_lines:
  assumes "parser_keeps_lines (gjsonParse L)" "valueToNode L v = Inr n"
  shows "lines_of (abs_node n)"
proof -
  have raw: "lines_of (abs_node (nodeFromRaw (gjsonParse L) t))" if "rawJSON v = Some t" "\<exists>s. v = GBytes s \<or> v = GAny s'" for t s'
    using that marshal_line by (intro raw_lines [OF assms(1)]) (auto simp: rawJSON_def)
  show ?thesis
  proof (cases v)
    case (GAny j)
    then show ?thesis using assms raw marshal_line by (auto simp: valueToNode_def rawJSON_def split: option.splits)
  next
    case (GBytes b)
    then show ?thesis using assms raw by (auto simp: valueToNode_def rawJSON_def split: option.splits)
  qed (use assms in \<open>auto simp: valueToNode_def floatNode_def lines_of_def canonical_line
        simp del: formatFloat.simps split: option.splits float64.splits\<close>)
qed

subsection \<open>The store\<close>

definition row_lines :: "persistable \<Rightarrow> bool" where
  "row_lines r \<longleftrightarrow> one_line (key r) \<and> one_line (val r)"

definition store_lines :: "store \<Rightarrow> bool" where
  "store_lines st \<longleftrightarrow> lines_of (document st) \<and> list_all row_lines (persists st)"

lemma init_lines: "store_lines init_store"
  unfolding store_lines_def document_init by (simp add: lines_of_def init_store_def)

lemma append_lines: "store_lines st \<Longrightarrow> row_lines r \<Longrightarrow> store_lines (appendAOF r st)"
  by (simp add: store_lines_def) (simp add: appendAOF_def row_lines_def)

lemma row_lines_mk [simp]: "row_lines (mk_row c k v) \<longleftrightarrow> one_line k \<and> one_line v"
  by (simp add: row_lines_def mk_row_def)

lemma node_text_line: "lines_of (abs_node n) \<Longrightarrow> one_line (tree_text n)"
  unfolding tree_text_doc by (rule doc_text_line)

lemma setNode_lines:
  assumes "store_ok st" "store_lines st" "lines_of (abs_node n)"
  shows "store_lines (snd (setNode k n st))"
proof -
  have "lines_of (spec_write (document st) k (abs_node n))"
    using assms(2,3) spec_set_lines [of "document st" "abs_node n" "splitTreePath k"]
    by (simp add: spec_write_def store_lines_def split: sum.split)
  then show ?thesis using assms(2) by (simp add: store_lines_def setNode_document [OF assms(1)])
qed

lemma Set_lines:
  assumes "parser_keeps_lines (gjsonParse L)" "store_ok st" "store_lines st" "one_line k"
  shows "store_lines (snd (Set L k v st))"
proof (cases "valueToNode L v")
  case (Inl e)
  then show ?thesis using assms(3) by (simp add: Set_def split: option.split)
next
  case (Inr n)
  have n: "lines_of (abs_node n)" by (rule value_lines [OF assms(1) Inr])
  then have "store_lines (snd (setNode k n st))" "one_line (storedText n)"
    using setNode_lines [OF assms(2,3)] node_text_line by (simp_all add: storedText_tree)
  then show ?thesis using assms(3,4) Inr append_lines
    by (auto simp: Set_def Let_def split: option.split prod.split)
qed

lemma SetRaw_lines:
  assumes "parser_keeps_lines (gjsonParse L)" "store_ok st" "store_lines st" "one_line k"
  shows "store_lines (snd (SetRaw L k raw st))"
proof (cases "canonicalScalar (trim_space raw)")
  case None
  then show ?thesis using assms Set_lines [OF assms] by (simp add: SetRaw_def split: option.split sum.split)
next
  case (Some t)
  then have t: "one_line t" by (rule scalar_line)
  then have "store_lines (snd (setNode k (Leaf t) st))"
    by (intro setNode_lines [OF assms(2,3)]) (simp add: lines_of_def)
  then show ?thesis using assms(3,4) Some t append_lines
    by (auto simp: SetRaw_def split: option.split prod.split)
qed

lemma delonly_lines: "store_ok st \<Longrightarrow> store_lines st \<Longrightarrow> store_lines (delonly k st)"
  by (simp add: store_lines_def delonly_document spec_remove_def spec_del_lines)

lemma Del_lines: "store_ok st \<Longrightarrow> store_lines st \<Longrightarrow> one_line k \<Longrightarrow> store_lines (snd (Del k st))"
  using delonly_lines [of st k] append_lines by (simp add: Del_def split: option.split)

lemma lookup_lines:
  assumes "store_ok st" "store_lines st" "treeLookupPath (Obj (configRoot st)) k = Some n"
  shows "lines_of (abs_node n)"
proof -
  have "spec_get (document st) (splitTreePath k) = Some (abs_node n)"
    using abs_treeLookup [OF store_ok_wf [OF assms(1)]] assms(3)
    unfolding treeLookupPath_segs document_def by simp
  then show ?thesis using texts_get lines_mono assms(2) unfolding store_lines_def by blast
qed

lemma cloneonly_lines:
  assumes "parser_keeps_lines (gjsonParse L)" "store_ok st" "store_lines st" "cloneonly L fk tk st = (v, st')"
  shows "store_lines st' \<and> one_line v"
proof (cases "treeLookupPath (Obj (configRoot st)) fk")
  case None
  then show ?thesis using assms by (simp add: cloneonly_def)
next
  case (Some n)
  have n: "lines_of (abs_node n)" by (rule lookup_lines [OF assms(2,3) Some])
  have t: "one_line (tree_text n)" by (rule node_text_line [OF n])
  have "store_lines (snd (setNode tk (Leaf (tree_text n)) st))"
    using t by (intro setNode_lines [OF assms(2,3)]) (simp add: lines_of_def)
  moreover have "store_lines (snd (setrawonly L tk (tree_text n) st))"
    unfolding setrawonly_def by (intro setNode_lines [OF assms(2,3)] raw_lines assms(1) t)
  ultimately show ?thesis using assms(3,4) Some t
    by (auto simp: cloneonly_def Let_def appendTree_def simp del: tree_text.simps(2-) split: node.splits prod.splits option.splits if_splits)
qed

lemma Clone_lines:
  assumes "parser_keeps_lines (gjsonParse L)" "store_ok st" "store_lines st" "one_line tk"
  shows "store_lines (snd (Clone L fk tk st))"
  using assms cloneonly_lines [OF assms(1-3), of fk tk] append_lines
  by (auto simp: Clone_def split: option.split prod.split)

text \<open>The key an operation writes.\<close>

fun op_key :: "op \<Rightarrow> bytes" where
  "op_key (OpSet k v) = k"
| "op_key (OpSetRaw k raw) = k"
| "op_key (OpDel k) = k"
| "op_key (OpClone fk tk) = tk"

lemma run_op_lines:
  assumes "parser_keeps_lines (gjsonParse L)" "store_ok st" "store_lines st" "one_line (op_key x)"
  shows "store_lines (snd (run_op L x st))"
  using assms Set_lines [OF assms(1-3)] SetRaw_lines [OF assms(1-3)] Del_lines [OF assms(2,3)] Clone_lines [OF assms(1-3)]
  by (cases x) simp_all

lemma run_ops_lines:
  "parser_keeps_lines (gjsonParse L) \<Longrightarrow> store_ok st \<Longrightarrow> store_lines st \<Longrightarrow> ops_read L xs st \<Longrightarrow>
    \<forall>x \<in> set xs. one_line (op_key x) \<Longrightarrow> store_lines (run_ops L xs st)"
proof (induction xs arbitrary: st)
  case (Cons x xs)
  then show ?case using run_op_lines [of L st x] run_op_ok [of st L x] by (simp add: run_ops_def)
qed (simp add: run_ops_def)

text \<open>An operation queues writes and deletions only.\<close>

definition plain_row :: "persistable \<Rightarrow> bool" where
  "plain_row r \<longleftrightarrow> command r = SetRawCmd \<or> command r = DelCmd"

lemma append_plain: "list_all plain_row (persists st) \<Longrightarrow> plain_row r \<Longrightarrow> list_all plain_row (persists (appendAOF r st))"
  by (simp add: appendAOF_def plain_row_def)

lemma plain_mk [simp]: "plain_row (mk_row SetRawCmd k v)" "plain_row (mk_row DelCmd k v)"
  by (simp_all add: plain_row_def mk_row_def)

lemma setNode_plain:
  "list_all plain_row (persists st) \<Longrightarrow> setNode k n st = (r, st') \<Longrightarrow> list_all plain_row (persists st')"
  using persists_setNode(1) [of k n st] by simp

lemma Set_plain: "list_all plain_row (persists st) \<Longrightarrow> list_all plain_row (persists (snd (Set L k v st)))"
  using setNode_plain [of st k] append_plain
  by (auto simp: Set_def Let_def split: option.split sum.split prod.split)

lemma SetRaw_plain: "list_all plain_row (persists st) \<Longrightarrow> list_all plain_row (persists (snd (SetRaw L k raw st)))"
  using setNode_plain [of st k] append_plain Set_plain
  by (auto simp: SetRaw_def Let_def split: option.split sum.split prod.split)

lemma cloneonly_plain:
  "list_all plain_row (persists st) \<Longrightarrow> cloneonly L fk tk st = (v, st') \<Longrightarrow> list_all plain_row (persists st')"
  by (auto simp: cloneonly_def Let_def setrawonly_def dest: setNode_plain
      split: option.splits node.splits prod.splits if_splits)

lemma run_op_plain: "list_all plain_row (persists st) \<Longrightarrow> list_all plain_row (persists (snd (run_op L x st)))"
  using Set_plain SetRaw_plain append_plain cloneonly_plain [of st L]
  by (cases x) (auto simp: Del_def Clone_def split: option.split prod.split)

lemma run_ops_plain: "list_all plain_row (persists st) \<Longrightarrow> list_all plain_row (persists (run_ops L xs st))"
  by (induction xs arbitrary: st) (simp_all add: run_ops_def run_op_plain)

lemma ops_row_ok:
  assumes "parser_keeps_lines (gjsonParse L)" "store_ok st" "lines_of (document st)" "persists st = []"
    and "ops_read L xs st" "\<forall>x \<in> set xs. one_line (op_key x)"
  shows "list_all row_ok (persists (run_ops L xs st))"
proof -
  have "store_lines (run_ops L xs st)" using assms by (intro run_ops_lines) (simp_all add: store_lines_def)
  moreover have "list_all plain_row (persists (run_ops L xs st))" using assms(4) by (intro run_ops_plain) simp
  ultimately show ?thesis
    by (auto simp: list_all_iff store_lines_def row_lines_def plain_row_def row_ok_def one_line_def)
qed

end
