(* ===== verification/StoreProps.thy ===== *)
theory StoreProps
  imports TreeProps LineProps
begin

text \<open>
  The properties of the store and its log.
\<close>

subsection \<open>A small store for the examples\<close>

text \<open>Libraries that find no container in any text: enough for scalars.\<close>

definition sample_libs :: libs where
  "sample_libs = \<lparr>gjsonParse = GOther, gjsonGet = (\<lambda>_ _. []), goDecode = (\<lambda>_. DecEOF), goUnmarshal = (\<lambda>_. None)\<rparr>"

lemma trim_true: "trim_space ''true'' = ''true''"
  by (rule trim_space_printable) (simp_all add: printable_def)

lemma split_k: "splitTreePath ''k'' = [''k'']"
  by (simp add: splitTreePath_def)

definition sample_store :: store where
  "sample_store = snd (SetRaw sample_libs ''k'' ''true'' init_store)"

lemma sample_setNode:
  "setNode ''k'' (Leaf ''true'') init_store =
     (None, init_store\<lparr>configRoot := obj_put ''k'' (Leaf ''true'') newTreeObj, configStale := True\<rparr>)"
  by (simp add: setNode_def treeSetPath_segs split_k treeSet_Obj init_store_def)

lemma sample_SetRaw:
  "SetRaw sample_libs ''k'' ''true'' init_store =
     (None, appendAOF (mk_row SetRawCmd ''k'' ''true'')
        (init_store\<lparr>configRoot := obj_put ''k'' (Leaf ''true'') newTreeObj, configStale := True\<rparr>))"
  using sample_setNode
  by (simp add: SetRaw_def Let_def trim_true canonicalScalar_def checkWritable_def)
    (simp add: init_store_def)

lemma sample_store_ok: "store_ok sample_store"
  unfolding sample_store_def by (rule SetRaw_ok [OF store_ok_init])

lemma sample_store_fields:
  "configRoot sample_store = obj_put ''k'' (Leaf ''true'') newTreeObj"
  "persists sample_store = [mk_row SetRawCmd ''k'' ''true'']"
  "aofEnabled sample_store" "\<not> writesRefused sample_store" "fsyncPolicy sample_store = FsyncEverysec"
  unfolding sample_store_def sample_SetRaw by (simp_all add: appendAOF_def init_store_def)

definition sample_ops :: "op list" where
  "sample_ops = [OpSetRaw ''k'' ''true'', OpDel ''k'']"

lemma sample_ops_read: "ops_read sample_libs sample_ops init_store"
  by (simp add: sample_ops_def trim_true canonicalScalar_def)

lemma sample_lines:
  "parser_keeps_lines (gjsonParse sample_libs)" "lines_of (document init_store)"
  "\<forall>x \<in> set sample_ops. one_line (op_key x)"
  using init_lines by (simp_all add: parser_keeps_lines_def sample_libs_def sample_ops_def store_lines_def)

subsection \<open>Operations\<close>

text \<open>C30. Every operation leaves a document whose objects are well formed and whose leaves are
  canonical text, and never a stale snapshot that is taken for the current one.\<close>

theorem operations_keep_store:
  assumes "store_ok st" and "snapshot_ok st" and "op_reads L x st"
  shows "store_ok (snd (run_op L x st)) \<and> snapshot_ok (snd (run_op L x st)) \<and>
    store_ok (snd (Get L k st)) \<and> snapshot_ok (snd (Get L k st))"
  using run_op_ok [OF assms(1,3)] assms snapshot_ok_Set snapshot_ok_SetRaw snapshot_ok_Del snapshot_ok_Clone
    snapshot_ok_Get [OF assms(2)] Get_keeps [of L k st]
  by (cases x) (simp_all add: store_ok_def)

theorem operations_keep_store_witness: "store_ok (snd (run_op sample_libs (OpDel ''k'') init_store))"
  using operations_keep_store [OF store_ok_init snapshot_ok_init, of sample_libs "OpDel ''k''" "[]"] by simp

text \<open>C32. A read of the whole document returns the text of the current document, whether it is
  serialized afresh or taken from the kept snapshot; a read of a key returns the text of the
  value there, and nothing for a missing one.\<close>

theorem get_returns_current_text:
  assumes "store_ok st" and "snapshot_ok st"
  shows "fst (Get L [] st) = doc_text (document st) \<and>
    (k \<noteq> [] \<and> isPlainPath k \<longrightarrow>
      fst (Get L k st) = (case spec_get (document st) (splitTreePath k) of None \<Rightarrow> [] | Some d \<Rightarrow> doc_text d))"
proof -
  have "fst (Get L [] st) = doc_text (document st)"
    using snapshot_text [OF assms(2)] by (simp add: Get_def split: prod.split)
  have "spec_get (document st) (splitTreePath k) = map_option abs_node (treeLookupPath (Obj (configRoot st)) k)"
    unfolding treeLookupPath_segs document_def by (rule abs_treeLookup [OF store_ok_wf [OF assms(1)]])
  then have "k \<noteq> [] \<Longrightarrow> isPlainPath k \<Longrightarrow>
      fst (Get L k st) = (case spec_get (document st) (splitTreePath k) of None \<Rightarrow> [] | Some d \<Rightarrow> doc_text d)"
    using tree_text_doc
    by (auto simp: Get_def appendTree_def simp del: tree_text.simps doc_text.simps abs_node.simps
        split: option.split node.split) (metis tree_text.simps(1))
  with \<open>fst (Get L [] st) = doc_text (document st)\<close> show ?thesis by blast
qed

theorem get_returns_current_text_witness: "fst (Get sample_libs [] init_store) = ''{}''"
  using get_returns_current_text [OF store_ok_init snapshot_ok_init, of sample_libs, THEN conjunct1]
  by (simp only: document_init) simp

text \<open>A write that fails, for whatever reason, leaves the store exactly as it was, the log
  queue included.\<close>

theorem failed_write_changes_nothing:
  assumes "run_op L x st = (Some e, st')"
  shows "st' = st"
  using assms Set_failed SetRaw_failed
  by (cases x) (auto simp: Del_def Clone_def split: option.splits prod.splits)

theorem failed_write_changes_nothing_witness:
  "snd (run_op sample_libs (OpSet ''k'' (GFloat NaN)) init_store) = init_store"
proof -
  have "run_op sample_libs (OpSet ''k'' (GFloat NaN)) init_store =
      (Some (JSONError (UnsupportedNumber NaN)), init_store)"
    by (simp add: Set_def checkWritable_def valueToNode_def floatNode_def) (simp add: init_store_def)
  then show ?thesis using failed_write_changes_nothing by (metis snd_conv)
qed

text \<open>Floats that JSON cannot represent are refused, and no other float is.\<close>

theorem nonfinite_refused:
  "(\<exists>e. setonly L k (GFloat f) st = (Some (JSONError e), st)) \<longleftrightarrow> f = NaN \<or> (\<exists>b. f = Inf b)"
proof (cases f)
  case (Fin s m e)
  then show ?thesis
    by (cases rule: setNode_cases [of st k "Leaf (formatFloat f)"])
      (simp_all add: setonly_def valueToNode_def floatNode_def del: formatFloat.simps)
qed (auto simp: setonly_def valueToNode_def floatNode_def)

text \<open>\<open>Clone\<close> reports success when the target path cannot be written: it does nothing and
  returns no error.\<close>

theorem clone_ignores_target_error:
  assumes "checkWritable st = None"
    and "treeLookupPath (Obj (configRoot st)) fk = Some (Leaf t)"
    and "treeSetPath (Obj (configRoot st)) tk (Leaf t) = Inl e"
  shows "Clone L fk tk st = (None, st)"
  using assms by (simp add: Clone_def cloneonly_def setNode_def)

theorem clone_ignores_target_error_witness:
  "Clone sample_libs ''a.0'' ''a.x'' (init_store\<lparr>configRoot := sample_obj\<rparr>) =
     (None, init_store\<lparr>configRoot := sample_obj\<rparr>)"
proof (rule clone_ignores_target_error [where t = "''1''" and e = "NonNumericKey ''x''"])
  show "checkWritable (init_store\<lparr>configRoot := sample_obj\<rparr>) = None"
    by (simp add: checkWritable_def init_store_def)
  show "treeLookupPath (Obj (configRoot (init_store\<lparr>configRoot := sample_obj\<rparr>))) ''a.0'' = Some (Leaf ''1'')"
    by (simp add: treeLookupPath_segs split_sample get_sample treeStep_def atoi_small)
  show "treeSetPath (Obj (configRoot (init_store\<lparr>configRoot := sample_obj\<rparr>))) ''a.x'' (Leaf ''1'') =
      Inl (NonNumericKey ''x'')"
    by (simp add: treeSetPath_segs split_sample treeSet_eqs obj_child_def get_sample container_or_new_def
        isTreeContainer_def atoi_small)
qed

subsection \<open>The log\<close>

text \<open>C2. Replaying the records that a sequence of operations queued, from the document the
  sequence started with, gives the document it left in memory. The keys hold no newline, as no key
  a client can send does; whatever the values hold, no record reaches past its lines.\<close>

theorem replay_gives_memory:
  assumes "store_ok st" "aofEnabled st" "persists st = []"
    and "parser_keeps_lines (gjsonParse L)" "lines_of (document st)" "\<forall>x \<in> set ops. one_line (op_key x)"
    and "ops_read L ops st"
    and "store_ok st0" "document st0 = document st"
  shows "document (fst (replay_loop L (log_bytes (persists (run_ops L ops st))) st0 0)) =
    document (run_ops L ops st)"
proof -
  let ?rows = "persists (run_ops L ops st)"
  have ok: "list_all row_ok ?rows" by (rule ops_row_ok [OF assms(4,1,5,3,7,6)])
  have "replay_loop L (log_bytes ?rows) st0 0 = (fold (apply_row L) ?rows st0, length (log_bytes ?rows))"
    using replay_rows [OF ok, of L "[]" st0 0] by (simp add: replay_end)
  moreover have "document (run_ops L ops st) = fold (doc_apply L) ?rows (document st)"
    using logged_ops [OF assms(1,2,7)] assms(3) by auto
  ultimately show ?thesis
    using apply_rows_document [OF assms(8)] assms(9) by simp
qed

theorem replay_gives_memory_witness:
  "document (fst (replay_loop sample_libs
     (log_bytes (persists (run_ops sample_libs sample_ops init_store))) init_store 0)) =
   document (run_ops sample_libs sample_ops init_store)"
  by (rule replay_gives_memory [OF store_ok_init _ _ sample_lines sample_ops_read store_ok_init refl])
    (simp_all add: init_store_def)



end
