(* ===== verification/Persist.thy ===== *)
theory Persist
  imports Durability
begin

text \<open>
  The writer goroutine \<open>persist\<close> of \<open>internal/db/db.go\<close> and the vacuum it runs. What the
  operating system answers is an argument of each function: how many bytes a write wrote and
  whether it failed, whether a truncation, an fsync, a rename succeeded. \<open>log.Fatalf\<close>
  exits the process: it sets \<open>fatal\<close>, after which nothing more happens.
\<close>

subsection \<open>State\<close>

text \<open>
  \<open>mem\<close> is the package state; \<open>buf\<close>, \<open>fsize\<close>, \<open>waiters\<close> and \<open>unsynced\<close> are the
  goroutine's variables. \<open>opened\<close> says \<open>db != nil\<close>; \<open>aof\<close> is the content of the
  append-only file, \<open>synced\<close> the content a power failure leaves; \<open>dir\<close> the names in the
  data directory. \<open>closed\<close> lists the \<open>done\<close> channels closed so far.
\<close>

record proc =
  mem :: store
  buf :: bytes
  fsize :: nat
  waiters :: "nat list"
  unsynced :: bool
  opened :: bool
  aof :: bytes
  synced :: bytes
  dir :: "bytes list"
  closed :: "nat list"
  fatal :: bool
  exited :: bool

datatype write_result = WriteResult (written: nat) (write_err: bool)

text \<open>The answers to the system calls of one step of the writer.\<close>

record answers =
  on_write :: write_result
  on_truncate :: bool
  on_sync :: bool
  on_stat :: bool
  on_temp_open :: bool
  on_temp_write :: bool
  on_link :: bool
  on_rename :: bool
  on_dirsync :: bool
  on_readdir :: bool
  on_remove :: "bytes \<Rightarrow> bool"
  on_reopen :: bool
  stamp :: bytes

definition statSize :: "answers \<Rightarrow> proc \<Rightarrow> proc" where
  "statSize io p = p\<lparr>fsize := (if opened p \<and> on_stat io then length (aof p) else 0)\<rparr>"

subsection \<open>Writing the buffer\<close>

text \<open>
  The first result says whether there was an error. A write that failed part-way is cut back
  off the file; when even that fails the process exits.
\<close>

definition flush :: "answers \<Rightarrow> proc \<Rightarrow> bool \<times> proc" where
  "flush io p =
     (if buf p = [] \<or> \<not> opened p then (False, p)
      else
        let n = min (written (on_write io)) (length (buf p));
            err = write_err (on_write io) \<or> n < length (buf p);
            p1 = p\<lparr>aof := aof p @ take n (buf p)\<rparr>
        in if err then
             (if 0 < n then
                (if on_truncate io then (True, p1\<lparr>aof := take (fsize p) (aof p1)\<rparr>)
                 else (True, p1\<lparr>fatal := True\<rparr>))
              else (True, p1))
           else
             (False, p1\<lparr>fsize := fsize p + n, buf := [], unsynced := True,
                        mem := (mem p)\<lparr>writesRefused := False\<rparr>\<rparr>))"

text \<open>\<open>failed\<close> reports whether to stop.\<close>

definition failed :: "proc \<Rightarrow> bool \<times> proc" where
  "failed p =
     (if fsyncPolicy (mem p) = FsyncAlways then (True, p\<lparr>fatal := True\<rparr>)
      else (False, p\<lparr>mem := (mem p)\<lparr>writesRefused := True\<rparr>\<rparr>))"

definition syncNow :: "answers \<Rightarrow> proc \<Rightarrow> bool \<times> proc" where
  "syncNow io p =
     (if \<not> unsynced p \<or> \<not> opened p then (False, p)
      else if \<not> on_sync io then (True, p\<lparr>fatal := True\<rparr>)
      else (False, p\<lparr>unsynced := False, synced := aof p\<rparr>))"

definition release :: "proc \<Rightarrow> proc" where
  "release p = p\<lparr>closed := closed p @ waiters p, waiters := []\<rparr>"

subsection \<open>Vacuum\<close>

definition dbfn :: bytes where
  "dbfn = ''data.aof''"

definition isBackupName :: "bytes \<Rightarrow> bytes \<Rightarrow> bool" where
  "isBackupName base name \<longleftrightarrow>
     (let pre = base @ ''.'' in
      has_prefix name pre \<and>
      (let st = drop (length pre) name in length st = 12 \<and> list_all is_digit st))"

text \<open>The loop over the names, oldest first; the result is the directory.\<close>

fun prune_loop :: "nat \<Rightarrow> (bytes \<Rightarrow> bool) \<Rightarrow> bytes list \<Rightarrow> bytes list \<Rightarrow> bytes list" where
  "prune_loop keep rm [] d = d"
| "prune_loop keep rm (n # ns) d =
     (if keep < length (n # ns)
      then prune_loop keep rm ns (if rm n then removeAll n d else d)
      else d)"

definition pruneBackups :: "answers \<Rightarrow> proc \<Rightarrow> proc" where
  "pruneBackups io p =
     (if backups (mem p) < 0 \<or> \<not> on_readdir io then p
      else p\<lparr>dir := prune_loop (nat (backups (mem p))) (on_remove io)
                (sort (filter (isBackupName dbfn) (dir p))) (dir p)\<rparr>)"

text \<open>
  The temporary file: the snapshot is taken once it is open. The result says whether it was
  written, synced and closed.
\<close>

definition writeSnapshotFile :: "answers \<Rightarrow> proc \<Rightarrow> (bytes option) \<times> proc" where
  "writeSnapshotFile io p =
     (if \<not> on_temp_open io then (None, p)
      else (case snapshot (mem p) of
              (s, st) \<Rightarrow>
                (if on_temp_write io then Some (''*'' @ [nl] @ s @ [nl]) else None, p\<lparr>mem := st\<rparr>)))"

definition reopen :: "answers \<Rightarrow> proc \<Rightarrow> bool \<times> proc" where
  "reopen io p =
     (let p1 = (if opened p then p\<lparr>opened := False, synced := (if on_sync io then aof p else synced p)\<rparr> else p)
      in if on_reopen io then (False, p1\<lparr>opened := True\<rparr>) else (True, p1))"

text \<open>
  The part of \<open>doEraseAndDump\<close> between the temporary file and the reopening: the old file is
  synced and closed, linked under its backup name, and replaced by the rename. The backup
  is a hard link, so the file keeps its content until then.
\<close>

definition swap_in :: "answers \<Rightarrow> bytes \<Rightarrow> proc \<Rightarrow> proc" where
  "swap_in io content p =
     (let p1 = (if opened p
                then p\<lparr>synced := (if on_sync io then aof p else synced p), opened := False\<rparr>
                else p);
          name = dbfn @ ''.'' @ stamp io;
          p2 = p1\<lparr>dir := removeAll name (dir p1) @ (if on_link io then [name] else [])\<rparr>;
          p3 = (if on_rename io
                then p2\<lparr>aof := content, synced := (if on_dirsync io then content else synced p2)\<rparr>
                else p2)
      in pruneBackups io p3)"

text \<open>The first result says whether there was an error.\<close>

definition doEraseAndDump :: "answers \<Rightarrow> proc \<Rightarrow> bool \<times> proc" where
  "doEraseAndDump io p =
     (case writeSnapshotFile io p of
        (None, p1) \<Rightarrow> (True, p1)
      | (Some content, p1) \<Rightarrow>
          (case reopen io (swap_in io content p1) of
             (True, p2) \<Rightarrow> (True, p2)
           | (False, p2) \<Rightarrow> (\<not> on_rename io, p2)))"

subsection \<open>One record\<close>

text \<open>
  The function \<open>write\<close> of the goroutine: the record has just been received. \<open>io\<close> answers
  the calls for the record itself, \<open>io2\<close> those of the flush that bounds the buffer.
\<close>

definition handled :: "persistable \<Rightarrow> proc \<Rightarrow> proc" where
  "handled row p =
     p\<lparr>waiters := waiters p @ (case done_chan row of Some c \<Rightarrow> [c] | None \<Rightarrow> []),
       mem := (mem p)\<lparr>wg := wg (mem p) - 1\<rparr>\<rparr>"

definition bound_buf :: "answers \<Rightarrow> proc \<Rightarrow> bool \<times> proc" where
  "bound_buf io p =
     (if 64 * 1024 \<le> length (buf p) then
        (case flush io p of
           (True, p1) \<Rightarrow> failed p1
         | (False, p1) \<Rightarrow> (False, p1))
      else (False, p))"

definition dump :: "answers \<Rightarrow> proc \<Rightarrow> bool \<times> proc" where
  "dump io p =
     (let (stop, p1) = (case flush io p of (True, p1) \<Rightarrow> failed p1 | (False, p1) \<Rightarrow> (False, p1)) in
      if stop then (True, p1)
      else
        (case doEraseAndDump io p1 of
           (True, p2) \<Rightarrow> (False, statSize io p2)
         | (False, p2) \<Rightarrow>
             (False, statSize io
                (p2\<lparr>buf := [], unsynced := False, mem := (mem p2)\<lparr>writesRefused := False\<rparr>\<rparr>))))"

definition close_writer :: "answers \<Rightarrow> proc \<Rightarrow> proc" where
  "close_writer io p =
     (case flush io p of
        (True, p1) \<Rightarrow>
          (case failed p1 of
             (True, p2) \<Rightarrow> p2\<lparr>exited := True\<rparr>
           | (False, p2) \<Rightarrow> release (p2\<lparr>mem := (mem p2)\<lparr>wg := wg (mem p2) - 1\<rparr>, exited := True\<rparr>))
      | (False, p1) \<Rightarrow>
          (case syncNow io p1 of
             (True, p2) \<Rightarrow> p2\<lparr>exited := True\<rparr>
           | (False, p2) \<Rightarrow> release (p2\<lparr>mem := (mem p2)\<lparr>wg := wg (mem p2) - 1\<rparr>, exited := True\<rparr>)))"

definition write_row :: "answers \<Rightarrow> answers \<Rightarrow> persistable \<Rightarrow> proc \<Rightarrow> proc" where
  "write_row io io2 row p =
     (case command row of
        CloseCmd \<Rightarrow> close_writer io p
      | c \<Rightarrow>
          let (stop, p1) =
            (if c = DumpCmd then dump io p
             else (False, p\<lparr>buf := buf p @ (if opened p then record_bytes row else [])\<rparr>))
          in if stop then p1\<lparr>exited := True\<rparr>
             else (case bound_buf io2 (handled row p1) of
                     (True, p2) \<Rightarrow> p2\<lparr>exited := True\<rparr>
                   | (False, p2) \<Rightarrow> p2))"

subsection \<open>The end of a batch, and the ticker\<close>

definition commit :: "answers \<Rightarrow> proc \<Rightarrow> proc" where
  "commit io p =
     (case flush io p of
        (True, p1) \<Rightarrow>
          (case failed p1 of
             (True, p2) \<Rightarrow> p2\<lparr>exited := True\<rparr>
           | (False, p2) \<Rightarrow> release p2)
      | (False, p1) \<Rightarrow>
          (if fsyncPolicy (mem p1) = FsyncAlways then
             (case syncNow io p1 of
                (True, p2) \<Rightarrow> p2\<lparr>exited := True\<rparr>
              | (False, p2) \<Rightarrow> release p2)
           else release p1))"

definition tick :: "answers \<Rightarrow> proc \<Rightarrow> proc" where
  "tick io p =
     (case flush io p of
        (True, p1) \<Rightarrow>
          (case failed p1 of
             (True, p2) \<Rightarrow> p2\<lparr>exited := True\<rparr>
           | (False, p2) \<Rightarrow> p2)
      | (False, p1) \<Rightarrow>
          (if fsyncPolicy (mem p1) = FsyncEverysec then
             (case syncNow io p1 of
                (True, p2) \<Rightarrow> p2\<lparr>exited := True\<rparr>
              | (False, p2) \<Rightarrow> p2)
           else p1))"

subsection \<open>Starting and stopping\<close>

text \<open>\<open>persist\<close> up to its loop.\<close>

definition persist_start :: "answers \<Rightarrow> proc \<Rightarrow> proc" where
  "persist_start io p =
     statSize io (p\<lparr>buf := [], waiters := [], unsynced := False, exited := False\<rparr>)"

text \<open>The request \<open>stopPersist\<close> queues; it then waits until the goroutine has exited.\<close>

definition stopPersist :: "proc \<Rightarrow> proc" where
  "stopPersist p =
     (if exited p then p
      else p\<lparr>mem := (mem p)\<lparr>persists := persists (mem p) @ [mk_row CloseCmd [] []],
                            wg := wg (mem p) + 1\<rparr>\<rparr>)"

text \<open>The end of \<open>Close\<close>, once the goroutine has exited.\<close>

definition close_file :: "answers \<Rightarrow> proc \<Rightarrow> proc" where
  "close_file io p =
     (if opened p then p\<lparr>synced := (if on_sync io then aof p else synced p), opened := False\<rparr> else p)"

text \<open>\<open>Init\<close>, once an earlier goroutine has exited; \<open>mkdirOk\<close> answers \<open>MkdirAll\<close>.\<close>

definition Init :: "libs \<Rightarrow> bool \<Rightarrow> answers \<Rightarrow> proc \<Rightarrow> proc" where
  "Init L mkdirOk io p =
     (if \<not> aofEnabled (mem p) then persist_start io p
      else if \<not> mkdirOk then p\<lparr>fatal := True\<rparr>
      else
        (case reopen io p of
           (True, p1) \<Rightarrow> p1\<lparr>fatal := True\<rparr>
         | (False, p1) \<Rightarrow>
             (case replayAOF L (on_stat io) (on_truncate io) (on_sync io) (aof p1) (mem p1) of
                (ok, st, f) \<Rightarrow>
                  let p2 = p1\<lparr>mem := st, aof := f,
                      synced := (if ok \<and> f \<noteq> aof p1 then f else synced p1)\<rparr>
                  in if ok then persist_start io p2 else p2\<lparr>fatal := True\<rparr>)))"

subsection \<open>Interleaving\<close>

text \<open>
  The steps of the goroutine: receive the oldest queued record, end the batch when the
  queue is found empty, or take a tick between batches. The label is the record received; the
  flag says whether a batch is under way. Clients run operations at any time in between; the
  record a client queues stays in the queue until it is received.
\<close>

inductive pstep :: "libs \<Rightarrow> bool \<times> proc \<Rightarrow> persistable list \<Rightarrow> bool \<times> proc \<Rightarrow> bool" for L where
  receive:
    "\<not> fatal p \<Longrightarrow> \<not> exited p \<Longrightarrow> persists (mem p) = row # rest \<Longrightarrow>
      pstep L (b, p) [row] (True, write_row io io2 row (p\<lparr>mem := (mem p)\<lparr>persists := rest\<rparr>\<rparr>))"
| batch_end:
    "\<not> fatal p \<Longrightarrow> \<not> exited p \<Longrightarrow> persists (mem p) = [] \<Longrightarrow> pstep L (True, p) [] (False, commit io p)"
| ticked:
    "\<not> fatal p \<Longrightarrow> \<not> exited p \<Longrightarrow> pstep L (False, p) [] (False, tick io p)"
| client:
    "\<not> fatal p \<Longrightarrow> pstep L (b, p) [] (b, p\<lparr>mem := snd (run_op L x (mem p))\<rparr>)"
| reader:
    "\<not> fatal p \<Longrightarrow> pstep L (b, p) [] (b, p\<lparr>mem := snd (Get L k (mem p))\<rparr>)"
| vacuum:
    "\<not> fatal p \<Longrightarrow> pstep L (b, p) [] (b, p\<lparr>mem := Vacuum (mem p)\<rparr>)"
| stop_request:
    "\<not> fatal p \<Longrightarrow> pstep L (b, p) [] (b, stopPersist p)"

inductive psteps :: "libs \<Rightarrow> bool \<times> proc \<Rightarrow> persistable list \<Rightarrow> bool \<times> proc \<Rightarrow> bool" for L where
  psteps_refl: "psteps L s [] s"
| psteps_step: "psteps L s rows s1 \<Longrightarrow> pstep L s1 r s2 \<Longrightarrow> psteps L s (rows @ r) s2"

end
