(* ===== verification/PersistLaws.thy ===== *)
theory PersistLaws
  imports Persist
begin

text \<open>
  What the writer guarantees: the file is the log of what was received, always cut on a
  record boundary; under \<open>always\<close> a channel is closed only once its record is on disk; a
  vacuum leaves the old file or the new one; pruning keeps the newest backups.
\<close>

subsection \<open>The writer's functions, case by case\<close>

lemma flush_cases:
  obtains (idle) "flush io p = (False, p)" "buf p = [] \<or> \<not> opened p"
  | (ok) "opened p" "buf p \<noteq> []" "flush io p =
      (False, p\<lparr>aof := aof p @ buf p, fsize := fsize p + length (buf p), buf := [], unsynced := True,
         mem := (mem p)\<lparr>writesRefused := False\<rparr>\<rparr>)"
  | (none) "opened p" "flush io p = (True, p)"
  | (cut) n where "opened p" "0 < n" "n \<le> length (buf p)"
      "flush io p = (True, p\<lparr>aof := take (fsize p) (aof p @ take n (buf p))\<rparr>)"
  | (stuck) n where "opened p" "n \<le> length (buf p)"
      "flush io p = (True, p\<lparr>aof := aof p @ take n (buf p), fatal := True\<rparr>)"
proof (cases "buf p = [] \<or> \<not> opened p")
  case True
  then show ?thesis by (intro idle) (auto simp: flush_def)
next
  case False
  let ?n = "min (written (on_write io)) (length (buf p))"
  let ?err = "write_err (on_write io) \<or> ?n < length (buf p)"
  consider "\<not> ?err" | "?err" "?n = 0" | "?err" "0 < ?n" "on_truncate io"
    | "?err" "0 < ?n" "\<not> on_truncate io" by blast
  then show ?thesis
  proof cases
    case 1
    then have "?n = length (buf p)" by linarith
    with 1 False show ?thesis by (intro ok) (auto simp: flush_def Let_def)
  next
    case 2
    have "take ?n (buf p) = []" using 2(2) by simp
    with 2 False show ?thesis by (intro none) (simp_all add: flush_def Let_def del: min_0_1)
  next
    case 3
    with False show ?thesis by (intro cut [of ?n]) (simp_all add: flush_def Let_def)
  next
    case 4
    with False show ?thesis by (intro stuck [of ?n]) (simp_all add: flush_def Let_def)
  qed
qed

lemma failed_always: "fsyncPolicy (mem p) = FsyncAlways \<Longrightarrow> failed p = (True, p\<lparr>fatal := True\<rparr>)"
  by (simp add: failed_def)

lemma failed_other:
  "fsyncPolicy (mem p) \<noteq> FsyncAlways \<Longrightarrow>
    failed p = (False, p\<lparr>mem := (mem p)\<lparr>writesRefused := True\<rparr>\<rparr>)"
  by (simp add: failed_def)

subsection \<open>The invariant of the log\<close>

definition row_chans :: "persistable list \<Rightarrow> nat set" where
  "row_chans rows = {c. \<exists>row \<in> set rows. done_chan row = Some c}"

lemma row_chans_simps [simp]:
  "row_chans [] = {}" "row_chans (xs @ ys) = row_chans xs \<union> row_chans ys"
  "row_chans [row] = (case done_chan row of None \<Rightarrow> {} | Some c \<Rightarrow> {c})"
  by (auto simp: row_chans_def split: option.split)

text \<open>
  \<open>base\<close> and \<open>old\<close> are the file and the closed channels when the observation began,
  \<open>rows\<close> the records received since. While the process lives, file and buffer together are
  the log, the file ends on a record boundary and its size is known. What is durable is the
  log of some of the records, and under \<open>always\<close> these include every acknowledged one.
\<close>

definition durable_inv :: "bytes \<Rightarrow> nat list \<Rightarrow> persistable list \<Rightarrow> proc \<Rightarrow> bool" where
  "durable_inv base old rows p \<longleftrightarrow>
     (\<exists>pre post. rows = pre @ post \<and> synced p = base @ log_bytes pre \<and>
        (fsyncPolicy (mem p) = FsyncAlways \<longrightarrow> set (closed p) \<subseteq> set old \<union> row_chans pre))"

definition file_inv :: "bytes \<Rightarrow> persistable list \<Rightarrow> proc \<Rightarrow> bool" where
  "file_inv base rows p \<longleftrightarrow>
     (\<exists>n. aof p = take n (base @ log_bytes rows) \<and> length base \<le> n) \<and>
     (\<not> fatal p \<longrightarrow>
        (\<exists>pre post. rows = pre @ post \<and> aof p = base @ log_bytes pre \<and> buf p = log_bytes post) \<and>
        fsize p = length (aof p) \<and> (unsynced p \<or> synced p = aof p))"

definition log_inv :: "bytes \<Rightarrow> nat list \<Rightarrow> persistable list \<Rightarrow> proc \<Rightarrow> bool" where
  "log_inv base old rows p \<longleftrightarrow>
     opened p \<and> set (waiters p) \<subseteq> row_chans rows \<and> durable_inv base old rows p \<and> file_inv base rows p"

lemma log_bytes_Nil [simp]: "log_bytes [] = []"
  by (simp add: log_bytes_def)

lemma file_invI:
  assumes "aof p = base @ log_bytes pre" and "buf p = log_bytes post" and "rows = pre @ post"
    and "fsize p = length (aof p)" and "unsynced p \<or> synced p = aof p"
  shows "file_inv base rows p"
proof -
  have "aof p = take (length (aof p)) (base @ log_bytes rows)"
    using assms(1,3) by (simp add: log_bytes_append)
  with assms show ?thesis unfolding file_inv_def
    by (intro conjI exI [of _ "length (aof p)"] impI exI [of _ pre] exI [of _ post]) simp_all
qed

lemma durable_invI:
  "synced p = base @ log_bytes rows \<Longrightarrow>
    (fsyncPolicy (mem p) = FsyncAlways \<Longrightarrow> set (closed p) \<subseteq> set old \<union> row_chans rows) \<Longrightarrow>
    durable_inv base old rows p"
  unfolding durable_inv_def by (intro exI [of _ rows] exI [of _ "[]"]) simp

lemma durable_closed:
  "durable_inv base old rows p \<Longrightarrow> fsyncPolicy (mem p) = FsyncAlways \<Longrightarrow>
    set (closed p) \<subseteq> set old \<union> row_chans rows"
  by (fastforce simp: durable_inv_def)

lemma durable_more:
  assumes "durable_inv base old rows p" and "synced p' = synced p" and "closed p' = closed p"
    and "fsyncPolicy (mem p') = fsyncPolicy (mem p)"
  shows "durable_inv base old (rows @ ext) p'"
proof -
  from assms(1) obtain pre post where "rows = pre @ post" "synced p = base @ log_bytes pre"
    "fsyncPolicy (mem p) = FsyncAlways \<longrightarrow> set (closed p) \<subseteq> set old \<union> row_chans pre"
    by (auto simp: durable_inv_def)
  with assms(2-4) show ?thesis
    unfolding durable_inv_def by (intro exI [of _ pre] exI [of _ "post @ ext"]) simp
qed

lemma log_inv_fatal [intro]: "log_inv base old rows p \<Longrightarrow> log_inv base old rows (p\<lparr>fatal := True\<rparr>)"
  by (auto simp: log_inv_def durable_inv_def file_inv_def)

lemma log_inv_exited [simp]: "log_inv base old rows (p\<lparr>exited := e\<rparr>) = log_inv base old rows p"
  by (simp add: log_inv_def durable_inv_def file_inv_def)

lemma log_inv_mem:
  "fsyncPolicy st = fsyncPolicy (mem p) \<Longrightarrow>
    log_inv base old rows (p\<lparr>mem := st\<rparr>) = log_inv base old rows p"
  by (simp add: log_inv_def durable_inv_def file_inv_def)

lemma flush_policy: "fsyncPolicy (mem (snd (flush io p))) = fsyncPolicy (mem p)"
  by (cases rule: flush_cases [of io p]) auto

lemma log_inv_flush:
  assumes inv: "log_inv base old rows p" and alive: "\<not> fatal p"
  shows "log_inv base old rows (snd (flush io p))"
    and "\<not> fst (flush io p) \<Longrightarrow> \<not> fatal (snd (flush io p)) \<and> aof (snd (flush io p)) = base @ log_bytes rows"
proof -
  obtain pre post where split: "rows = pre @ post" "aof p = base @ log_bytes pre" "buf p = log_bytes post"
    and size: "fsize p = length (aof p)" "unsynced p \<or> synced p = aof p" "opened p"
    using inv alive by (auto simp: log_inv_def file_inv_def)
  have all: "aof p @ buf p = base @ log_bytes rows"
    using split by (simp add: log_bytes_append)
  then have len: "length (aof p) + length (buf p) = length base + length (log_bytes rows)"
    by (metis length_append)
  show "log_inv base old rows (snd (flush io p))"
  proof (cases rule: flush_cases [of io p])
    case ok
    have "file_inv base rows (snd (flush io p))"
      by (rule file_invI [where pre = rows and post = "[]"])
        (use len in \<open>simp_all add: ok(3) all size(1)\<close>)
    with inv ok(3) show ?thesis by (simp add: log_inv_def durable_inv_def)
  next
    case (cut n)
    then have "snd (flush io p) = p" using size(1) by simp
    with inv show ?thesis by simp
  next
    case (stuck n)
    have "aof p @ take n (buf p) = take (length (aof p) + n) (base @ log_bytes rows)"
      unfolding all [symmetric] by simp
    then have "file_inv base rows (snd (flush io p))"
      using stuck(3) split(2) by (auto simp: file_inv_def intro!: exI [of _ "length (aof p) + n"])
    with inv stuck(3) show ?thesis by (simp add: log_inv_def durable_inv_def)
  qed (use inv in simp_all)
  show "\<not> fst (flush io p) \<Longrightarrow> \<not> fatal (snd (flush io p)) \<and> aof (snd (flush io p)) = base @ log_bytes rows"
    using all alive size by (cases rule: flush_cases [of io p]) auto
qed

lemma failed_inv: "log_inv base old rows p \<Longrightarrow> log_inv base old rows (snd (failed p))"
  by (cases "fsyncPolicy (mem p) = FsyncAlways")
    (auto simp: failed_always failed_other log_inv_mem)

lemma syncNow_inv:
  assumes inv: "log_inv base old rows p" and all: "\<not> fatal p" "aof p = base @ log_bytes rows"
  shows "log_inv base old rows (snd (syncNow io p))"
    and "\<not> fst (syncNow io p) \<Longrightarrow>
      synced (snd (syncNow io p)) = base @ log_bytes rows \<and> aof (snd (syncNow io p)) = aof p \<and>
      \<not> fatal (snd (syncNow io p))"
proof -
  have opened: "opened p" and sync: "unsynced p \<or> synced p = aof p"
    using inv all(1) by (auto simp: log_inv_def file_inv_def)
  show "\<not> fst (syncNow io p) \<Longrightarrow>
      synced (snd (syncNow io p)) = base @ log_bytes rows \<and> aof (snd (syncNow io p)) = aof p \<and>
      \<not> fatal (snd (syncNow io p))"
    using opened sync all by (auto simp: syncNow_def)
  show "log_inv base old rows (snd (syncNow io p))"
  proof (cases "unsynced p \<and> on_sync io")
    case True
    have "durable_inv base old rows (snd (syncNow io p))"
      using inv True opened all(2) durable_closed [of base old rows p]
      by (intro durable_invI) (simp_all add: log_inv_def syncNow_def)
    moreover have "file_inv base rows (snd (syncNow io p))"
      using inv True opened by (auto simp: file_inv_def log_inv_def syncNow_def)
    ultimately show ?thesis using inv True opened by (simp add: log_inv_def syncNow_def)
  next
    case False
    with inv show ?thesis by (auto simp: syncNow_def)
  qed
qed

text \<open>
  Channels may be closed when everything received is durable, or when the policy does not
  make anyone wait for that.
\<close>

lemma release_inv:
  assumes inv: "log_inv base old rows p"
    and durable: "fsyncPolicy (mem p) = FsyncAlways \<Longrightarrow> synced p = base @ log_bytes rows"
  shows "log_inv base old rows (release p)"
proof -
  have "durable_inv base old rows (release p)"
  proof (cases "fsyncPolicy (mem p) = FsyncAlways")
    case True
    have "set (closed p) \<subseteq> set old \<union> row_chans rows"
      using inv True durable_closed [of base old rows p] by (simp add: log_inv_def)
    then show ?thesis
      using inv durable [OF True] by (intro durable_invI) (auto simp: release_def log_inv_def)
  next
    case False
    with inv show ?thesis by (auto simp: durable_inv_def release_def log_inv_def)
  qed
  with inv show ?thesis by (simp add: log_inv_def release_def file_inv_def)
qed


subsection \<open>The steps keep the invariant\<close>

lemma flush_failed_inv:
  assumes "log_inv base old rows p" and "\<not> fatal p"
  shows "log_inv base old rows (snd (failed (snd (flush io p))))"
  using failed_inv [OF log_inv_flush(1) [OF assms]] .

lemma log_inv_commit:
  assumes inv: "log_inv base old rows p" and alive: "\<not> fatal p"
  shows "log_inv base old rows (commit io p)"
proof -
  obtain e p1 where f: "flush io p = (e, p1)" by (cases "flush io p")
  have p1: "log_inv base old rows p1" "fsyncPolicy (mem p1) = fsyncPolicy (mem p)"
    using log_inv_flush(1) [OF inv alive, of io] flush_policy [of io p] f by simp_all
  show ?thesis
  proof (cases e)
    case True
    have "log_inv base old rows (release (p1\<lparr>mem := (mem p1)\<lparr>writesRefused := True\<rparr>\<rparr>))"
      if "fsyncPolicy (mem p1) \<noteq> FsyncAlways"
      using p1 that by (intro release_inv) (simp_all add: log_inv_mem)
    with True f p1 show ?thesis
      by (cases "fsyncPolicy (mem p1) = FsyncAlways")
        (auto simp: commit_def failed_always failed_other)
  next
    case False
    then have all: "\<not> fatal p1" "aof p1 = base @ log_bytes rows"
      using log_inv_flush(2) [OF inv alive, of io] f by simp_all
    obtain s p2 where y: "syncNow io p1 = (s, p2)" by (cases "syncNow io p1")
    have p2: "log_inv base old rows p2" "\<not> s \<Longrightarrow> synced p2 = base @ log_bytes rows"
      using syncNow_inv [OF p1(1) all, of io] y by simp_all
    have "log_inv base old rows (release p1)" if "fsyncPolicy (mem p1) \<noteq> FsyncAlways"
      using p1(1) that by (intro release_inv) simp_all
    moreover have "log_inv base old rows (release p2)" if "\<not> s"
      using p2 that by (intro release_inv) simp_all
    ultimately show ?thesis
      using False f y p2(1) by (auto simp: commit_def split: bool.split)
  qed
qed

lemma log_inv_tick:
  assumes inv: "log_inv base old rows p" and alive: "\<not> fatal p"
  shows "log_inv base old rows (tick io p)"
proof -
  obtain e p1 where f: "flush io p = (e, p1)" by (cases "flush io p")
  have p1: "log_inv base old rows p1"
    using log_inv_flush(1) [OF inv alive, of io] f by simp
  show ?thesis
  proof (cases e)
    case True
    with f p1 failed_inv [OF p1] show ?thesis
      by (auto simp: tick_def split: prod.split bool.split)
  next
    case False
    then have all: "\<not> fatal p1" "aof p1 = base @ log_bytes rows"
      using log_inv_flush(2) [OF inv alive, of io] f by simp_all
    with False f p1 syncNow_inv(1) [OF p1 all, of io] show ?thesis
      by (auto simp: tick_def split: prod.split bool.split)
  qed
qed

text \<open>Receiving a record that is not a vacuum or a stop adds its bytes to the buffer.\<close>

lemma log_inv_buffer:
  assumes inv: "log_inv base old rows p" and alive: "\<not> fatal p" and row: "set chan \<subseteq> row_chans [row]"
  shows "log_inv base old (rows @ [row])
    (p\<lparr>buf := buf p @ record_bytes row, waiters := waiters p @ chan, mem := (mem p)\<lparr>wg := w\<rparr>\<rparr>)"
    (is "log_inv _ _ _ ?p")
proof -
  obtain pre post where split: "rows = pre @ post" "aof p = base @ log_bytes pre" "buf p = log_bytes post"
    and size: "fsize p = length (aof p)" "unsynced p \<or> synced p = aof p"
    using inv alive by (auto simp: log_inv_def file_inv_def)
  have "file_inv base (rows @ [row]) ?p"
    using split size
    by (intro file_invI [where pre = pre and post = "post @ [row]"]) (simp_all add: log_bytes_def)
  moreover have "durable_inv base old (rows @ [row]) ?p"
    by (rule durable_more [of base old rows p]) (use inv in \<open>simp_all add: log_inv_def\<close>)
  ultimately show ?thesis
    using inv row by (auto simp: log_inv_def simp del: row_chans_simps(3))
qed

lemma bound_buf_inv:
  assumes inv: "log_inv base old rows p" and alive: "\<not> fatal p"
  shows "log_inv base old rows (snd (bound_buf io p))"
  using flush_failed_inv [OF assms, of io] log_inv_flush(1) [OF assms, of io] inv
  by (auto simp: bound_buf_def split: prod.split bool.split)

lemma close_inv:
  assumes inv: "log_inv base old rows p" and alive: "\<not> fatal p"
  shows "log_inv base old rows (close_writer io p)"
proof -
  obtain e p1 where f: "flush io p = (e, p1)" by (cases "flush io p")
  have p1: "log_inv base old rows p1" "fsyncPolicy (mem p1) = fsyncPolicy (mem p)"
    using log_inv_flush(1) [OF inv alive, of io] flush_policy [of io p] f by simp_all
  have rel: "log_inv base old rows (release (q\<lparr>mem := (mem q)\<lparr>wg := w\<rparr>, exited := True\<rparr>))"
    if "log_inv base old rows q" "fsyncPolicy (mem q) = FsyncAlways \<Longrightarrow> synced q = base @ log_bytes rows" for q w
    using that by (intro release_inv) (simp_all add: log_inv_mem)
  show ?thesis
  proof (cases e)
    case True
    have "log_inv base old rows (p1\<lparr>mem := (mem p1)\<lparr>writesRefused := True\<rparr>\<rparr>)"
      using p1 by (simp add: log_inv_mem)
    from rel [OF this] True f p1 show ?thesis
      by (cases "fsyncPolicy (mem p1) = FsyncAlways")
        (auto simp: close_writer_def failed_always failed_other)
  next
    case False
    then have all: "\<not> fatal p1" "aof p1 = base @ log_bytes rows"
      using log_inv_flush(2) [OF inv alive, of io] f by simp_all
    obtain s p2 where y: "syncNow io p1 = (s, p2)" by (cases "syncNow io p1")
    have p2: "log_inv base old rows p2" "\<not> s \<Longrightarrow> synced p2 = base @ log_bytes rows"
      using syncNow_inv [OF p1(1) all, of io] y by simp_all
    show ?thesis
      using False f y p2 rel [OF p2(1)] by (cases s) (auto simp: close_writer_def)
  qed
qed

lemma log_inv_rows:
  assumes "log_inv base old rows p" and "\<not> fatal p" and "record_bytes row = []"
  shows "log_inv base old (rows @ [row]) p"
  using log_inv_buffer [OF assms(1,2), of "[]" row "wg (mem p)"] assms(3) by simp

lemma log_inv_receive:
  assumes inv: "log_inv base old rows p" and alive: "\<not> fatal p" and row: "command row \<noteq> DumpCmd"
  shows "log_inv base old (rows @ [row]) (write_row io io2 row p)"
proof (cases "command row = CloseCmd")
  case True
  then have "record_bytes row = []" by (simp add: record_bytes_def)
  then have "log_inv base old (rows @ [row]) (close_writer io p)"
    using close_inv [OF log_inv_rows [OF inv alive] alive] by simp
  with True show ?thesis by (simp add: write_row_def)
next
  case False
  have opened: "opened p" using inv by (simp add: log_inv_def)
  let ?p = "handled row (p\<lparr>buf := buf p @ record_bytes row\<rparr>)"
  have "log_inv base old (rows @ [row]) ?p"
    using log_inv_buffer [OF inv alive, of "case done_chan row of Some c \<Rightarrow> [c] | None \<Rightarrow> []" row]
    by (simp add: handled_def split: option.splits)
  then have "log_inv base old (rows @ [row]) (snd (bound_buf io2 ?p))"
    by (rule bound_buf_inv) (simp add: handled_def alive)
  with False row opened show ?thesis
    by (cases "command row") (auto simp: write_row_def split: prod.split bool.split)
qed


subsection \<open>Every interleaving keeps the invariant\<close>

lemma policy_appendAOF [simp]: "fsyncPolicy (appendAOF r st) = fsyncPolicy st"
  by (simp add: appendAOF_def)

lemma policy_setNode [simp]: "fsyncPolicy (snd (setNode k v st)) = fsyncPolicy st"
  by (cases rule: setNode_cases [of st k v]) simp_all

lemma policy_delonly [simp]: "fsyncPolicy (delonly k st) = fsyncPolicy st"
  by (cases rule: delonly_result [of st k]) simp

lemma policy_setNode_eq: "setNode k v st = (r, st') \<Longrightarrow> fsyncPolicy st' = fsyncPolicy st"
  using policy_setNode [of k v st] by simp

lemma policy_Set: "fsyncPolicy (snd (Set L k v st)) = fsyncPolicy st"
  by (auto simp: Set_def Let_def dest!: policy_setNode_eq split: option.split sum.split prod.split)

lemma policy_Clone: "fsyncPolicy (snd (Clone L fk tk st)) = fsyncPolicy st"
  by (auto simp: Clone_def cloneonly_def setrawonly_def Let_def dest!: policy_setNode_eq
      split: option.splits node.splits prod.splits if_splits)

lemma policy_run_op: "fsyncPolicy (snd (run_op L x st)) = fsyncPolicy st"
proof (cases x)
  case (OpSetRaw k raw)
  then show ?thesis
    by (auto simp: SetRaw_def Let_def policy_Set dest!: policy_setNode_eq split: option.split sum.split prod.split)
qed (simp_all add: policy_Set policy_Clone Del_def split: option.split)

lemma policy_Get: "fsyncPolicy (snd (Get L k st)) = fsyncPolicy st"
  by (auto simp: Get_def snapshot_def Let_def split: option.split node.split prod.split)

lemma policy_failed: "fsyncPolicy (mem (snd (failed p))) = fsyncPolicy (mem p)"
  by (simp add: failed_def)

lemma policy_syncNow: "fsyncPolicy (mem (snd (syncNow io p))) = fsyncPolicy (mem p)"
  by (simp add: syncNow_def)

lemma policy_release [simp]: "mem (release p) = mem p"
  by (simp add: release_def)

lemma policy_eqs:
  "flush io p = (e, p') \<Longrightarrow> fsyncPolicy (mem p') = fsyncPolicy (mem p)"
  "failed p = (e, p') \<Longrightarrow> fsyncPolicy (mem p') = fsyncPolicy (mem p)"
  "syncNow io p = (e, p') \<Longrightarrow> fsyncPolicy (mem p') = fsyncPolicy (mem p)"
  using flush_policy [of io p] policy_failed [of p] policy_syncNow [of io p] by simp_all

lemma policy_commit: "fsyncPolicy (mem (commit io p)) = fsyncPolicy (mem p)"
  by (auto simp: commit_def dest!: policy_eqs split: prod.split bool.split)

lemma policy_tick: "fsyncPolicy (mem (tick io p)) = fsyncPolicy (mem p)"
  by (auto simp: tick_def dest!: policy_eqs split: prod.split bool.split)

lemma policy_close: "fsyncPolicy (mem (close_writer io p)) = fsyncPolicy (mem p)"
  by (auto simp: close_writer_def dest!: policy_eqs split: prod.split bool.split)

lemma policy_bound: "bound_buf io p = (e, p') \<Longrightarrow> fsyncPolicy (mem p') = fsyncPolicy (mem p)"
  by (auto simp: bound_buf_def dest!: policy_eqs split: prod.splits bool.splits if_splits)

lemma policy_write_row:
  "command row \<noteq> DumpCmd \<Longrightarrow> fsyncPolicy (mem (write_row io io2 row p)) = fsyncPolicy (mem p)"
  by (cases "command row")
    (auto simp: write_row_def policy_close handled_def dest!: policy_bound split: prod.split bool.split)

lemma log_inv_step:
  assumes "pstep L s r s'" and "log_inv base old rows (snd s)" and "\<forall>row \<in> set r. command row \<noteq> DumpCmd"
  shows "log_inv base old (rows @ r) (snd s') \<and> fsyncPolicy (mem (snd s')) = fsyncPolicy (mem (snd s))"
  using assms
proof (cases rule: pstep.cases)
  case (receive p row rest b io io2)
  have "log_inv base old rows (p\<lparr>mem := (mem p)\<lparr>persists := rest\<rparr>\<rparr>)"
    using assms(2) receive by (simp add: log_inv_mem)
  from log_inv_receive [OF this] receive assms(3) show ?thesis
    by (simp add: policy_write_row)
next
  case (stop_request p b)
  then show ?thesis using assms(2) by (simp add: stopPersist_def log_inv_mem)
qed (use assms(2) in \<open>simp_all add: log_inv_commit log_inv_tick log_inv_mem policy_commit policy_tick
      policy_run_op policy_Get Vacuum_def\<close>)

lemma log_inv_steps:
  "psteps L s rows s' \<Longrightarrow> log_inv base old [] (snd s) \<Longrightarrow> \<forall>row \<in> set rows. command row \<noteq> DumpCmd \<Longrightarrow>
    log_inv base old rows (snd s') \<and> fsyncPolicy (mem (snd s')) = fsyncPolicy (mem (snd s))"
  by (induction rule: psteps.induct) (auto dest: log_inv_step)

text \<open>A writer that has just started, on a file whose content is on disk.\<close>

lemma log_inv_start:
  assumes "opened p" and "on_stat io" and "synced p = aof p"
  shows "log_inv (aof p) (closed p) [] (persist_start io p)"
proof -
  have "file_inv (aof p) [] (persist_start io p)"
    using assms by (intro file_invI [where pre = "[]" and post = "[]"])
      (simp_all add: persist_start_def statSize_def)
  moreover have "durable_inv (aof p) (closed p) [] (persist_start io p)"
    using assms by (intro durable_invI) (simp_all add: persist_start_def statSize_def)
  ultimately show ?thesis
    using assms(1) by (simp add: log_inv_def persist_start_def statSize_def)
qed

end
