(* ===== verification/VacuumLaws.thy ===== *)
theory VacuumLaws
  imports PersistLaws
begin

text \<open>
  Vacuum and failure: what the rewrite of the log leaves on disk and what replaying it
  gives, which backups are kept, how writes are refused and accepted again, and two ways in
  which the log and the memory come apart.
\<close>

subsection \<open>Replaying a snapshot record\<close>

lemma replay_snapshot:
  assumes "nl \<notin> set s"
  shows "replay_loop L (''*'' @ [nl] @ s @ [nl] @ rest) st good =
    replay_loop L rest (load_snapshot L s st) (good + length s + 3)"
proof -
  have "readRecordLine (''*'' @ [nl] @ s @ [nl] @ rest) = Some (''*'', s @ nl # rest)"
    using readRecordLine_line [of "''*''" "s @ nl # rest"] by simp
  then show ?thesis
    using assms by (subst replay_loop.simps) (simp add: readRecordLine_line numeral_3_eq_3 add.assoc)
qed

lemma load_snapshot_ok: "store_ok (load_snapshot L s st)"
  using node_ok_parse [of "gjsonParse L s"] node_ok_new
  by (auto simp: load_snapshot_def store_ok_def parseTreeRaw_def split: node.split)

lemma load_snapshot_document:
  assumes "store_ok st" and "gjsonParse L (doc_text (document st)) = doc_view (document st)"
  shows "document (load_snapshot L (doc_text (document st)) st0) = document st"
proof -
  obtain es where es: "document st = DObj es" by (simp add: document_def)
  have "doc_ok (document st)" using assms(1) by (simp add: store_ok_def node_ok_def document_def)
  then have "abs_node (parseTree (doc_view (document st))) = document st" by (rule parse_doc_view)
  moreover obtain ob where "parseTree (doc_view (document st)) = Obj ob" unfolding es by simp
  ultimately show ?thesis
    using assms(2) by (simp add: document_def load_snapshot_def parseTreeRaw_def del: abs_node.simps)
qed

subsection \<open>The vacuum\<close>

definition snapshot_record :: "store \<Rightarrow> bytes" where
  "snapshot_record st = ''*'' @ [nl] @ doc_text (document st) @ [nl]"

lemma writeSnapshotFile_result:
  assumes "snapshot_ok (mem p)"
  obtains st where "configRoot st = configRoot (mem p)" "backups st = backups (mem p)"
    "writeSnapshotFile io p =
      (if on_temp_open io \<and> on_temp_write io then Some (snapshot_record (mem p)) else None, p\<lparr>mem := st\<rparr>)"
proof -
  obtain st where st: "snapshot (mem p) = (doc_text (document (mem p)), st)"
    using snapshot_text [OF assms] by (metis prod.collapse)
  have "configRoot st = configRoot (mem p)" using snapshot_keeps [of "mem p"] st by simp
  moreover have "backups st = backups (mem p)"
    using st by (auto simp: snapshot_def Let_def split: if_splits)
  moreover have "p\<lparr>mem := mem p\<rparr> = p" by simp
  ultimately show ?thesis
    using st that [of "mem p"] that [of st]
    by (cases "on_temp_open io") (auto simp: writeSnapshotFile_def snapshot_record_def)
qed

lemma pruneBackups_keeps [simp]:
  "aof (pruneBackups io p) = aof p" "mem (pruneBackups io p) = mem p" "buf (pruneBackups io p) = buf p"
  "opened (pruneBackups io p) = opened p" "fatal (pruneBackups io p) = fatal p"
  "closed (pruneBackups io p) = closed p" "waiters (pruneBackups io p) = waiters p"
  by (simp_all add: pruneBackups_def)

lemma swap_in_keeps [simp]:
  "aof (swap_in io c p) = (if on_rename io then c else aof p)" "mem (swap_in io c p) = mem p"
  "buf (swap_in io c p) = buf p" "opened (swap_in io c p) = False" "fatal (swap_in io c p) = fatal p"
  "closed (swap_in io c p) = closed p" "waiters (swap_in io c p) = waiters p"
  by (simp_all add: swap_in_def Let_def)

lemma reopen_keeps:
  "reopen io p = (e, p') \<Longrightarrow>
    aof p' = aof p \<and> mem p' = mem p \<and> buf p' = buf p \<and> fatal p' = fatal p \<and> closed p' = closed p \<and>
    waiters p' = waiters p \<and> e = (\<not> on_reopen io) \<and> opened p' = on_reopen io"
  by (auto simp: reopen_def Let_def split: if_splits)

lemma doEraseAndDump_result:
  assumes "snapshot_ok (mem p)" and run: "doEraseAndDump io p = (e, p')"
  shows "aof p' = aof p \<or> aof p' = snapshot_record (mem p)"
    and "\<not> e \<Longrightarrow> aof p' = snapshot_record (mem p) \<and> opened p'"
    and "document (mem p') = document (mem p) \<and> buf p' = buf p \<and> fatal p' = fatal p \<and>
      closed p' = closed p \<and> waiters p' = waiters p"
    and "on_temp_open io \<Longrightarrow> on_temp_write io \<Longrightarrow> \<not> on_reopen io \<Longrightarrow> e \<and> \<not> opened p'"
proof -
  obtain st where st: "configRoot st = configRoot (mem p)" "writeSnapshotFile io p =
      (if on_temp_open io \<and> on_temp_write io then Some (snapshot_record (mem p)) else None, p\<lparr>mem := st\<rparr>)"
    using writeSnapshotFile_result [OF assms(1), of io] by metis
  have doc: "document st = document (mem p)" using st(1) by (simp add: document_def)
  have "(aof p' = aof p \<or> aof p' = snapshot_record (mem p)) \<and>
      (\<not> e \<longrightarrow> aof p' = snapshot_record (mem p) \<and> opened p') \<and> mem p' = st \<and> buf p' = buf p \<and>
      fatal p' = fatal p \<and> closed p' = closed p \<and> waiters p' = waiters p \<and>
      (on_temp_open io \<longrightarrow> on_temp_write io \<longrightarrow> \<not> on_reopen io \<longrightarrow> e \<and> \<not> opened p')" (is ?P)
  proof (cases "on_temp_open io \<and> on_temp_write io")
    case False
    then have "e" "p' = p\<lparr>mem := st\<rparr>" using run st(2) by (auto simp: doEraseAndDump_def)
    with False show ?P by auto
  next
    case True
    obtain r p2 where re: "reopen io (swap_in io (snapshot_record (mem p)) (p\<lparr>mem := st\<rparr>)) = (r, p2)"
      by fastforce
    then have "p' = p2" "e = (r \<or> \<not> on_rename io)"
      using run st(2) True by (auto simp: doEraseAndDump_def split: bool.splits)
    with reopen_keeps [OF re] show ?P by auto
  qed
  then show "aof p' = aof p \<or> aof p' = snapshot_record (mem p)"
    and "\<not> e \<Longrightarrow> aof p' = snapshot_record (mem p) \<and> opened p'"
    and "document (mem p') = document (mem p) \<and> buf p' = buf p \<and> fatal p' = fatal p \<and>
      closed p' = closed p \<and> waiters p' = waiters p"
    and "on_temp_open io \<Longrightarrow> on_temp_write io \<Longrightarrow> \<not> on_reopen io \<Longrightarrow> e \<and> \<not> opened p'"
    using doc by simp_all
qed


text \<open>Replaying a rewritten log: the snapshot, then the records appended since.\<close>

lemma replay_rewritten:
  assumes st: "store_ok st" "gjsonParse L (doc_text (document st)) = doc_view (document st)"
    and line: "nl \<notin> set (doc_text (document st))" and rows: "list_all row_ok rows"
  shows "document (fst (replay_loop L (snapshot_record st @ log_bytes rows) st0 0)) =
    fold (doc_apply L) rows (document st)"
proof -
  let ?st1 = "load_snapshot L (doc_text (document st)) st0"
  have "replay_loop L (snapshot_record st @ log_bytes rows) st0 0 =
      replay_loop L (log_bytes rows @ []) ?st1 (length (doc_text (document st)) + 3)"
    using replay_snapshot [OF line, of L "log_bytes rows" st0 0] by (simp add: snapshot_record_def)
  also have "\<dots> = (fold (apply_row L) rows ?st1, length (doc_text (document st)) + 3 + length (log_bytes rows))"
    unfolding replay_rows [OF rows] by (rule replay_end) simp
  finally show ?thesis
    using apply_rows_document [OF load_snapshot_ok] load_snapshot_document [OF st] by simp
qed

subsection \<open>Backups\<close>

lemma prune_loop_all:
  "(\<And>n. n \<in> set ns \<Longrightarrow> rm n) \<Longrightarrow>
    prune_loop keep rm ns d = filter (\<lambda>n. n \<notin> set (take (length ns - keep) ns)) d"
proof (induction ns arbitrary: d)
  case Nil
  then show ?case by simp
next
  case (Cons n ns)
  show ?case
  proof (cases "keep < length (n # ns)")
    case True
    then have "length (n # ns) - keep = Suc (length ns - keep)" by simp
    with True Cons show ?thesis
      by (auto simp: removeAll_filter_not_eq intro!: filter_cong)
  next
    case False
    then show ?thesis by simp
  qed
qed

subsection \<open>Refusing writes and accepting them again\<close>

lemma flush_failing:
  assumes "opened p" "buf p \<noteq> []" "write_err (on_write io)" "on_truncate io" "fsize p = length (aof p)"
  shows "flush io p = (True, p)"
  using assms by (auto simp: flush_def Let_def)

lemma flush_working:
  assumes "opened p" "buf p \<noteq> []" "\<not> write_err (on_write io)" "length (buf p) \<le> written (on_write io)"
  shows "flush io p =
    (False, p\<lparr>aof := aof p @ buf p, fsize := fsize p + length (buf p), buf := [], unsynced := True,
       mem := (mem p)\<lparr>writesRefused := False\<rparr>\<rparr>)"
  using assms by (simp add: flush_def Let_def)

lemma refused_op:
  "aofEnabled st \<Longrightarrow> writesRefused st \<Longrightarrow> run_op L x st = (Some ErrWritesRefused, st)"
  by (cases x) (simp_all add: Set_def SetRaw_def Del_def Clone_def checkWritable_def)

text \<open>A vacuum that meets no error, on an empty buffer.\<close>

lemma dump_result:
  assumes "snapshot_ok (mem p)" and "buf p = []"
    and "on_temp_open io" "on_temp_write io" "on_rename io" "on_reopen io"
  shows "\<exists>q. dump io p = (False, q) \<and> aof q = snapshot_record (mem p) \<and> buf q = [] \<and> opened q \<and>
    document (mem q) = document (mem p) \<and> fsyncPolicy (mem q) = fsyncPolicy (mem p)"
proof -
  obtain st where st: "configRoot st = configRoot (mem p)" "writeSnapshotFile io p =
      (Some (snapshot_record (mem p)), p\<lparr>mem := st\<rparr>)" "fsyncPolicy st = fsyncPolicy (mem p)"
  proof -
    obtain st where "configRoot st = configRoot (mem p)" "writeSnapshotFile io p =
        (Some (snapshot_record (mem p)), p\<lparr>mem := st\<rparr>)"
      using writeSnapshotFile_result [OF assms(1), of io] assms(3,4) by metis
    moreover have "fsyncPolicy (mem (p\<lparr>mem := snd (snapshot (mem p))\<rparr>)) = fsyncPolicy (mem p)"
      by (simp add: snapshot_def Let_def)
    ultimately show ?thesis
      using that assms(3,4) by (auto simp: writeSnapshotFile_def split: prod.splits)
        (metis prod.sel(2) proc.select_convs(1) proc.update_convs(1) proc.surjective)
  qed
  obtain q where d: "doEraseAndDump io p = (False, q)" and mem: "mem q = st"
  proof -
    obtain r p2 where re: "reopen io (swap_in io (snapshot_record (mem p)) (p\<lparr>mem := st\<rparr>)) = (r, p2)"
      by fastforce
    with reopen_keeps [OF re] assms(5,6) st(2) that show ?thesis by (simp add: doEraseAndDump_def)
  qed
  note res = doEraseAndDump_result [OF assms(1) d]
  have "dump io p = (False, statSize io
      (q\<lparr>buf := [], unsynced := False, mem := (mem q)\<lparr>writesRefused := False\<rparr>\<rparr>))"
    using d assms(2) by (simp add: dump_def flush_def)
  then show ?thesis
    using res(2,3) mem st(3) by (auto simp: statSize_def document_def)
qed

end
