(* ===== verification/PersistProps.thy ===== *)
theory PersistProps
  imports StoreProps VacuumLaws
begin

text \<open>
  The properties of the writer goroutine and of the vacuum.
\<close>

subsection \<open>A small process for the examples\<close>

definition sample_io :: answers where
  "sample_io = \<lparr>on_write = WriteResult 1000 False, on_truncate = True, on_sync = True, on_stat = True,
     on_temp_open = True, on_temp_write = True, on_link = True, on_rename = True, on_dirsync = True,
     on_readdir = True, on_remove = (\<lambda>_. True), on_reopen = True, stamp = ''260101000000''\<rparr>"

definition sample_proc :: "FsyncPolicy \<Rightarrow> proc" where
  "sample_proc pol =
     \<lparr>mem = SetFsyncPolicy pol init_store, buf = [], fsize = 0, waiters = [], unsynced = False,
      opened = True, aof = [], synced = [], dir = [dbfn], closed = [], fatal = False, exited = False\<rparr>"

definition sample_row :: persistable where
  "sample_row = (mk_row DelCmd ''k'' [])\<lparr>done_chan := Some 0\<rparr>"

text \<open>A process in which one deletion has been queued under \<open>always\<close>.\<close>

definition queued_proc :: proc where
  "queued_proc = (sample_proc FsyncAlways)\<lparr>mem := (SetFsyncPolicy FsyncAlways init_store)
     \<lparr>persists := [sample_row], wg := 1, chans := 1\<rparr>\<rparr>"

lemma sample_start: "persist_start sample_io queued_proc = queued_proc"
  by (simp add: persist_start_def statSize_def queued_proc_def sample_proc_def sample_io_def)

definition received_proc :: proc where
  "received_proc = write_row sample_io sample_io sample_row
     (queued_proc\<lparr>mem := (mem queued_proc)\<lparr>persists := []\<rparr>\<rparr>)"

lemma received_fields:
  "persists (mem received_proc) = []" "buf received_proc = record_bytes sample_row"
  "waiters received_proc = [0]" "opened received_proc" "aof received_proc = []" "\<not> fatal received_proc"
  "\<not> exited received_proc" "fsyncPolicy (mem received_proc) = FsyncAlways" "closed received_proc = []"
  by (simp_all add: received_proc_def write_row_def sample_row_def mk_row_def handled_def bound_buf_def
      queued_proc_def sample_proc_def record_bytes_def SetFsyncPolicy_def init_store_def)

lemma sample_run:
  "psteps sample_libs (False, queued_proc) ([sample_row] @ []) (False, commit sample_io received_proc)"
proof -
  have "pstep sample_libs (False, queued_proc) [sample_row] (True, received_proc)"
    unfolding received_proc_def
    by (rule pstep.receive) (simp_all add: queued_proc_def sample_proc_def)
  then have "psteps sample_libs (False, queued_proc) ([] @ [sample_row]) (True, received_proc)"
    by (rule psteps_step [OF psteps_refl])
  then show ?thesis
    using psteps_step pstep.batch_end received_fields by (metis append_Nil)
qed

lemma sample_run_started:
  "psteps sample_libs (False, persist_start sample_io queued_proc) ([sample_row] @ [])
     (False, commit sample_io received_proc)"
  unfolding sample_start by (rule sample_run)

lemma sample_commit:
  "closed (commit sample_io received_proc) = [0]" "synced (commit sample_io received_proc) = record_bytes sample_row"
  using received_fields
  by (simp_all add: commit_def flush_def syncNow_def release_def sample_io_def record_bytes_def sample_row_def mk_row_def)

subsection \<open>Durability\<close>

text \<open>Under \<open>always\<close>, whatever the interleaving of clients, batches and ticks and whatever
  the disk answers, a write is acknowledged only once it is durable: the content that survives
  a power failure is the log of some of the records received, in order, and every closed
  channel belongs to one of these.\<close>

theorem acknowledged_is_durable:
  assumes "opened p" "on_stat io" "synced p = aof p" "fsyncPolicy (mem p) = FsyncAlways"
    and "psteps L (b, persist_start io p) rows (b', p')"
    and "\<forall>row \<in> set rows. command row \<noteq> DumpCmd"
  shows "\<exists>pre post. rows = pre @ post \<and> synced p' = aof p @ log_bytes pre \<and>
    set (closed p') \<subseteq> set (closed p) \<union> row_chans pre"
proof -
  have "log_inv (aof p) (closed p) rows p'" "fsyncPolicy (mem p') = FsyncAlways"
    using log_inv_steps [OF assms(5), of "aof p" "closed p"] log_inv_start [OF assms(1-3)] assms(4,6)
    by (simp_all add: persist_start_def statSize_def)
  then show ?thesis by (simp add: log_inv_def durable_inv_def)
qed

theorem acknowledged_is_durable_witness:
  "\<exists>pre post. [sample_row] = pre @ post \<and> synced (commit sample_io received_proc) = log_bytes pre \<and>
     {0} \<subseteq> row_chans pre"
proof -
  have "\<exists>pre post. [sample_row] @ [] = pre @ post \<and>
      synced (commit sample_io received_proc) = aof queued_proc @ log_bytes pre \<and>
      set (closed (commit sample_io received_proc)) \<subseteq> set (closed queued_proc) \<union> row_chans pre"
    by (rule acknowledged_is_durable [where io = sample_io, OF _ _ _ _ sample_run_started])
      (simp_all add: queued_proc_def sample_proc_def sample_io_def SetFsyncPolicy_def sample_row_def mk_row_def)
  then show ?thesis
    unfolding sample_commit by (simp add: queued_proc_def sample_proc_def)
qed



subsection \<open>Refusing writes\<close>

text \<open>C34. When a batch cannot be written under \<open>everysec\<close> or \<open>no\<close>, the file keeps its content
  and the buffer its records, writes are refused without touching the document, and the next
  tick that can write appends every pending record and accepts writes again.\<close>

theorem refuse_then_recover:
  assumes p: "opened p" "buf p \<noteq> []" "fsize p = length (aof p)" "aofEnabled (mem p)"
      "fsyncPolicy (mem p) \<noteq> FsyncAlways"
    and bad: "write_err (on_write io)" "on_truncate io"
    and good: "\<not> write_err (on_write io2)" "length (buf p) \<le> written (on_write io2)" "on_sync io2"
  shows "aof (commit io p) = aof p \<and> buf (commit io p) = buf p \<and>
    run_op L x (mem (commit io p)) = (Some ErrWritesRefused, mem (commit io p)) \<and>
    aof (tick io2 (commit io p)) = aof p @ buf p \<and> buf (tick io2 (commit io p)) = [] \<and>
    \<not> writesRefused (mem (tick io2 (commit io p)))"
proof -
  have c: "commit io p = release (p\<lparr>mem := (mem p)\<lparr>writesRefused := True\<rparr>\<rparr>)"
    using flush_failing [OF p(1,2) bad p(3)] p(5) by (simp add: commit_def failed_other)
  let ?q = "commit io p"
  have q: "opened ?q" "buf ?q = buf p" "aof ?q = aof p" "mem ?q = (mem p)\<lparr>writesRefused := True\<rparr>"
    unfolding c using p by (simp_all add: release_def)
  have "flush io2 ?q = (False, ?q\<lparr>aof := aof ?q @ buf ?q, fsize := fsize ?q + length (buf ?q), buf := [],
      unsynced := True, mem := (mem ?q)\<lparr>writesRefused := False\<rparr>\<rparr>)"
    using flush_working [of ?q io2] q p(2) good by simp
  then show ?thesis
    using q p(4) good(3) by (auto simp: tick_def syncNow_def refused_op)
qed

theorem refuse_then_recover_witness:
  "aof (tick sample_io (commit (sample_io\<lparr>on_write := WriteResult 1 True\<rparr>)
     ((sample_proc FsyncEverysec)\<lparr>buf := record_bytes sample_row\<rparr>))) = record_bytes sample_row"
proof -
  let ?p = "(sample_proc FsyncEverysec)\<lparr>buf := record_bytes sample_row\<rparr>"
  let ?io = "sample_io\<lparr>on_write := WriteResult 1 True\<rparr>"
  have "aof (tick sample_io (commit ?io ?p)) = aof ?p @ buf ?p"
    using refuse_then_recover [of ?p ?io sample_io sample_libs "OpDel []"]
    by (simp add: sample_proc_def sample_io_def SetFsyncPolicy_def init_store_def record_bytes_def
        sample_row_def mk_row_def)
  then show ?thesis by (simp add: sample_proc_def)
qed

subsection \<open>Vacuum\<close>

text \<open>C18. A vacuum leaves the old log or the new one, never a mixture. The new one is a single
  record with the text of the document; replaying it, and whatever is appended to it later,
  starts from the document as it was.\<close>

theorem vacuum_is_atomic:
  assumes "store_ok (mem p)" "snapshot_ok (mem p)" and "doEraseAndDump io p = (e, p')"
    and "gjsonParse L (doc_text (document (mem p))) = doc_view (document (mem p))"
    and "nl \<notin> set (doc_text (document (mem p)))" and "list_all row_ok rows"
  shows "(aof p' = aof p \<or> aof p' = snapshot_record (mem p)) \<and>
    (\<not> e \<longrightarrow> opened p' \<and> aof p' = snapshot_record (mem p) \<and>
      document (fst (replay_loop L (aof p' @ log_bytes rows) st0 0)) =
        fold (doc_apply L) rows (document (mem p')))"
  using doEraseAndDump_result [OF assms(2,3)] replay_rewritten [OF assms(1,4-6), of st0] by auto

definition empty_libs :: libs where
  "empty_libs = sample_libs\<lparr>gjsonParse := (\<lambda>_. GObject [])\<rparr>"

lemma sample_mem: "mem (sample_proc pol) = SetFsyncPolicy pol init_store"
  by (simp add: sample_proc_def)

lemma sample_mem_ok:
  "store_ok (mem (sample_proc pol))" "snapshot_ok (mem (sample_proc pol))"
  "document (mem (sample_proc pol)) = DObj []"
  using store_ok_init snapshot_ok_init document_init
  by (simp_all add: sample_mem SetFsyncPolicy_def store_ok_def snapshot_ok_def document_def)

theorem vacuum_is_atomic_witness:
  "aof (snd (doEraseAndDump sample_io (sample_proc FsyncNo))) = [] \<or>
   aof (snd (doEraseAndDump sample_io (sample_proc FsyncNo))) = ''*'' @ [nl] @ ''{}'' @ [nl]"
proof -
  obtain e q where d: "doEraseAndDump sample_io (sample_proc FsyncNo) = (e, q)" by fastforce
  have "aof q = aof (sample_proc FsyncNo) \<or> aof q = snapshot_record (mem (sample_proc FsyncNo))"
    by (rule vacuum_is_atomic [OF sample_mem_ok(1,2) d, of empty_libs "[]", THEN conjunct1])
      (simp_all add: sample_mem_ok empty_libs_def)
  then show ?thesis
    using d by (simp add: snapshot_record_def sample_mem_ok) (simp add: sample_proc_def)
qed

text \<open>Pruning removes only backups, keeps exactly the number it is told to, and keeps the
  newest: every name it removes is older than every backup that stays.\<close>

theorem prune_keeps_newest:
  assumes keep: "0 \<le> backups (mem p)" and io: "on_readdir io" "\<And>n. on_remove io n"
    and d: "distinct (dir p)" and n: "n \<in> set (dir p)" "n \<notin> set (dir (pruneBackups io p))"
  defines "kept \<equiv> filter (isBackupName dbfn) (dir (pruneBackups io p))"
  shows "isBackupName dbfn n \<and> int (length kept) = backups (mem p) \<and> (\<forall>m \<in> set kept. n < m)"
proof -
  let ?c = "sort (filter (isBackupName dbfn) (dir p))"
  let ?k = "length ?c - nat (backups (mem p))"
  have dir: "dir (pruneBackups io p) = filter (\<lambda>n. n \<notin> set (take ?k ?c)) (dir p)"
    using keep io by (simp add: pruneBackups_def prune_loop_all)
  have gone: "n \<in> set (take ?k ?c)" using n by (simp add: dir)
  then have "n \<in> set ?c" by (rule in_set_takeD)
  then have backup: "isBackupName dbfn n" by simp
  have dc: "distinct ?c" using d by simp
  have kept: "set kept = set (drop ?k ?c)"
  proof -
    have "set kept = set ?c - set (take ?k ?c)" by (auto simp: kept_def dir)
    also have "\<dots> = set (drop ?k ?c)"
    proof -
      have "set ?c = set (take ?k ?c) \<union> set (drop ?k ?c)"
        by (metis append_take_drop_id set_append)
      moreover have "set (take ?k ?c) \<inter> set (drop ?k ?c) = {}"
        using set_take_disj_set_drop_if_distinct [OF dc, of ?k ?k] by simp
      ultimately show ?thesis by blast
    qed
    finally show ?thesis .
  qed
  have "distinct kept" using d by (simp add: kept_def dir)
  then have "length kept = length (drop ?k ?c)"
    using kept dc by (metis distinct_card distinct_drop)
  moreover have "?k \<noteq> 0" using gone by auto
  ultimately have len: "int (length kept) = backups (mem p)" using keep by simp
  have "n < m" if "m \<in> set kept" for m
  proof -
    have "sorted (take ?k ?c @ drop ?k ?c)" by simp
    then have "n \<le> m" using gone that kept unfolding sorted_append by blast
    moreover have "n \<noteq> m"
      using gone that kept set_take_disj_set_drop_if_distinct [OF dc, of ?k ?k] by auto
    ultimately show ?thesis by simp
  qed
  with backup len show ?thesis by blast
qed

definition two_backups :: proc where
  "two_backups = (sample_proc FsyncNo)\<lparr>mem := SetBackups 1 init_store,
     dir := [dbfn, dbfn @ ''.250101000000'', dbfn @ ''.260101000000'']\<rparr>"

lemma backup_names:
  "isBackupName dbfn (dbfn @ ''.250101000000'')" "isBackupName dbfn (dbfn @ ''.260101000000'')"
  "\<not> isBackupName dbfn dbfn"
  by (simp_all add: isBackupName_def dbfn_def has_prefix_def is_digit_def)

lemma pruned_two: "dir (pruneBackups sample_io two_backups) = [dbfn, dbfn @ ''.260101000000'']"
proof -
  have "filter (isBackupName dbfn) (dir two_backups) = [dbfn @ ''.250101000000'', dbfn @ ''.260101000000'']"
    by (simp add: two_backups_def backup_names)
  moreover have "sort [dbfn @ ''.250101000000'', dbfn @ ''.260101000000''] =
      [dbfn @ ''.250101000000'', dbfn @ ''.260101000000'']"
    by (rule sorted_sort_id) (simp add: dbfn_def less_eq_list_code less_char_def)
  ultimately show ?thesis
    by (simp add: pruneBackups_def sample_io_def two_backups_def sample_proc_def SetBackups_def init_store_def dbfn_def)
qed

theorem prune_keeps_newest_witness:
  "isBackupName dbfn (dbfn @ ''.250101000000'') \<and>
   length (filter (isBackupName dbfn) (dir (pruneBackups sample_io two_backups))) = 1"
proof -
  have "isBackupName dbfn (dbfn @ ''.250101000000'') \<and>
     int (length (filter (isBackupName dbfn) (dir (pruneBackups sample_io two_backups)))) = backups (mem two_backups) \<and>
     (\<forall>m \<in> set (filter (isBackupName dbfn) (dir (pruneBackups sample_io two_backups))). dbfn @ ''.250101000000'' < m)"
    by (rule prune_keeps_newest)
      (simp_all add: pruned_two, simp_all add: two_backups_def SetBackups_def init_store_def sample_io_def dbfn_def)
  then show ?thesis by (simp add: two_backups_def SetBackups_def)
qed

subsection \<open>Where the log and the memory come apart\<close>

text \<open>A record queued behind a vacuum request is already in the snapshot the vacuum takes and
  is appended after it, so a replay applies it twice. An append to an array is then doubled.\<close>

theorem vacuum_replays_queued:
  fixes io1 io2 io3 :: answers
  assumes p: "store_ok (mem p)" "snapshot_ok (mem p)" "buf p = []"
    and io: "on_temp_open io" "on_temp_write io" "on_rename io" "on_reopen io"
    and row: "row_ok row" "length (record_bytes row) < 64 * 1024"
    and whole: "\<not> write_err (on_write io3)" "length (record_bytes row) \<le> written (on_write io3)"
    and parse: "gjsonParse L (doc_text (document (mem p))) = doc_view (document (mem p))"
      "nl \<notin> set (doc_text (document (mem p)))"
  defines "p2 \<equiv> commit io3 (write_row io1 io2 row (snd (dump io p)))"
  shows "document (fst (replay_loop L (aof p2) st0 0)) = doc_apply L row (document (mem p))"
proof -
  obtain q where q: "dump io p = (False, q)" "aof q = snapshot_record (mem p)" "buf q = []" "opened q"
    using dump_result [OF p(2,3) io] by blast
  let ?h = "handled row (q\<lparr>buf := record_bytes row\<rparr>)"
  have cmd: "command row = SetRawCmd \<or> command row = DelCmd" using row(1) by (simp add: row_ok_def)
  have h: "write_row io1 io2 row q = ?h"
    using cmd q(3,4) row(2) by (auto simp: write_row_def bound_buf_def handled_def)
  have ne: "record_bytes row \<noteq> []" using cmd by (auto simp: record_bytes_def)
  have "aof (commit io3 ?h) = aof q @ record_bytes row"
  proof -
    have "flush io3 ?h = (False, ?h\<lparr>aof := aof ?h @ buf ?h, fsize := fsize ?h + length (buf ?h), buf := [],
        unsynced := True, mem := (mem ?h)\<lparr>writesRefused := False\<rparr>\<rparr>)"
      using q(4) ne whole by (intro flush_working) (simp_all add: handled_def)
    then show ?thesis
      by (auto simp: commit_def syncNow_def release_def handled_def split: prod.split bool.split)
  qed
  then have "aof p2 = snapshot_record (mem p) @ log_bytes [row]"
    using q h by (simp add: p2_def log_bytes_def)
  then show ?thesis
    using replay_rewritten [OF p(1) parse, of "[row]" st0] row(1) by simp
qed

text \<open>The document \<open>{"a":[1]}\<close>, reached by appending \<open>1\<close> to an empty array.\<close>

definition append_libs :: libs where
  "append_libs = sample_libs\<lparr>gjsonParse := (\<lambda>s. if s = ''{\"a\":[1]}'' then GObject [(''a'', ''\"a\"'', GArray [GOther ''1''])] else GOther s)\<rparr>"

definition appended_proc :: proc where
  "appended_proc = (sample_proc FsyncNo)\<lparr>mem := init_store
     \<lparr>configRoot := obj_put ''a'' (Arr [Leaf ''1'']) newTreeObj, configStale := True\<rparr>\<rparr>"

definition append_row :: persistable where
  "append_row = mk_row SetRawCmd ''a.-1'' ''1''"

lemma appended_document: "document (mem appended_proc) = DObj [(''a'', ''\"a\"'', DArr [DLeaf ''1''])]"
proof -
  have "obj_put ''a'' (Arr [Leaf ''1'']) newTreeObj = TreeObj [''a''] [''\"a\"''] [Arr [Leaf ''1'']] (Map.empty(''a'' \<mapsto> 0))"
    by (simp add: obj_put_def obj_set_def newTreeObj_def stringifyJSON_def)
  then show ?thesis by (simp add: document_def appended_proc_def obj_entries_def)
qed

lemma appended_ok: "store_ok (mem appended_proc)" "snapshot_ok (mem appended_proc)"
proof -
  have "doc_ok (document (mem appended_proc))"
    unfolding appended_document
    by (simp add: leaf_ok_def canonicalNumberText_def scan_int_def scan_frac_def scan_exp_def is_digit_def)
  moreover have "wf_node (Obj (configRoot (mem appended_proc)))"
    using wf_put_node [OF wf_new, of "Arr [Leaf ''1'']" "''a''"] by (simp add: appended_proc_def)
  ultimately show "store_ok (mem appended_proc)" by (simp add: store_ok_def node_ok_def document_def)
  show "snapshot_ok (mem appended_proc)" by (simp add: snapshot_ok_def appended_proc_def)
qed

lemma append_twice:
  "doc_apply append_libs append_row (DObj [(''a'', ''\"a\"'', DArr [DLeaf ''1''])]) =
     DObj [(''a'', ''\"a\"'', DArr [DLeaf ''1'', DLeaf ''1''])]"
  by (simp add: doc_apply_def append_row_def mk_row_def spec_write_def splitTreePath_def nodeFromRaw_def
      canonicalNumberText_def scan_int_def scan_frac_def scan_exp_def is_digit_def entry_def old_value_def
      put_entry_def)

theorem vacuum_replays_queued_witness:
  "document (fst (replay_loop append_libs
     (aof (commit sample_io (write_row sample_io sample_io append_row (snd (dump sample_io appended_proc)))))
     init_store 0)) \<noteq> document (mem appended_proc)"
proof -
  have "document (fst (replay_loop append_libs
     (aof (commit sample_io (write_row sample_io sample_io append_row (snd (dump sample_io appended_proc)))))
     init_store 0)) = doc_apply append_libs append_row (document (mem appended_proc))"
    by (rule vacuum_replays_queued [OF appended_ok])
      (simp_all add: appended_document, simp_all add: appended_proc_def sample_proc_def sample_io_def
        append_row_def row_ok_def mk_row_def record_bytes_def append_libs_def)
  then show ?thesis unfolding appended_document append_twice by simp
qed

text \<open>A vacuum whose reopening of the file failed leaves no open file: a record received after
  it is dropped and its writer released, under \<open>always\<close> too, so an acknowledged write is on no
  disk.\<close>

theorem failed_reopen_loses_writes:
  fixes io1 io2 io3 :: answers
  assumes p: "snapshot_ok (mem p)" "buf p = []" "\<not> fatal p"
    and io: "on_temp_open io" "on_temp_write io" "\<not> on_reopen io"
    and row: "command row = SetRawCmd" "done_chan row = Some c"
  defines "p1 \<equiv> snd (dump io p)"
  defines "p2 \<equiv> commit io3 (write_row io1 io2 row p1)"
  shows "c \<in> set (closed p2) \<and> aof p2 = aof p1 \<and> buf p2 = [] \<and> \<not> fatal p2"
proof -
  obtain e q where d: "doEraseAndDump io p = (e, q)" by (cases "doEraseAndDump io p")
  note res = doEraseAndDump_result [OF p(1) d]
  have q: "e" "\<not> opened q" "buf q = []" "\<not> fatal q" using res(3,4) io p(2,3) by simp_all
  have "dump io p = (False, statSize io q)"
    using d q(1) p(2) by (simp add: dump_def flush_def)
  then have p1: "\<not> opened p1" "buf p1 = []" "\<not> fatal p1" "closed p1 = closed p1"
    using q by (simp_all add: p1_def statSize_def)
  have "write_row io1 io2 row p1 = handled row p1"
    using row(1) p1 by (simp add: write_row_def bound_buf_def handled_def)
  then have "p2 = commit io3 (handled row p1)" by (simp add: p2_def)
  also have "\<dots> = release (handled row p1)"
    using p1 by (simp add: commit_def flush_def syncNow_def handled_def)
  finally show ?thesis using p1 row(2) by (simp add: release_def handled_def)
qed

theorem failed_reopen_loses_writes_witness:
  "0 \<in> set (closed (commit sample_io (write_row sample_io sample_io
     ((mk_row SetRawCmd ''k'' ''1'')\<lparr>done_chan := Some 0\<rparr>)
     (snd (dump (sample_io\<lparr>on_reopen := False\<rparr>) (sample_proc FsyncAlways))))))"
  using failed_reopen_loses_writes [of "sample_proc FsyncAlways" "sample_io\<lparr>on_reopen := False\<rparr>"
      "(mk_row SetRawCmd ''k'' ''1'')\<lparr>done_chan := Some 0\<rparr>" 0 sample_io sample_io sample_io]
    sample_mem_ok(2) [of FsyncAlways]
  by (simp add: sample_io_def mk_row_def) (simp add: sample_proc_def)

end
