(* ===== verification/Lifecycle.thy ===== *)
theory Lifecycle
  imports PersistProps
begin

text \<open>
  The end of a process and the start of the next: \<open>Close\<close> of \<open>internal/db/db.go\<close> with the writer
  goroutine running beside it, and \<open>Init\<close> on the file it leaves.
\<close>

subsection \<open>The writer alone\<close>

text \<open>The steps of the goroutine without its clients; \<open>P\<close> says which answers it meets.\<close>

inductive writer_step :: "(answers \<Rightarrow> bool) \<Rightarrow> bool \<times> proc \<Rightarrow> bool \<times> proc \<Rightarrow> bool" for P where
  receives: "P io \<Longrightarrow> P io2 \<Longrightarrow> \<not> fatal p \<Longrightarrow> \<not> exited p \<Longrightarrow> persists (mem p) = row # rest \<Longrightarrow>
    writer_step P (b, p) (True, write_row io io2 row (p\<lparr>mem := (mem p)\<lparr>persists := rest\<rparr>\<rparr>))"
| ends: "P io \<Longrightarrow> \<not> fatal p \<Longrightarrow> \<not> exited p \<Longrightarrow> persists (mem p) = [] \<Longrightarrow>
    writer_step P (True, p) (False, commit io p)"
| ticks: "P io \<Longrightarrow> \<not> fatal p \<Longrightarrow> \<not> exited p \<Longrightarrow> writer_step P (False, p) (False, tick io p)"

lemma writer_step_pstep: "writer_step P s s' \<Longrightarrow> \<exists>rows. pstep L s rows s'"
  by (induction rule: writer_step.induct) (blast intro: pstep.intros)+

subsection \<open>Close\<close>

text \<open>
  \<open>Close(true)\<close>, the last thing \<open>main\<close> does: with a log it waits until the writer has taken every
  record, asks for a vacuum, and waits again; then it stops the writer and closes the file. The
  process may end before that, in a \<open>log.Fatalf\<close>.
\<close>

inductive Close_run :: "(answers \<Rightarrow> bool) \<Rightarrow> bool \<times> proc \<Rightarrow> proc \<Rightarrow> bool" for P where
  with_log: "aofEnabled (mem p) \<Longrightarrow>
    (writer_step P)\<^sup>*\<^sup>* (b, p) (b1, p1) \<Longrightarrow> wg (mem p1) = 0 \<Longrightarrow>
    (writer_step P)\<^sup>*\<^sup>* (b1, p1\<lparr>mem := Vacuum (mem p1)\<rparr>) (b2, p2) \<Longrightarrow> wg (mem p2) = 0 \<Longrightarrow>
    (writer_step P)\<^sup>*\<^sup>* (b2, stopPersist p2) (b3, p3) \<Longrightarrow> exited p3 \<Longrightarrow> \<not> fatal p3 \<Longrightarrow>
    Close_run P (b, p) (close_file io p3)"
| without_log: "\<not> aofEnabled (mem p) \<Longrightarrow>
    (writer_step P)\<^sup>*\<^sup>* (b, stopPersist p) (b3, p3) \<Longrightarrow> exited p3 \<Longrightarrow> \<not> fatal p3 \<Longrightarrow>
    Close_run P (b, p) (close_file io p3)"

subsection \<open>What the writer keeps\<close>

definition same_store :: "proc \<Rightarrow> proc \<Rightarrow> bool" where
  "same_store p p' \<longleftrightarrow>
     configRoot (mem p') = configRoot (mem p) \<and> configSnapshot (mem p') = configSnapshot (mem p) \<and>
     configStale (mem p') = configStale (mem p) \<and> persists (mem p') = persists (mem p) \<and> wg (mem p') = wg (mem p) \<and>
     aofEnabled (mem p') = aofEnabled (mem p) \<and> chans (mem p') = chans (mem p)"

text \<open>The file and the buffer together stay what they are, if the recorded size is that of the file;
  with nothing to write, or no file, nothing is done to either.\<close>

definition same_log :: "proc \<Rightarrow> proc \<Rightarrow> bool" where
  "same_log p p' \<longleftrightarrow>
     (opened p \<and> fsize p = length (aof p) \<longrightarrow>
        opened p' \<and> fsize p' = length (aof p') \<and> aof p' @ buf p' = aof p @ buf p) \<and>
     (buf p = [] \<or> \<not> opened p \<longrightarrow> aof p' = aof p \<and> buf p' = buf p \<and> opened p' = opened p)"

definition calm :: "proc \<Rightarrow> proc \<Rightarrow> bool" where
  "calm p p' \<longleftrightarrow> same_store p p' \<and> (fatal p' \<or> same_log p p' \<and> exited p' = exited p)"

lemmas calm_defs = calm_def same_store_def same_log_def

lemma commit_calm: "\<not> fatal p \<Longrightarrow> calm p (commit io p)"
  by (cases rule: flush_cases [of io p]) (auto simp: calm_defs commit_def failed_def syncNow_def release_def)

lemma tick_calm: "\<not> fatal p \<Longrightarrow> calm p (tick io p)"
  by (cases rule: flush_cases [of io p]) (auto simp: calm_defs tick_def failed_def syncNow_def)

lemma bound_calm: "\<not> fatal p \<Longrightarrow> calm p (snd (bound_buf io p))"
  by (cases rule: flush_cases [of io p]) (auto simp: calm_defs bound_buf_def failed_def)

lemma flush_calm: "\<not> fatal p \<Longrightarrow> calm p (snd (flush io p))"
  by (cases rule: flush_cases [of io p]) (auto simp: calm_defs)

lemma stop_is_fatal:
  "bound_buf io p = (True, p') \<Longrightarrow> fatal p'"
  "(case flush io p of (True, p1) \<Rightarrow> failed p1 | (False, p1) \<Rightarrow> (False, p1)) = (True, p') \<Longrightarrow> fatal p'"
  by (auto simp: bound_buf_def failed_def split: prod.splits bool.splits if_splits)

definition data_row :: "persistable \<Rightarrow> bool" where
  "data_row row \<longleftrightarrow> command row \<noteq> DumpCmd \<and> command row \<noteq> CloseCmd"

text \<open>A writer that is up to date: what it has on file, in its buffer and in its queue is \<open>G\<close>.\<close>

definition writing :: "bytes \<Rightarrow> proc \<Rightarrow> bool" where
  "writing G p \<longleftrightarrow>
     opened p \<and> fsize p = length (aof p) \<and> \<not> exited p \<and> wg (mem p) = length (persists (mem p)) \<and>
     list_all data_row (persists (mem p)) \<and> aof p @ buf p @ log_bytes (persists (mem p)) = G"

definition same_config :: "proc \<Rightarrow> proc \<Rightarrow> bool" where
  "same_config p p' \<longleftrightarrow>
     configRoot (mem p') = configRoot (mem p) \<and> configSnapshot (mem p') = configSnapshot (mem p) \<and>
     configStale (mem p') = configStale (mem p) \<and> aofEnabled (mem p') = aofEnabled (mem p)"

lemma calm_writing: "calm p p' \<Longrightarrow> writing G p \<Longrightarrow> \<not> fatal p' \<Longrightarrow> writing G p' \<and> same_config p p'"
  by (auto simp: calm_defs writing_def same_config_def append_assoc [symmetric] simp del: append_assoc)

lemma write_data_row:
  assumes "writing G p" "\<not> fatal p" "persists (mem p) = row # rest"
    and "p' = write_row io io2 row (p\<lparr>mem := (mem p)\<lparr>persists := rest\<rparr>\<rparr>)" "\<not> fatal p'"
  shows "writing G p' \<and> same_config p p'"
proof -
  let ?q = "handled row ((p\<lparr>mem := (mem p)\<lparr>persists := rest\<rparr>\<rparr>)\<lparr>buf := buf p @ record_bytes row\<rparr>)"
  have row: "command row \<noteq> DumpCmd" "command row \<noteq> CloseCmd"
    using assms(1,3) by (simp_all add: writing_def data_row_def)
  have p': "p' = (case bound_buf io2 ?q of (True, r) \<Rightarrow> r\<lparr>exited := True\<rparr> | (False, r) \<Rightarrow> r)"
    using row assms(1,4) by (cases "command row") (simp_all add: write_row_def writing_def)
  have q: "writing G ?q" "same_config p ?q" "\<not> fatal ?q"
    using assms(1-3) by (simp_all add: writing_def handled_def same_config_def log_bytes_def)
  obtain e r where b: "bound_buf io2 ?q = (e, r)" by fastforce
  then have "\<not> e" using p' assms(5) stop_is_fatal(1) [of io2 ?q r] by (cases e) auto
  then have "p' = r" using p' b by simp
  then show ?thesis
    using calm_writing [OF bound_calm [OF q(3), of io2] q(1)] b assms(5) q(2) by (simp add: same_config_def)
qed

lemma writer_step_writing:
  "writer_step P (b, p) (b', p') \<Longrightarrow> writing G p \<Longrightarrow> \<not> fatal p' \<Longrightarrow> writing G p' \<and> same_config p p'"
proof (induction "(b, p)" "(b', p')" rule: writer_step.induct)
  case (receives io io2 row rest)
  then show ?case using write_data_row by blast
next
  case (ends io)
  then show ?case using calm_writing [OF commit_calm] by blast
next
  case (ticks io)
  then show ?case using calm_writing [OF tick_calm] by blast
qed

lemma writer_step_alive: "writer_step P (b, p) s \<Longrightarrow> \<not> fatal p \<and> \<not> exited p"
  by (erule writer_step.cases) auto

lemma same_config_trans: "same_config p q \<Longrightarrow> same_config q r \<Longrightarrow> same_config p r"
  by (simp add: same_config_def)

lemma writer_steps_writing:
  "(writer_step P)\<^sup>*\<^sup>* (b, p) (b', p') \<Longrightarrow> writing G p \<Longrightarrow> \<not> fatal p' \<Longrightarrow> writing G p' \<and> same_config p p'"
proof (induction rule: rtranclp_induct2)
  case refl
  then show ?case by (simp add: same_config_def)
next
  case (step c q c' q')
  then show ?case
    using writer_step_alive [OF step.hyps(2)] writer_step_writing [OF step.hyps(2)] same_config_trans by blast
qed

subsection \<open>The vacuum of \<open>Close\<close> and its end\<close>

text \<open>
  What a later start finds: \<open>G\<close> says whether a content is good. The file and the buffer are good
  together, or there is no file open any more, and then the file alone if nothing is left over.
\<close>

definition settled :: "(bytes \<Rightarrow> bool) \<Rightarrow> proc \<Rightarrow> bool" where
  "settled G p \<longleftrightarrow>
     (if opened p then (buf p = [] \<or> fsize p = length (aof p)) \<and> G (aof p @ buf p)
      else buf p = [] \<longrightarrow> G (aof p))"

lemma calm_settled: "calm p p' \<Longrightarrow> settled G p \<Longrightarrow> \<not> fatal p' \<Longrightarrow> settled G p'"
  by (cases "opened p"; cases "buf p = []") (auto simp: calm_defs settled_def)

lemma writeSnapshotFile_keeps:
  "writeSnapshotFile io p = (r, q) \<Longrightarrow>
    aof q = aof p \<and> exited q = exited p \<and> persists (mem q) = persists (mem p) \<and> wg (mem q) = wg (mem p) \<and>
    aofEnabled (mem q) = aofEnabled (mem p)"
  by (cases "on_temp_open io") (auto simp: writeSnapshotFile_def snapshot_def Let_def split: if_splits)

lemma swap_in_exited: "exited (swap_in io c p) = exited p"
  by (simp add: swap_in_def pruneBackups_def Let_def)

lemma reopen_exited: "reopen io p = (e, p') \<Longrightarrow> exited p' = exited p"
  by (auto simp: reopen_def Let_def split: if_splits)

lemma vacuum_fields:
  assumes "doEraseAndDump io p = (e, p')"
  shows "exited p' = exited p \<and> persists (mem p') = persists (mem p) \<and> wg (mem p') = wg (mem p) \<and>
    aofEnabled (mem p') = aofEnabled (mem p) \<and> (e \<longrightarrow> opened p' \<longrightarrow> aof p' = aof p)"
proof -
  obtain r q where w: "writeSnapshotFile io p = (r, q)" by fastforce
  note k = writeSnapshotFile_keeps [OF w]
  show ?thesis
  proof (cases r)
    case None
    then show ?thesis using assms w k by (simp add: doEraseAndDump_def)
  next
    case (Some c)
    obtain f p2 where re: "reopen io (swap_in io c q) = (f, p2)" by fastforce
    then have "p' = p2" "e = (f \<or> \<not> on_rename io)"
      using assms w Some by (auto simp: doEraseAndDump_def split: bool.splits)
    then show ?thesis using k reopen_keeps [OF re] reopen_exited [OF re] by (auto simp: swap_in_exited)
  qed
qed

lemma dump_settled:
  assumes "opened p" "fsize p = length (aof p)" "G (aof p @ buf p)" and "on_stat io"
    and snap: "G (snapshot_record (mem p))" "snapshot_ok (mem p)" and "\<not> fatal p"
    and run: "dump io p = (stop, p')" "\<not> fatal p'"
  shows "settled G p' \<and> \<not> stop \<and> exited p' = exited p \<and> persists (mem p') = persists (mem p) \<and>
    wg (mem p') = wg (mem p) \<and> document (mem p') = document (mem p)"
proof -
  obtain s p1 where f: "(case flush io p of (True, p1) \<Rightarrow> failed p1 | (False, p1) \<Rightarrow> (False, p1)) = (s, p1)"
    by fastforce
  have s: "\<not> s" using f run stop_is_fatal(2) [of io p p1] by (cases s) (auto simp: dump_def)
  have "calm p p1"
    using f s by (cases rule: flush_cases [of io p]) (auto simp: calm_defs failed_def split: if_splits)
  obtain e p2 where d: "doEraseAndDump io p1 = (e, p2)" by fastforce
  have p': "\<not> stop" "p' = (if e then statSize io p2 else
      statSize io (p2\<lparr>buf := [], unsynced := False, mem := (mem p2)\<lparr>writesRefused := False\<rparr>\<rparr>))"
    using run(1) f s d by (auto simp: dump_def split: bool.splits)
  have same: "same_store p p1" using \<open>calm p p1\<close> by (simp add: calm_def)
  have snap1: "snapshot_ok (mem p1)" "snapshot_record (mem p1) = snapshot_record (mem p)"
      "document (mem p1) = document (mem p)"
    using snap(2) same by (simp_all add: same_store_def snapshot_ok_def document_def snapshot_record_def)
  note res = doEraseAndDump_result [OF snap1(1) d] and fields = vacuum_fields [OF d]
  have alive: "\<not> fatal p1" using res(3) p'(2) run(2) by (auto simp: statSize_def split: if_splits)
  then have log: "opened p1" "fsize p1 = length (aof p1)" "aof p1 @ buf p1 = aof p @ buf p" "exited p1 = exited p"
    using \<open>calm p p1\<close> assms(1,2) by (auto simp: calm_def same_log_def)
  have "settled G p'"
  proof (cases e)
    case False
    then have "aof p2 = snapshot_record (mem p)" "opened p2" using res(2) snap1(2) by auto
    then show ?thesis using p'(2) False snap(1) by (simp add: settled_def statSize_def)
  next
    case True
    have "aof p2 = snapshot_record (mem p) \<or> aof p2 = aof p1" "buf p2 = buf p1"
      using res(1,3) snap1(2) by auto
    moreover have "opened p2 \<Longrightarrow> aof p2 = aof p1" using fields True by blast
    moreover have "G (aof p1 @ buf p1)" using assms(3) log(3) by simp
    ultimately show ?thesis using p'(2) True assms(4) snap(1) by (auto simp: settled_def statSize_def)
  qed
  then show ?thesis
    using p' fields res(3) same snap1(3) log(4) by (auto simp: statSize_def same_store_def document_def)
qed

text \<open>The three stages, for a process whose document is \<open>D\<close>.\<close>

definition vacuuming :: "(bytes \<Rightarrow> bool) \<Rightarrow> doc \<Rightarrow> proc \<Rightarrow> bool" where
  "vacuuming G D p \<longleftrightarrow>
     opened p \<and> fsize p = length (aof p) \<and> G (aof p @ buf p) \<and> \<not> exited p \<and> wg (mem p) = 1 \<and>
     (\<exists>row. persists (mem p) = [row] \<and> command row = DumpCmd) \<and>
     snapshot_ok (mem p) \<and> G (snapshot_record (mem p)) \<and> document (mem p) = D"

definition vacuumed :: "(bytes \<Rightarrow> bool) \<Rightarrow> doc \<Rightarrow> proc \<Rightarrow> bool" where
  "vacuumed G D p \<longleftrightarrow> settled G p \<and> \<not> exited p \<and> persists (mem p) = [] \<and> wg (mem p) = 0 \<and> document (mem p) = D"

definition stopping :: "(bytes \<Rightarrow> bool) \<Rightarrow> doc \<Rightarrow> proc \<Rightarrow> bool" where
  "stopping G D p \<longleftrightarrow>
     settled G p \<and> document (mem p) = D \<and>
     (exited p \<or> (\<exists>row. persists (mem p) = [row] \<and> command row = CloseCmd))"

lemma calm_stages:
  assumes "calm p p'" "\<not> fatal p'"
  shows "vacuuming G D p \<Longrightarrow> vacuuming G D p'" and "vacuumed G D p \<Longrightarrow> vacuumed G D p'"
    and "stopping G D p \<Longrightarrow> stopping G D p'"
  using assms calm_settled [OF assms(1), of G]
  by (auto simp: calm_defs vacuuming_def vacuumed_def stopping_def snapshot_ok_def snapshot_record_def document_def)

lemma receive_dump:
  assumes "vacuuming G D p" "\<not> fatal p" "persists (mem p) = row # rest" "on_stat io"
    and p': "p' = write_row io io2 row (p\<lparr>mem := (mem p)\<lparr>persists := rest\<rparr>\<rparr>)" "\<not> fatal p'"
  shows "vacuumed G D p'"
proof -
  let ?p = "p\<lparr>mem := (mem p)\<lparr>persists := rest\<rparr>\<rparr>"
  have row: "command row = DumpCmd" "rest = []" using assms(1,3) by (auto simp: vacuuming_def)
  obtain stop p1 where d: "dump io ?p = (stop, p1)" by fastforce
  obtain e p2 where b: "bound_buf io2 (handled row p1) = (e, p2)" by fastforce
  have w: "p' = (if stop then p1\<lparr>exited := True\<rparr> else if e then p2\<lparr>exited := True\<rparr> else p2)"
    using p'(1) row(1) d b by (simp add: write_row_def split: bool.split)
  have "fatal p1 \<Longrightarrow> fatal p2"
    using b by (auto simp: bound_buf_def handled_def flush_def failed_def Let_def split: prod.splits bool.splits if_splits)
  then have alive: "\<not> fatal p1" using w p'(2) by (auto split: if_splits)
  have ok: "settled G p1" "\<not> stop" "\<not> exited p1" "persists (mem p1) = []" "wg (mem p1) = 1" "document (mem p1) = D"
    using dump_settled [OF _ _ _ assms(4) _ _ _ d alive, of G] assms(1,2) row(2)
    by (auto simp: vacuuming_def snapshot_ok_def snapshot_record_def document_def)
  have "\<not> e" using b w p'(2) ok(2) stop_is_fatal(1) [of io2 _ p2] by (cases e) auto
  then have "p' = p2" using w ok(2) by simp
  have "vacuumed G D (handled row p1)"
    using ok by (simp add: vacuumed_def handled_def settled_def document_def)
  then show ?thesis
    using calm_stages(2) [OF bound_calm [of "handled row p1" io2]] b p'(2) \<open>p' = p2\<close> alive
    by (simp add: handled_def)
qed

lemma receive_close:
  assumes "stopping G D p" "\<not> fatal p" "\<not> exited p" "persists (mem p) = row # rest"
    and p': "p' = write_row io io2 row (p\<lparr>mem := (mem p)\<lparr>persists := rest\<rparr>\<rparr>)" "\<not> fatal p'"
  shows "stopping G D p'"
proof -
  let ?p = "p\<lparr>mem := (mem p)\<lparr>persists := rest\<rparr>\<rparr>"
  have row: "command row = CloseCmd" using assms(1,3,4) by (auto simp: stopping_def)
  have "settled G ?p" "document (mem ?p) = D"
    using assms(1) by (simp_all add: stopping_def settled_def document_def)
  moreover have "p' = close_writer io ?p" using p'(1) row by (simp add: write_row_def)
  ultimately show ?thesis
    using p'(2)
    by (cases rule: flush_cases [of io ?p])
      (auto simp: close_writer_def failed_def syncNow_def release_def stopping_def settled_def document_def split: if_splits)
qed

lemma step_stages:
  assumes "writer_step on_stat (b, p) (b', p')" "\<not> fatal p'"
  shows "vacuuming G D p \<Longrightarrow> vacuuming G D p' \<or> vacuumed G D p'" and "vacuumed G D p \<Longrightarrow> vacuumed G D p'"
    and "stopping G D p \<Longrightarrow> stopping G D p'"
  using assms
proof (induction "(b, p)" "(b', p')" rule: writer_step.induct)
  case (receives io io2 row rest)
  {
    case 1
    then show ?case using receives receive_dump by blast
  next
    case 2
    then show ?case using receives by (simp add: vacuumed_def)
  next
    case 3
    then show ?case using receives receive_close by blast
  }
next
  case (ends io)
  {
    case 1
    then show ?case using ends calm_stages(1) [OF commit_calm] by blast
  next
    case 2
    then show ?case using ends calm_stages(2) [OF commit_calm] by blast
  next
    case 3
    then show ?case using ends calm_stages(3) [OF commit_calm] by blast
  }
next
  case (ticks io)
  {
    case 1
    then show ?case using ticks calm_stages(1) [OF tick_calm] by blast
  next
    case 2
    then show ?case using ticks calm_stages(2) [OF tick_calm] by blast
  next
    case 3
    then show ?case using ticks calm_stages(3) [OF tick_calm] by blast
  }
qed

lemma steps_stages:
  assumes "(writer_step on_stat)\<^sup>*\<^sup>* (b, p) (b', p')" "\<not> fatal p'"
  shows "vacuuming G D p \<or> vacuumed G D p \<Longrightarrow> vacuuming G D p' \<or> vacuumed G D p'"
    and "stopping G D p \<Longrightarrow> stopping G D p'"
  using assms
proof (induction rule: rtranclp_induct2)
  case (step c q c' q')
  {
    case 1
    then show ?case using step writer_step_alive [OF step.hyps(2)] step_stages(1,2) [OF step.hyps(2)] by blast
  next
    case 2
    then show ?case using step writer_step_alive [OF step.hyps(2)] step_stages(3) [OF step.hyps(2)] by blast
  }
qed simp_all

subsection \<open>Stopping and starting again\<close>

text \<open>The process that starts on the file another has left; \<open>st\<close> is its state before \<open>Init\<close>.\<close>

definition started_on :: "bytes \<Rightarrow> store \<Rightarrow> proc" where
  "started_on f st =
     \<lparr>mem = st, buf = [], fsize = 0, waiters = [], unsynced = False, opened = False, aof = f, synced = f,
      dir = [dbfn], closed = [], fatal = False, exited = True\<rparr>"

lemma Init_document:
  assumes "aofEnabled st" "\<not> fatal (Init L True io (started_on f st))"
  shows "document (mem (Init L True io (started_on f st))) = document (fst (replay_loop L f st 0))"
proof -
  obtain e p1 where re: "reopen io (started_on f st) = (e, p1)" by fastforce
  note k = reopen_keeps [OF re]
  have e: "\<not> e" using assms re by (cases e) (auto simp: Init_def started_on_def)
  obtain ok st' f' where r: "replayAOF L (on_stat io) (on_truncate io) (on_sync io) (aof p1) (mem p1) = (ok, st', f')"
    by (metis prod_cases3)
  have "st' = fst (replay_loop L f st 0)"
    using r k by (auto simp: replayAOF_def started_on_def split: prod.splits if_splits)
  moreover have "ok" using assms re e r k by (cases ok) (auto simp: Init_def started_on_def Let_def)
  ultimately show ?thesis
    using assms(1) re e r k by (simp add: Init_def started_on_def Let_def persist_start_def statSize_def)
qed


text \<open>A process whose file holds \<open>{"a":[1]}\<close>.\<close>

definition closing_proc :: proc where
  "closing_proc = appended_proc\<lparr>aof := snapshot_record (mem appended_proc),
     fsize := length (snapshot_record (mem appended_proc))\<rparr>"

lemma closing_fields:
  "opened closing_proc" "buf closing_proc = []" "fsize closing_proc = length (aof closing_proc)" "\<not> exited closing_proc"
  "\<not> fatal closing_proc" "persists (mem closing_proc) = []" "wg (mem closing_proc) = 0" "aofEnabled (mem closing_proc)"
  "fsyncPolicy (mem closing_proc) \<noteq> FsyncAlways"
  by (simp_all add: closing_proc_def appended_proc_def sample_proc_def init_store_def)

lemma dump_quiet:
  assumes "dump io p = (s, p')" "buf p = []" "snapshot_ok (mem p)"
  shows "fatal p' = fatal p \<and> exited p' = exited p \<and> wg (mem p') = wg (mem p) \<and> persists (mem p') = persists (mem p)"
proof -
  obtain e q where d: "doEraseAndDump io p = (e, q)" by fastforce
  then have "p' = (if e then statSize io q
      else statSize io (q\<lparr>buf := [], unsynced := False, mem := (mem q)\<lparr>writesRefused := False\<rparr>\<rparr>))"
    using assms(1,2) by (auto simp: dump_def flush_def split: bool.splits)
  then show ?thesis
    using vacuum_fields [OF d] doEraseAndDump_result(3) [OF assms(3) d] by (auto simp: statSize_def)
qed

lemma Init_alive:
  assumes "on_reopen io" "on_stat io" "on_truncate io" "on_sync io"
  shows "\<not> fatal (Init L True io (started_on f st))"
  using assms
  by (simp add: Init_def reopen_def started_on_def replayAOF_def persist_start_def statSize_def Let_def split: prod.split)

lemma closing_run: "\<exists>p'. Close_run on_stat (False, closing_proc) p' \<and> buf p' = []"
proof -
  let ?dump = "mk_row DumpCmd [] []" and ?close = "mk_row CloseCmd [] []"
  let ?v = "closing_proc\<lparr>mem := Vacuum (mem closing_proc)\<rparr>"
  let ?q = "?v\<lparr>mem := (mem ?v)\<lparr>persists := []\<rparr>\<rparr>"
  have v: "persists (mem ?v) = [?dump]" "wg (mem ?v) = 1"
    using closing_fields by (simp_all add: Vacuum_def appendAOF_def)
  have "snapshot_ok (mem ?q)"
    using appended_ok(2) by (simp add: closing_proc_def Vacuum_def appendAOF_def snapshot_ok_def document_def)
  then obtain q where d: "dump sample_io ?q = (False, q)" "buf q = []" "opened q"
    "fatal q = fatal ?q" "exited q = exited ?q" "wg (mem q) = wg (mem ?q)" "persists (mem q) = persists (mem ?q)"
    using dump_result [of ?q sample_io] dump_quiet [of sample_io ?q] closing_fields(2) by (auto simp: sample_io_def)
  define p2 where "p2 = handled ?dump q"
  have "writer_step on_stat (False, ?v) (True, write_row sample_io sample_io ?dump ?q)"
    using receives [of on_stat sample_io sample_io ?v ?dump "[]" False] v closing_fields by (simp add: sample_io_def)
  moreover have "write_row sample_io sample_io ?dump ?q = p2"
    using d(1,2) by (simp add: write_row_def mk_row_def bound_buf_def handled_def p2_def)
  ultimately have two: "(writer_step on_stat)\<^sup>*\<^sup>* (False, ?v) (True, p2)" by simp
  have p2: "wg (mem p2) = 0" "buf p2 = []" "\<not> exited p2" "\<not> fatal p2" "persists (mem p2) = []"
    using d v(2) closing_fields by (simp_all add: p2_def handled_def)
  let ?s = "stopPersist p2"
  define p3 where "p3 = write_row sample_io sample_io ?close (?s\<lparr>mem := (mem ?s)\<lparr>persists := []\<rparr>\<rparr>)"
  have "writer_step on_stat (True, ?s) (True, p3)"
    using receives [of on_stat sample_io sample_io ?s ?close "[]" True] p2
    by (simp add: p3_def stopPersist_def sample_io_def)
  moreover have "exited p3" "\<not> fatal p3" "buf p3 = []"
    using p2 by (simp_all add: p3_def write_row_def mk_row_def close_writer_def flush_def syncNow_def release_def
        stopPersist_def sample_io_def)
  moreover have "buf (close_file sample_io p3) = buf p3" by (simp add: close_file_def)
  ultimately show ?thesis
    using with_log [OF closing_fields(8) rtranclp.rtrancl_refl closing_fields(7) two p2(1) r_into_rtranclp]
    by metis
qed

lemma closing_mem: "mem closing_proc = mem appended_proc"
  by (simp add: closing_proc_def)

lemma closing_text:
  "gjsonParse append_libs (doc_text (document (mem closing_proc))) = doc_view (document (mem closing_proc))"
  "nl \<notin> set (doc_text (document (mem closing_proc)))"
  by (simp_all add: closing_mem appended_document append_libs_def)


text \<open>
  Nothing is written once the writer has stopped: what a client whose connection is still served
  does after that, and is told has succeeded, is in memory only.
\<close>

lemma stopped_writer:
  assumes "psteps L (b, p) rows (b', p')" "exited p"
  shows "rows = [] \<and> exited p' \<and> aof p' = aof p \<and> buf p' = buf p"
proof -
  have one: "r = [] \<and> exited q' \<and> aof q' = aof q \<and> buf q' = buf q" if "pstep L (c, q) r (c', q')" "exited q" for c q r c' q'
    using that by (cases rule: pstep.cases) (auto simp: stopPersist_def)
  show ?thesis
    using assms
  proof (induction "(b, p)" rows "(b', p')" arbitrary: b' p' rule: psteps.induct)
    case (psteps_step rows s1 r)
    obtain c q where "s1 = (c, q)" by fastforce
    then show ?case using psteps_step one by fastforce
  qed simp
qed

end
