(* ===== verification/Race.thy ===== *)
theory Race
  imports StoreProps
begin

text \<open>
  Writers that overlap. \<open>Set\<close>, \<open>SetRaw\<close>, \<open>Del\<close> and \<open>Clone\<close> change the document under \<open>configMu\<close> and
  queue their record after they have released it, and \<open>Clone\<close> releases it once more between reading
  its source and writing its target. Here the operations are cut where the code lets go of the
  mutex, and any number of writers take these steps in any order.
\<close>

subsection \<open>The parts of an operation\<close>

text \<open>Up to \<open>appendAOF\<close>: the error, the record that is to be queued, and the store.\<close>

definition Set_publish :: "libs \<Rightarrow> bytes \<Rightarrow> go_value \<Rightarrow> store \<Rightarrow> db_error option \<times> persistable option \<times> store" where
  "Set_publish L k v st =
     (case checkWritable st of
        Some e \<Rightarrow> (Some e, None, st)
      | None \<Rightarrow>
          (case valueToNode L v of
             Inl e \<Rightarrow> (Some e, None, st)
           | Inr n \<Rightarrow>
               let txt = (if aofEnabled st then storedText n else []) in
               (case setNode k n st of
                  (Some e, st') \<Rightarrow> (Some e, None, st')
                | (None, st') \<Rightarrow> (None, if aofEnabled st' then Some (mk_row SetRawCmd k txt) else None, st'))))"

definition SetRaw_publish :: "libs \<Rightarrow> bytes \<Rightarrow> bytes \<Rightarrow> store \<Rightarrow> db_error option \<times> persistable option \<times> store" where
  "SetRaw_publish L k raw0 st =
     (case checkWritable st of
        Some e \<Rightarrow> (Some e, None, st)
      | None \<Rightarrow>
          let raw = trim_space raw0 in
          (case canonicalScalar raw of
             Some leaf \<Rightarrow>
               (case setNode k (Leaf leaf) st of
                  (Some e, st') \<Rightarrow> (Some e, None, st')
                | (None, st') \<Rightarrow> (None, Some (mk_row SetRawCmd k leaf), st'))
           | None \<Rightarrow>
               (case decodeJSON L raw of
                  Inl e \<Rightarrow> (Some (JSONError (DecodeError e)), None, st)
                | Inr j \<Rightarrow> Set_publish L k (value_of_json j) st)))"

definition Del_publish :: "bytes \<Rightarrow> store \<Rightarrow> db_error option \<times> persistable option \<times> store" where
  "Del_publish k st =
     (case checkWritable st of
        Some e \<Rightarrow> (Some e, None, st)
      | None \<Rightarrow> (None, Some (mk_row DelCmd k []), delonly k st))"

text \<open>\<open>cloneonly\<close>: what it takes from under the mutex, and what it writes under it again.\<close>

datatype copied = CopiedLeaf bytes | CopiedText bytes

definition clone_read :: "bytes \<Rightarrow> store \<Rightarrow> copied option" where
  "clone_read fk st =
     (case treeLookupPath (Obj (configRoot st)) fk of
        None \<Rightarrow> None
      | Some src \<Rightarrow> (case src of Leaf t \<Rightarrow> Some (CopiedLeaf t) | _ \<Rightarrow> Some (CopiedText (appendTree [] src))))"

definition clone_write :: "libs \<Rightarrow> bytes \<Rightarrow> copied \<Rightarrow> store \<Rightarrow> bytes \<times> store" where
  "clone_write L tk c st =
     (case c of
        CopiedLeaf t \<Rightarrow> (case setNode tk (Leaf t) st of (Some _, st') \<Rightarrow> ([], st') | (None, st') \<Rightarrow> (t, st'))
      | CopiedText raw \<Rightarrow>
          if raw = [] then ([], st)
          else (case setrawonly L tk raw st of (Some _, st') \<Rightarrow> ([], st') | (None, st') \<Rightarrow> (raw, st')))"

definition clone_row :: "bytes \<Rightarrow> bytes \<Rightarrow> persistable option" where
  "clone_row tk v = (if v \<noteq> [] then Some (mk_row SetRawCmd tk v) else None)"

text \<open>After the mutex: the record is queued.\<close>

definition queue_row :: "persistable option \<Rightarrow> store \<Rightarrow> store" where
  "queue_row r st = (case r of None \<Rightarrow> st | Some row \<Rightarrow> appendAOF row st)"

text \<open>The parts, one right after the other, are the operations.\<close>

lemma Set_parts: "Set L k v st = (case Set_publish L k v st of (e, r, st') \<Rightarrow> (e, queue_row r st'))"
  by (simp add: Set_def Set_publish_def queue_row_def Let_def split: option.split sum.split prod.split)

lemma SetRaw_parts: "SetRaw L k raw st = (case SetRaw_publish L k raw st of (e, r, st') \<Rightarrow> (e, queue_row r st'))"
  by (simp add: SetRaw_def SetRaw_publish_def queue_row_def Set_parts Let_def split: option.split sum.split prod.split)

lemma Del_parts: "Del k st = (case Del_publish k st of (e, r, st') \<Rightarrow> (e, queue_row r st'))"
  by (simp add: Del_def Del_publish_def queue_row_def split: option.split)

lemma cloneonly_parts:
  "cloneonly L fk tk st = (case clone_read fk st of None \<Rightarrow> ([], st) | Some c \<Rightarrow> clone_write L tk c st)"
  by (simp add: cloneonly_def clone_read_def clone_write_def Let_def split: option.split node.split)

lemma Clone_parts:
  "Clone L fk tk st =
     (case checkWritable st of
        Some e \<Rightarrow> (Some e, st)
      | None \<Rightarrow>
          (case clone_read fk st of
             None \<Rightarrow> (None, st)
           | Some c \<Rightarrow> (case clone_write L tk c st of (v, st') \<Rightarrow> (None, queue_row (clone_row tk v) st'))))"
  by (simp add: Clone_def cloneonly_parts clone_row_def queue_row_def split: option.split prod.split)

subsection \<open>Writers\<close>

text \<open>
  \<open>copying\<close> are the writers between the two halves of a \<open>Clone\<close>, \<open>inflight\<close> those that have
  released the mutex and not yet queued their record, in the order they released it. What is
  queued stays in \<open>persists\<close>, which is the order of the log. \<open>ok\<close> is asked of every two records
  in flight at the same time.
\<close>

record race =
  shared :: store
  copying :: "(nat \<times> bytes \<times> copied) list"
  inflight :: "(nat \<times> persistable) list"

definition busy_writers :: "race \<Rightarrow> nat set" where
  "busy_writers s = fst ` set (copying s) \<union> fst ` set (inflight s)"

definition published :: "nat \<Rightarrow> persistable option \<Rightarrow> store \<Rightarrow> race \<Rightarrow> race" where
  "published t r st s =
     s\<lparr>shared := st, inflight := inflight s @ (case r of None \<Rightarrow> [] | Some row \<Rightarrow> [(t, row)])\<rparr>"

definition apart :: "(persistable \<Rightarrow> persistable \<Rightarrow> bool) \<Rightarrow> persistable option \<Rightarrow> race \<Rightarrow> bool" where
  "apart ok r s \<longleftrightarrow> (\<forall>row. r = Some row \<longrightarrow> (\<forall>e \<in> set (inflight s). ok (snd e) row))"

definition copied_reads :: "copied \<Rightarrow> bool" where
  "copied_reads c \<longleftrightarrow> (case c of CopiedLeaf t \<Rightarrow> isJSONScalar t | CopiedText raw \<Rightarrow> True)"

inductive race_step :: "libs \<Rightarrow> (persistable \<Rightarrow> persistable \<Rightarrow> bool) \<Rightarrow> race \<Rightarrow> race \<Rightarrow> bool" for L ok where
  sets: "t \<notin> busy_writers s \<Longrightarrow> op_reads L (OpSet k v) (shared s) \<Longrightarrow> one_line k \<Longrightarrow>
    Set_publish L k v (shared s) = (e, r, st) \<Longrightarrow> apart ok r s \<Longrightarrow> race_step L ok s (published t r st s)"
| sets_raw: "t \<notin> busy_writers s \<Longrightarrow> op_reads L (OpSetRaw k raw) (shared s) \<Longrightarrow> one_line k \<Longrightarrow>
    SetRaw_publish L k raw (shared s) = (e, r, st) \<Longrightarrow> apart ok r s \<Longrightarrow> race_step L ok s (published t r st s)"
| dels: "t \<notin> busy_writers s \<Longrightarrow> one_line k \<Longrightarrow> Del_publish k (shared s) = (e, r, st) \<Longrightarrow> apart ok r s \<Longrightarrow>
    race_step L ok s (published t r st s)"
| clone_reads: "t \<notin> busy_writers s \<Longrightarrow> checkWritable (shared s) = None \<Longrightarrow> clone_read fk (shared s) = Some c \<Longrightarrow>
    copied_reads c \<Longrightarrow> one_line tk \<Longrightarrow> race_step L ok s (s\<lparr>copying := (t, tk, c) # copying s\<rparr>)"
| clone_writes: "(t, tk, c) \<in> set (copying s) \<Longrightarrow> clone_write L tk c (shared s) = (v, st) \<Longrightarrow>
    apart ok (clone_row tk v) s \<Longrightarrow>
    race_step L ok s (published t (clone_row tk v) st (s\<lparr>copying := removeAll (t, tk, c) (copying s)\<rparr>))"
| queues: "inflight s = as @ (t, row) # bs \<Longrightarrow>
    race_step L ok s (s\<lparr>shared := queue_row (Some row) (shared s), inflight := as @ bs\<rparr>)"
| gets: "race_step L ok s (s\<lparr>shared := snd (Get L k (shared s))\<rparr>)"

definition no_writers :: "store \<Rightarrow> race" where
  "no_writers st = \<lparr>shared = st, copying = [], inflight = []\<rparr>"

subsection \<open>Records that may change places\<close>

definition independent :: "libs \<Rightarrow> persistable \<Rightarrow> persistable \<Rightarrow> bool" where
  "independent L r q \<longleftrightarrow>
     (\<forall>es. doc_apply L r (doc_apply L q (DObj es)) = doc_apply L q (doc_apply L r (DObj es)))"

lemma doc_apply_object: "\<exists>es'. doc_apply L r (DObj es) = DObj es'"
proof -
  obtain s ss where segs: "splitTreePath (key r) = s # ss" by (cases "splitTreePath (key r)") auto
  then show ?thesis
    by (cases "command r") (auto simp: doc_apply_def spec_write_def spec_remove_def map_sum_Inr split: sum.split option.split)
qed

lemma docs_apply_object: "\<exists>es'. fold (doc_apply L) rows (DObj es) = DObj es'"
proof (induction rows arbitrary: es)
  case (Cons r rows)
  then show ?case using doc_apply_object [of L r es] by fastforce
qed simp

lemma move_to_front:
  "\<forall>a \<in> set as. independent L a row \<Longrightarrow>
    fold (doc_apply L) (as @ row # bs) (DObj es) = fold (doc_apply L) (row # as @ bs) (DObj es)"
proof (induction as arbitrary: es)
  case (Cons a as)
  obtain es' where es': "doc_apply L a (DObj es) = DObj es'" using doc_apply_object by blast
  have "fold (doc_apply L) ((a # as) @ row # bs) (DObj es) = fold (doc_apply L) (row # as @ bs) (DObj es')"
    using Cons es' by simp
  also have "\<dots> = fold (doc_apply L) (as @ bs) (doc_apply L row (doc_apply L a (DObj es)))"
    using es' by simp
  also have "\<dots> = fold (doc_apply L) (as @ bs) (doc_apply L a (doc_apply L row (DObj es)))"
    using Cons.prems by (simp add: independent_def)
  finally show ?case by simp
qed simp

text \<open>A deletion is independent of what is done at another key of the document.\<close>

definition top_key :: "persistable \<Rightarrow> bytes \<Rightarrow> bool" where
  "top_key r a \<longleftrightarrow> splitTreePath (key r) = [a]"

lemma del_at_top: "command r = DelCmd \<Longrightarrow> top_key r a \<Longrightarrow> doc_apply L r (DObj es) = DObj (filter (\<lambda>e. fst e \<noteq> a) es)"
proof -
  assume r: "command r = DelCmd" "top_key r a"
  have "filter (\<lambda>e. fst e \<noteq> a) es = es" if "entry a es = None"
    using that by (auto simp: entry_def map_of_eq_None_iff intro!: filter_True)
  then show ?thesis using r
    by (auto simp: doc_apply_def top_key_def spec_remove_def spec_step_def split: option.split)
qed

lemma set_at_top:
  "command r = SetRawCmd \<Longrightarrow> top_key r a \<Longrightarrow>
    doc_apply L r (DObj es) = DObj (put_entry stringifyJSON a (abs_node (nodeFromRaw (gjsonParse L) (val r))) es)"
  by (simp add: doc_apply_def top_key_def spec_write_def)

lemma filter_put_entry:
  "a \<noteq> b \<Longrightarrow> filter (\<lambda>e. fst e \<noteq> a) (put_entry q b v es) = put_entry q b v (filter (\<lambda>e. fst e \<noteq> a) es)"
proof -
  assume ab: "a \<noteq> b"
  have "b \<in> fst ` set (filter (\<lambda>e. fst e \<noteq> a) es) \<longleftrightarrow> b \<in> fst ` set es" using ab by force
  then show ?thesis using ab by (simp add: put_entry_def filter_map split_beta comp_def)
qed

lemma deletion_independent:
  assumes "command r = DelCmd" "top_key r a" "top_key q b" "a \<noteq> b" "command q = DelCmd \<or> command q = SetRawCmd"
  shows "independent L r q \<and> independent L q r"
  using assms(5)
proof
  assume "command q = DelCmd"
  then show ?thesis using assms(1-3) by (simp add: independent_def del_at_top filter_filter conj_commute)
next
  assume "command q = SetRawCmd"
  then show ?thesis using assms(1-4) by (simp add: independent_def del_at_top set_at_top filter_put_entry)
qed

subsection \<open>What the parts do\<close>

definition good_store :: "store \<Rightarrow> bool" where
  "good_store st \<longleftrightarrow> store_ok st \<and> store_lines st \<and> list_all plain_row (persists st) \<and> aofEnabled st"

text \<open>The record a part leaves to be queued does what the part has done.\<close>

definition part_ok :: "libs \<Rightarrow> store \<Rightarrow> persistable option \<Rightarrow> store \<Rightarrow> bool" where
  "part_ok L st r st' \<longleftrightarrow>
     good_store st' \<and> persists st' = persists st \<and>
     (case r of None \<Rightarrow> document st' = document st
      | Some row \<Rightarrow> row_lines row \<and> plain_row row \<and> document st' = doc_apply L row (document st))"

lemma queued_persists:
  "aofEnabled st \<Longrightarrow> \<exists>c. persists (queue_row (Some row) st) = persists st @ [row\<lparr>done_chan := c\<rparr>]"
  by (cases "fsyncPolicy st = FsyncAlways")
    (auto simp: queue_row_def appendAOF_def intro: exI [of _ "done_chan row"])

lemma queue_row_keeps [simp]:
  "document (queue_row r st) = document st" "store_ok (queue_row r st) = store_ok st"
  "aofEnabled (queue_row r st) = aofEnabled st"
  by (simp_all add: queue_row_def appendAOF_def document_def store_ok_def split: option.split)

lemma chan_no_matter [simp]:
  "row_lines (row\<lparr>done_chan := c\<rparr>) = row_lines row" "plain_row (row\<lparr>done_chan := c\<rparr>) = plain_row row"
  by (simp_all add: row_lines_def plain_row_def)

lemma good_rows: "good_store st \<Longrightarrow> list_all row_ok (persists st)"
  by (auto simp: good_store_def store_lines_def list_all_iff row_ok_def plain_row_def row_lines_def one_line_def)

lemma good_queue_row: "good_store st \<Longrightarrow> row_lines row \<Longrightarrow> plain_row row \<Longrightarrow> good_store (queue_row (Some row) st)"
  using append_lines [of st row] append_plain [of st row] queue_row_keeps [of "Some row" st]
  by (simp add: good_store_def) (simp add: queue_row_def)

text \<open>No part touches the queue.\<close>

definition same_queue :: "store \<Rightarrow> store \<Rightarrow> bool" where
  "same_queue st st' \<longleftrightarrow>
     persists st' = persists st \<and> chans st' = chans st \<and> aofEnabled st' = aofEnabled st \<and>
     fsyncPolicy st' = fsyncPolicy st"

lemma same_queue_refl [simp]: "same_queue st st"
  by (simp add: same_queue_def)

lemma setNode_queue: "setNode k n st = (e, st') \<Longrightarrow> same_queue st st'"
  by (cases rule: setNode_cases [of st k n]) (auto simp: same_queue_def)

lemma delonly_queue [simp]: "same_queue st (delonly k st)"
  by (cases rule: delonly_result [of st k]) (simp add: same_queue_def)

lemma publish_keeps:
  "Set_publish L k v st = (e, r, st') \<Longrightarrow> same_queue st st'"
  "SetRaw_publish L k raw st = (e, r, st') \<Longrightarrow> same_queue st st'"
  "Del_publish k st = (e, r, st') \<Longrightarrow> same_queue st st'"
  "clone_write L tk c st = (w, st') \<Longrightarrow> same_queue st st'"
proof -
  show set: "same_queue st st'" if "Set_publish L k v st = (e, r, st')" for v r st'
    using that by (auto simp: Set_publish_def Let_def dest: setNode_queue split: option.splits sum.splits prod.splits)
  show "same_queue st st'" if "SetRaw_publish L k raw st = (e, r, st')"
    using that by (auto simp: SetRaw_publish_def Let_def dest: setNode_queue set split: option.splits sum.splits prod.splits)
  show "same_queue st st'" if "Del_publish k st = (e, r, st')"
    using that by (auto simp: Del_publish_def split: option.splits)
  show "same_queue st st'" if "clone_write L tk c st = (w, st')"
    using that
    by (auto simp: clone_write_def setrawonly_def dest: setNode_queue
        split: copied.splits option.splits prod.splits if_splits)
qed

lemma run_op_good:
  assumes st: "good_store st" and P: "parser_keeps_lines (gjsonParse L)" "op_reads L x st" "one_line (op_key x)"
  shows "good_store (snd (run_op L x st)) \<and> logged L st (snd (run_op L x st))"
proof -
  have s: "store_ok st" "store_lines st" "list_all plain_row (persists st)" "aofEnabled st"
    using st by (simp_all add: good_store_def)
  have "logged L st (snd (run_op L x st))" by (rule logged_op [OF s(1,4) P(2)])
  then show ?thesis
    using run_op_ok [OF s(1) P(2)] run_op_lines [OF P(1) s(1,2) P(3)] run_op_plain [OF s(3), of L x] s(4)
    by (simp add: good_store_def logged_def)
qed

lemma part_okI:
  assumes st: "good_store st" and P: "parser_keeps_lines (gjsonParse L)" "op_reads L x st" "one_line (op_key x)"
    and run: "run_op L x st = (e, queue_row r st')" and keep: "same_queue st st'"
  shows "part_ok L st r st'"
proof -
  have q: "good_store (queue_row r st')" "logged L st (queue_row r st')"
    using run_op_good [OF st P] run by simp_all
  obtain rows where rows: "persists (queue_row r st') = persists st @ rows" "document st' = fold (doc_apply L) rows (document st)"
    using q(2) by (auto simp: logged_def)
  have keeps: "persists st' = persists st" "aofEnabled st'"
    using keep st by (simp_all add: same_queue_def good_store_def)
  have good: "good_store st'"
    using q(1) keeps rows(1) st by (simp add: good_store_def store_lines_def)
  show ?thesis
  proof (cases r)
    case None
    then show ?thesis using rows good keeps by (simp add: part_ok_def queue_row_def)
  next
    case (Some row)
    obtain c where c: "persists (queue_row r st') = persists st @ [row\<lparr>done_chan := c\<rparr>]"
      using queued_persists [of st' row] keeps Some by auto
    then have "rows = [row\<lparr>done_chan := c\<rparr>]" using rows(1) by simp
    moreover have "row_lines row" "plain_row row" using q(1) c by (simp_all add: good_store_def store_lines_def)
    ultimately show ?thesis using rows(2) good keeps Some by (simp add: part_ok_def)
  qed
qed

text \<open>What \<open>Clone\<close> has read stays what it is, whatever is written meanwhile.\<close>

definition copied_ok :: "copied \<Rightarrow> bool" where
  "copied_ok c \<longleftrightarrow>
     (case c of CopiedLeaf t \<Rightarrow> isJSONScalar t \<and> leaf_ok t \<and> one_line t | CopiedText raw \<Rightarrow> one_line raw)"

lemma clone_read_ok:
  assumes "good_store st" "clone_read fk st = Some c" "copied_reads c"
  shows "copied_ok c"
proof -
  obtain n where n: "treeLookupPath (Obj (configRoot st)) fk = Some n"
    using assms(2) by (auto simp: clone_read_def split: option.splits)
  have "node_ok n" "one_line (tree_text n)"
    using lookup_ok [OF _ n] lookup_lines [OF _ _ n] node_text_line assms(1) by (simp_all add: good_store_def)
  then show ?thesis using assms(2,3) n
    by (cases n) (auto simp: clone_read_def copied_ok_def copied_reads_def node_ok_leaf appendTree_def
        simp del: tree_text.simps(2-))
qed

lemma setNode_part:
  assumes st: "good_store st" and k: "one_line k" and v: "one_line t" "t \<noteq> []"
    and n: "node_ok n" "lines_of (abs_node n)" "abs_node (nodeFromRaw (gjsonParse L) t) = abs_node n"
    and set: "setNode k n st = (e, st')"
  shows "part_ok L st (clone_row k (if e = None then t else [])) st'"
proof -
  have s: "store_ok st" "store_lines st" "list_all plain_row (persists st)" "aofEnabled st"
    using st by (simp_all add: good_store_def)
  have st': "st' = snd (setNode k n st)" using set by simp
  have good: "good_store st'"
    using s setNode_ok [OF s(1) n(1)] setNode_lines [OF s(1,2) n(2)] unfolding st' by (simp add: good_store_def)
  show ?thesis
  proof (cases e)
    case None
    then show ?thesis
      using good k v n(3) setNode_document [OF s(1), of k n]
      unfolding st' by (simp add: part_ok_def clone_row_def doc_apply_def) (simp add: mk_row_def)
  next
    case (Some x)
    then have "st' = st" using set setNode_failed by blast
    then show ?thesis using good Some by (simp add: part_ok_def clone_row_def)
  qed
qed

lemma clone_write_part:
  assumes P: "parser_keeps_lines (gjsonParse L)" and st: "good_store st" and k: "one_line tk" and c: "copied_ok c"
    and w: "clone_write L tk c st = (v, st')"
  shows "part_ok L st (clone_row tk v) st'"
proof (cases c)
  case (CopiedLeaf t)
  then have t: "isJSONScalar t" "leaf_ok t" "one_line t" using c by (simp_all add: copied_ok_def)
  obtain e st1 where set: "setNode tk (Leaf t) st = (e, st1)" by fastforce
  have "nodeFromRaw (gjsonParse L) t = Leaf t"
    using t(1,2) by (auto simp: nodeFromRaw_def leaf_ok_def split: option.splits)
  moreover have "t \<noteq> []" using t(1) by auto
  ultimately have "part_ok L st (clone_row tk (if e = None then t else [])) st1"
    using t by (intro setNode_part [OF st k _ _ _ _ _ set]) (simp_all add: node_ok_leaf lines_of_def)
  then show ?thesis using w set CopiedLeaf by (auto simp: clone_write_def split: option.splits)
next
  case (CopiedText raw)
  then have raw: "one_line raw" using c by (simp add: copied_ok_def)
  show ?thesis
  proof (cases "raw = []")
    case True
    then show ?thesis using w CopiedText st by (simp add: clone_write_def clone_row_def part_ok_def)
  next
    case False
    obtain e st1 where set: "setNode tk (nodeFromRaw (gjsonParse L) raw) st = (e, st1)" by fastforce
    have "part_ok L st (clone_row tk (if e = None then raw else [])) st1"
      using raw False node_ok_raw raw_lines [OF P raw] by (intro setNode_part [OF st k _ _ _ _ _ set]) simp_all
    then show ?thesis using w set CopiedText False by (auto simp: clone_write_def setrawonly_def split: option.splits)
  qed
qed

subsection \<open>The invariant\<close>

text \<open>The document is what the log makes of the first one, and then the records in flight.\<close>

definition race_inv :: "libs \<Rightarrow> doc \<Rightarrow> race \<Rightarrow> bool" where
  "race_inv L d s \<longleftrightarrow>
     good_store (shared s) \<and> (\<forall>(t, tk, c) \<in> set (copying s). one_line tk \<and> copied_ok c) \<and>
     (\<forall>e \<in> set (inflight s). row_lines (snd e) \<and> plain_row (snd e)) \<and>
     sorted_wrt (independent L) (map snd (inflight s)) \<and>
     document (shared s) = fold (doc_apply L) (persists (shared s) @ map snd (inflight s)) d"

lemma race_published:
  assumes "race_inv L d s" "part_ok L (shared s) r st" "apart (independent L) r s"
    and "set cs \<subseteq> set (copying s)"
  shows "race_inv L d (published t r st (s\<lparr>copying := cs\<rparr>))"
  using assms
  by (cases r) (auto simp: race_inv_def part_ok_def published_def apart_def sorted_wrt_append)

lemma race_published_same:
  "race_inv L d s \<Longrightarrow> part_ok L (shared s) r st \<Longrightarrow> apart (independent L) r s \<Longrightarrow> race_inv L d (published t r st s)"
  using race_published [of L d s r st "copying s" t] by simp

lemma race_queued:
  assumes inv: "race_inv L (DObj es) s" and as: "inflight s = as @ (t, row) # bs"
  shows "race_inv L (DObj es) (s\<lparr>shared := queue_row (Some row) (shared s), inflight := as @ bs\<rparr>)"
proof -
  let ?st = "shared s" and ?as = "map snd as" and ?bs = "map snd bs"
  have st: "good_store ?st" "row_lines row" "plain_row row" using inv as by (auto simp: race_inv_def)
  have ord: "sorted_wrt (independent L) (?as @ row # ?bs)" using inv as by (simp add: race_inv_def)
  obtain c where c: "persists (queue_row (Some row) ?st) = persists ?st @ [row\<lparr>done_chan := c\<rparr>]"
    using queued_persists st(1) unfolding good_store_def by blast
  obtain es' where es': "fold (doc_apply L) (persists ?st) (DObj es) = DObj es'" using docs_apply_object by blast
  have "document ?st = fold (doc_apply L) (?as @ row # ?bs) (DObj es')"
    using inv as es' by (simp add: race_inv_def)
  also have "\<dots> = fold (doc_apply L) (row # ?as @ ?bs) (DObj es')"
    using ord by (intro move_to_front) (auto simp: sorted_wrt_append)
  finally have "document ?st = fold (doc_apply L) (persists (queue_row (Some row) ?st) @ ?as @ ?bs) (DObj es)"
    using c es' by simp
  then show ?thesis
    using inv as ord good_queue_row [OF st] by (auto simp: race_inv_def sorted_wrt_append)
qed

lemma Get_queue: "same_queue st (snd (Get L k st))"
  by (auto simp: same_queue_def Get_def snapshot_def Let_def split: option.splits node.splits prod.splits if_splits)

lemma race_got: "race_inv L d s \<Longrightarrow> race_inv L d (s\<lparr>shared := snd (Get L k (shared s))\<rparr>)"
proof -
  assume inv: "race_inv L d s"
  have log: "persists (snd (Get L k (shared s))) = persists (shared s)"
      "aofEnabled (snd (Get L k (shared s))) = aofEnabled (shared s)"
    using Get_queue [of "shared s" L k] by (simp_all add: same_queue_def)
  have root: "document (snd (Get L k (shared s))) = document (shared s)"
    "store_ok (snd (Get L k (shared s))) = store_ok (shared s)"
    using Get_keeps [of L k "shared s"] by (simp_all add: document_def store_ok_def)
  then have lines: "store_lines (snd (Get L k (shared s))) = store_lines (shared s)"
    using log by (simp add: store_lines_def)
  show ?thesis
    using inv log root lines by (simp add: race_inv_def good_store_def)
qed

lemma race_step_inv:
  assumes P: "parser_keeps_lines (gjsonParse L)"
  shows "race_step L (independent L) s s' \<Longrightarrow> race_inv L (DObj es) s \<Longrightarrow> race_inv L (DObj es) s'"
proof (induction rule: race_step.induct)
  case (sets t s k v e r st)
  then have "part_ok L (shared s) r st"
    using publish_keeps(1) [OF sets(4)] by (intro part_okI [OF _ P sets(2)]) (simp_all add: race_inv_def Set_parts)
  then show ?case using race_published_same sets by blast
next
  case (sets_raw t s k raw e r st)
  then have "part_ok L (shared s) r st"
    using publish_keeps(2) [OF sets_raw(4)]
    by (intro part_okI [OF _ P sets_raw(2)]) (simp_all add: race_inv_def SetRaw_parts)
  then show ?case using race_published_same sets_raw by blast
next
  case (dels t s k e r st)
  then have "part_ok L (shared s) r st"
    using publish_keeps(3) [OF dels(3)]
    by (intro part_okI [OF _ P, where x = "OpDel k"]) (simp_all add: race_inv_def Del_parts)
  then show ?case using race_published_same dels by blast
next
  case (clone_reads t s fk c tk)
  then show ?case using clone_read_ok [of "shared s" fk c] by (auto simp: race_inv_def)
next
  case (clone_writes t tk c s v st)
  then have "part_ok L (shared s) (clone_row tk v) st"
    by (intro clone_write_part [OF P]) (auto simp: race_inv_def)
  then show ?case using race_published [where cs = "removeAll (t, tk, c) (copying s)"] clone_writes by auto
next
  case (queues s as t row bs)
  then show ?case using race_queued by blast
next
  case (gets s k)
  then show ?case using race_got by blast
qed

lemma document_object: "\<exists>es. document st = DObj es"
  by (simp add: document_def)

text \<open>C5. Writers that overlap, in whatever way they get the mutex and the queue: as long as the
  records that are in flight together may change places, the log still replays to the document in
  memory once every record has been queued. Operations that do not overlap are the special case
  without any record in flight.\<close>

theorem overlapping_writers_agree_with_log:
  assumes "parser_keeps_lines (gjsonParse L)"
    and "store_ok st" "lines_of (document st)" "aofEnabled st" "persists st = []"
    and "(race_step L (independent L))\<^sup>*\<^sup>* (no_writers st) s" "inflight s = []"
    and "store_ok st0" "document st0 = document st"
  shows "document (fst (replay_loop L (log_bytes (persists (shared s))) st0 0)) = document (shared s)"
proof -
  obtain es where es: "document st = DObj es" using document_object by blast
  have "race_inv L (DObj es) (no_writers st)"
    using assms(2-5) es by (simp add: race_inv_def no_writers_def good_store_def store_lines_def)
  with assms(6) have inv: "race_inv L (DObj es) s"
    by (induction rule: rtranclp_induct) (use race_step_inv [OF assms(1)] in blast)+
  have "replay_loop L (log_bytes (persists (shared s))) st0 0 =
      (fold (apply_row L) (persists (shared s)) st0, length (log_bytes (persists (shared s))))"
    using replay_rows [OF good_rows, of "shared s" L "[]" st0 0] inv by (simp add: replay_end race_inv_def)
  then show ?thesis
    using apply_rows_document [OF assms(8)] assms(7,9) inv es by (simp add: race_inv_def)
qed

subsection \<open>Two writers\<close>

text \<open>One writes \<open>true\<close> or \<open>false\<close> below a key of the document while another is at work.\<close>

definition put_root :: "bytes \<Rightarrow> bytes \<Rightarrow> store \<Rightarrow> store" where
  "put_root k raw st = st\<lparr>configRoot := obj_put k (Leaf raw) (configRoot st), configStale := True\<rparr>"

lemma trim_false: "trim_space ''false'' = ''false''"
  by (rule trim_space_printable) (simp_all add: printable_def)

lemma raw_publishes:
  assumes "checkWritable st = None" "splitTreePath k = [k]" "raw = ''true'' \<or> raw = ''false''"
  shows "SetRaw_publish L k raw st = (None, Some (mk_row SetRawCmd k raw), put_root k raw st)"
  using assms
  by (auto simp: SetRaw_publish_def trim_true trim_false canonicalScalar_def setNode_def treeSetPath_segs treeSet_Obj Let_def
      put_root_def)

lemma raw_reads: "raw = ''true'' \<or> raw = ''false'' \<Longrightarrow> op_reads L (OpSetRaw k raw) st"
  by (auto simp: trim_true trim_false canonicalScalar_def)

lemma writable [simp]: "checkWritable init_store = None" "checkWritable (delonly k st) = checkWritable st"
    "checkWritable (put_root k raw st) = checkWritable st"
  by (cases rule: delonly_result [of st k]; simp add: checkWritable_def init_store_def put_root_def)+

lemma set_writer:
  assumes "t \<notin> busy_writers s" "checkWritable (shared s) = None" "splitTreePath k = [k]" "one_line k"
    and "raw = ''true'' \<or> raw = ''false''" "apart ok (Some (mk_row SetRawCmd k raw)) s"
  shows "race_step L ok s (published t (Some (mk_row SetRawCmd k raw)) (put_root k raw (shared s)) s)"
  by (rule sets_raw [OF assms(1) raw_reads [OF assms(5)] assms(4) raw_publishes assms(6)])
    (use assms in simp_all)

lemma split_kl: "splitTreePath ''k'' = [''k'']" "splitTreePath ''l'' = [''l'']"
  by (simp_all add: splitTreePath_def)

lemma four_steps: "R a b \<Longrightarrow> R b c \<Longrightarrow> R c d \<Longrightarrow> R d e \<Longrightarrow> R\<^sup>*\<^sup>* a e"
  by (meson converse_rtranclp_into_rtranclp r_into_rtranclp)

text \<open>A deletion of \<open>k\<close> and a write of \<open>l\<close>, queued in the other order.\<close>

definition crossed :: race where
  "crossed = no_writers (queue_row (Some (mk_row DelCmd ''k'' [])) (queue_row (Some (mk_row SetRawCmd ''l'' ''true''))
     (put_root ''l'' ''true'' (delonly ''k'' init_store))))"

lemma crossed_reached: "(race_step sample_libs (independent sample_libs))\<^sup>*\<^sup>* (no_writers init_store) crossed"
proof -
  let ?step = "race_step sample_libs (independent sample_libs)"
  let ?del = "mk_row DelCmd ''k'' []" and ?set = "mk_row SetRawCmd ''l'' ''true''"
  let ?s1 = "published 0 (Some ?del) (delonly ''k'' init_store) (no_writers init_store)"
  let ?s2 = "published 1 (Some ?set) (put_root ''l'' ''true'' (shared ?s1)) ?s1"
  let ?s3 = "?s2\<lparr>shared := queue_row (Some ?set) (shared ?s2), inflight := [(0, ?del)] @ []\<rparr>"
  let ?s4 = "?s3\<lparr>shared := queue_row (Some ?del) (shared ?s3), inflight := [] @ []\<rparr>"
  have one: "one_line ''k''" "one_line ''l''" by (simp_all add: one_line_def)
  have "?step (no_writers init_store) ?s1"
    by (rule dels [OF _ one(1)]) (simp_all add: Del_publish_def busy_writers_def no_writers_def apart_def)
  moreover have "independent sample_libs ?del ?set"
    using deletion_independent [of ?del "''k''" ?set "''l''" sample_libs]
    by (simp add: top_key_def mk_row_def split_kl)
  then have "?step ?s1 ?s2"
    by (intro set_writer)
      (simp_all add: busy_writers_def published_def no_writers_def apart_def split_kl one)
  moreover have "?step ?s2 ?s3"
    by (rule queues [where t = 1]) (simp add: published_def no_writers_def)
  moreover have "?step ?s3 ?s4"
    by (rule queues [where t = 0]) simp
  ultimately have "?step\<^sup>*\<^sup>* (no_writers init_store) ?s4" by (rule four_steps)
  moreover have "?s4 = crossed" by (simp add: crossed_def no_writers_def published_def)
  ultimately show ?thesis by simp
qed

theorem overlapping_writers_agree_with_log_witness:
  "document (fst (replay_loop sample_libs (log_bytes (persists (shared crossed))) init_store 0)) =
   document (shared crossed)"
  by (rule overlapping_writers_agree_with_log
      [OF sample_lines(1) store_ok_init sample_lines(2) _ _ crossed_reached _ store_ok_init refl])
    (simp_all add: init_store_def crossed_def no_writers_def)

text \<open>Two writes of the same key may not change places, and nothing keeps them from it: the log then
  has them in the other order, and the next start finds the older value.\<close>

theorem race_reorders_log:
  "\<exists>s. (race_step sample_libs (\<lambda>_ _. True))\<^sup>*\<^sup>* (no_writers init_store) s \<and> copying s = [] \<and> inflight s = [] \<and>
    document (shared s) = DObj [(''k'', stringifyJSON ''k'', DLeaf ''false'')] \<and>
    document (fst (replay_loop sample_libs (log_bytes (persists (shared s))) init_store 0)) =
      DObj [(''k'', stringifyJSON ''k'', DLeaf ''true'')]"
proof -
  let ?step = "race_step sample_libs (\<lambda>_ _. True)"
  let ?t = "mk_row SetRawCmd ''k'' ''true''" and ?f = "mk_row SetRawCmd ''k'' ''false''"
  let ?s1 = "published 0 (Some ?t) (put_root ''k'' ''true'' init_store) (no_writers init_store)"
  let ?s2 = "published 1 (Some ?f) (put_root ''k'' ''false'' (shared ?s1)) ?s1"
  let ?s3 = "?s2\<lparr>shared := queue_row (Some ?f) (shared ?s2), inflight := [(0, ?t)] @ []\<rparr>"
  let ?s4 = "?s3\<lparr>shared := queue_row (Some ?t) (shared ?s3), inflight := [] @ []\<rparr>"
  have one: "one_line ''k''" by (simp add: one_line_def)
  have "?step (no_writers init_store) ?s1"
    using set_writer [of 0 "no_writers init_store" "''k''" "''true''"]
    by (simp add: busy_writers_def no_writers_def apart_def split_kl one)
  moreover have "?step ?s1 ?s2"
    by (rule set_writer)
      (simp_all add: busy_writers_def published_def no_writers_def apart_def split_kl one)
  moreover have "?step ?s2 ?s3"
    by (rule queues [where t = 1]) (simp add: published_def no_writers_def)
  moreover have "?step ?s3 ?s4"
    by (rule queues [where t = 0]) simp
  ultimately have run: "?step\<^sup>*\<^sup>* (no_writers init_store) ?s4"
    by (rule four_steps)
  have rows: "persists (shared ?s4) = [?f, ?t]"
    by (simp add: published_def put_root_def queue_row_def appendAOF_def init_store_def)
  have ok: "store_ok init_store" by (rule store_ok_init)
  have init: "document init_store = DObj []" by (simp add: document_def init_store_def newTreeObj_def obj_entries_def)
  have mem: "document (shared ?s4) = DObj [(''k'', stringifyJSON ''k'', DLeaf ''false'')]"
    by (simp add: published_def queue_row_def appendAOF_def document_def put_root_def init_store_def newTreeObj_def
        obj_put_def obj_set_def obj_entries_def)
  have "list_all row_ok [?f, ?t]"
    by (simp add: row_ok_def mk_row_def)
  then have "replay_loop sample_libs (log_bytes [?f, ?t]) init_store 0 =
      (fold (apply_row sample_libs) [?f, ?t] init_store, length (log_bytes [?f, ?t]))"
    using replay_rows [of "[?f, ?t]" sample_libs "[]" init_store 0] by (simp add: replay_end)
  then have "document (fst (replay_loop sample_libs (log_bytes (persists (shared ?s4))) init_store 0)) =
      fold (doc_apply sample_libs) [?f, ?t] (DObj [])"
    using apply_rows_document [OF ok, of sample_libs "[?f, ?t]"] rows init by simp
  also have "\<dots> = DObj [(''k'', stringifyJSON ''k'', DLeaf ''true'')]"
    by (simp add: doc_apply_def mk_row_def split_kl spec_write_def put_entry_def nodeFromRaw_def sample_libs_def
        canonicalNumberText_def scan_int_def is_digit_def)
  finally have log: "document (fst (replay_loop sample_libs (log_bytes (persists (shared ?s4))) init_store 0)) =
      DObj [(''k'', stringifyJSON ''k'', DLeaf ''true'')]" .
  have "copying ?s4 = []" "inflight ?s4 = []" by (simp_all add: published_def no_writers_def)
  with run mem log show ?thesis by blast
qed

end
