(* ===== verification/Crash.thy ===== *)
theory Crash
  imports Lifecycle Race "HOL-Library.Sublist"
begin

text \<open>
  The whole promise of the store under \<open>always\<close>: clients write, the goroutine logs, the machine
  loses power at any moment, the process starts again. What a client was told has succeeded is
  there.
\<close>

subsection \<open>A run\<close>

text \<open>An operation that a client has run: the records it queued and the document it left.\<close>

record client_event =
  asked :: op
  queued_rows :: "persistable list"
  left_doc :: doc

text \<open>
  \<open>appendAOF\<close> returns to its caller once the channel of the record is closed; only then is the
  client answered.
\<close>

definition acknowledged :: "client_event \<Rightarrow> proc \<Rightarrow> bool" where
  "acknowledged ev p \<longleftrightarrow> (\<exists>row \<in> set (queued_rows ev). \<exists>c. done_chan row = Some c \<and> c \<in> set (closed p))"

definition all_queued :: "client_event list \<Rightarrow> persistable list" where
  "all_queued es = concat (map queued_rows es)"

definition doc_after :: "doc \<Rightarrow> client_event list \<Rightarrow> doc" where
  "doc_after d es = (if es = [] then d else left_doc (last es))"

text \<open>Clients, readers and the goroutine take turns. No vacuum is asked for meanwhile.\<close>

inductive served :: "libs \<Rightarrow> bool \<times> proc \<Rightarrow> client_event list \<Rightarrow> bool \<times> proc \<Rightarrow> bool" for L where
  begins: "served L s [] s"
| writes: "served L s es (b, p) \<Longrightarrow> \<not> fatal p \<Longrightarrow> op_reads L x (mem p) \<Longrightarrow> one_line (op_key x) \<Longrightarrow>
    snd (run_op L x (mem p)) = st \<Longrightarrow>
    served L s (es @ [\<lparr>asked = x, queued_rows = drop (length (persists (mem p))) (persists st), left_doc = document st\<rparr>])
      (b, p\<lparr>mem := st\<rparr>)"
| reads: "served L s es (b, p) \<Longrightarrow> \<not> fatal p \<Longrightarrow> served L s es (b, p\<lparr>mem := snd (Get L k (mem p))\<rparr>)"
| logs: "served L s es s1 \<Longrightarrow> writer_step (\<lambda>_. True) s1 s2 \<Longrightarrow> served L s es s2"

subsection \<open>What operations queue\<close>

lemma run_op_parts:
  "\<exists>r st1. snd (run_op L x st) = queue_row r st1 \<and> same_queue st st1"
proof (cases x)
  case (OpSet k v)
  obtain e r st1 where "Set_publish L k v st = (e, r, st1)" by (metis prod_cases3)
  then show ?thesis using OpSet publish_keeps(1) by (fastforce simp: Set_parts)
next
  case (OpSetRaw k raw)
  obtain e r st1 where "SetRaw_publish L k raw st = (e, r, st1)" by (metis prod_cases3)
  then show ?thesis using OpSetRaw publish_keeps(2) by (fastforce simp: SetRaw_parts)
next
  case (OpDel k)
  obtain e r st1 where "Del_publish k st = (e, r, st1)" by (metis prod_cases3)
  then show ?thesis using OpDel publish_keeps(3) by (fastforce simp: Del_parts)
next
  case (OpClone fk tk)
  have none: "\<exists>r st1. st = queue_row r st1 \<and> same_queue st st1"
    by (intro exI [of _ None] exI [of _ st]) (simp add: queue_row_def)
  show ?thesis
  proof (cases "checkWritable st = None \<and> clone_read fk st \<noteq> None")
    case True
    then obtain c where c: "checkWritable st = None" "clone_read fk st = Some c" by auto
    obtain w st1 where "clone_write L tk c st = (w, st1)" by fastforce
    then show ?thesis using OpClone c publish_keeps(4) by (fastforce simp: Clone_parts)
  next
    case False
    then show ?thesis using OpClone none by (auto simp: Clone_parts split: option.split)
  qed
qed

text \<open>At most one record, with a channel of its own.\<close>

lemma op_queues:
  assumes "aofEnabled st" "fsyncPolicy st = FsyncAlways"
  shows "\<exists>rows. persists (snd (run_op L x st)) = persists st @ rows \<and>
    fsyncPolicy (snd (run_op L x st)) = FsyncAlways \<and> length rows \<le> 1 \<and>
    map done_chan rows = map Some [chans st..<chans (snd (run_op L x st))] \<and>
    chans st \<le> chans (snd (run_op L x st))"
proof -
  obtain r st1 where p: "snd (run_op L x st) = queue_row r st1" "same_queue st st1"
    using run_op_parts by blast
  show ?thesis
  proof (cases r)
    case None
    then show ?thesis using p assms by (simp add: queue_row_def same_queue_def)
  next
    case (Some row)
    then show ?thesis
      using p assms by (simp add: queue_row_def same_queue_def appendAOF_def)
  qed
qed

subsection \<open>The invariant\<close>

text \<open>
  \<open>base\<close> is the file and \<open>d\<close> the document at the start. Every record queued since is received or
  still queued, and the document after some of the operations is what their records make of \<open>d\<close>.
\<close>

definition served_inv :: "libs \<Rightarrow> doc \<Rightarrow> nat \<Rightarrow> bytes \<Rightarrow> client_event list \<Rightarrow> proc \<Rightarrow> bool" where
  "served_inv L d c0 base es p \<longleftrightarrow>
     good_store (mem p) \<and> fsyncPolicy (mem p) = FsyncAlways \<and> document (mem p) = doc_after d es \<and>
     (\<forall>j \<le> length es. doc_after d (take j es) = fold (doc_apply L) (all_queued (take j es)) d) \<and>
     (\<forall>ev \<in> set es. length (queued_rows ev) \<le> 1 \<and> lines_of (left_doc ev)) \<and>
     map done_chan (all_queued es) = map Some [c0..<chans (mem p)] \<and> c0 \<le> chans (mem p) \<and>
     (\<exists>rows. all_queued es = rows @ persists (mem p) \<and> list_all row_ok rows \<and> log_inv base [] rows p)"

lemma doc_after_lines: "lines_of d \<Longrightarrow> \<forall>ev \<in> set es. lines_of (left_doc ev) \<Longrightarrow> lines_of (doc_after d es)"
  by (simp add: doc_after_def)

lemma all_queued_simps [simp]:
  "all_queued [] = []" "all_queued (es @ es') = all_queued es @ all_queued es'" "all_queued [ev] = queued_rows ev"
  by (simp_all add: all_queued_def)

lemma served_writes:
  assumes inv: "served_inv L d c0 base es p" and P: "parser_keeps_lines (gjsonParse L)" "op_reads L x (mem p)" "one_line (op_key x)"
    and st: "snd (run_op L x (mem p)) = st"
  shows "served_inv L d c0 base
    (es @ [\<lparr>asked = x, queued_rows = drop (length (persists (mem p))) (persists st), left_doc = document st\<rparr>])
    (p\<lparr>mem := st\<rparr>)"
proof -
  have mem: "good_store (mem p)" "fsyncPolicy (mem p) = FsyncAlways" "document (mem p) = doc_after d es"
    and docs: "\<And>j. j \<le> length es \<Longrightarrow> doc_after d (take j es) = fold (doc_apply L) (all_queued (take j es)) d"
    using inv by (simp_all add: served_inv_def)
  obtain rows where rows: "persists st = persists (mem p) @ rows" "fsyncPolicy st = FsyncAlways" "length rows \<le> 1"
    "map done_chan rows = map Some [chans (mem p)..<chans st]" "chans (mem p) \<le> chans st"
    using op_queues [of "mem p" L x] mem st by (auto simp: good_store_def)
  have good: "good_store st" "logged L (mem p) st"
    using run_op_good [OF mem(1) P] st by simp_all
  then have doc: "document st = fold (doc_apply L) rows (document (mem p))"
    using rows(1) by (auto simp: logged_def)
  have chans: "[c0..<chans (mem p)] @ [chans (mem p)..<chans st] = [c0..<chans st]"
    using rows(5) inv upt_add_eq_append [of c0 "chans (mem p)" "chans st - chans (mem p)"] by (simp add: served_inv_def)
  obtain old where old: "all_queued es = old @ persists (mem p)" "list_all row_ok old" "log_inv base [] old p"
    using inv by (auto simp: served_inv_def)
  have log: "log_inv base [] old (p\<lparr>mem := st\<rparr>)" using old(3) rows(2) mem(2) by (simp add: log_inv_mem)
  let ?ev = "\<lparr>asked = x, queued_rows = drop (length (persists (mem p))) (persists st), left_doc = document st\<rparr>"
  have ev: "queued_rows ?ev = rows" "doc_after d (es @ [?ev]) = document st" using rows(1) by (simp_all add: doc_after_def)
  have now: "document st = fold (doc_apply L) (all_queued (es @ [?ev])) d"
    using doc mem(3) docs [of "length es"] ev(1) by simp
  have "map done_chan (all_queued (es @ [?ev])) = map Some ([c0..<chans (mem p)] @ [chans (mem p)..<chans st])"
    using inv rows(4) ev(1) by (simp add: served_inv_def)
  then have all: "map done_chan (all_queued (es @ [?ev])) = map Some [c0..<chans st]" by (simp only: chans)
  have "doc_after d (take j (es @ [?ev])) = fold (doc_apply L) (all_queued (take j (es @ [?ev]))) d"
    if "j \<le> length (es @ [?ev])" for j
    using that docs [of j] now ev(2) by (cases "j = length (es @ [?ev])") auto
  moreover have "\<exists>rws. all_queued (es @ [?ev]) = rws @ persists st \<and> list_all row_ok rws \<and> log_inv base [] rws (p\<lparr>mem := st\<rparr>)"
    using old log ev(1) rows(1) by (intro exI [of _ old]) simp
  moreover have "\<forall>e \<in> set (es @ [?ev]). length (queued_rows e) \<le> 1 \<and> lines_of (left_doc e)"
    using inv ev(1) rows(3) good(1) by (simp add: served_inv_def good_store_def store_lines_def)
  moreover have "c0 \<le> chans st" using inv rows(5) by (simp add: served_inv_def)
  ultimately show ?thesis
    unfolding served_inv_def using good(1) rows(2) ev(2) all by simp
qed

lemma row_is_good: "good_store st \<Longrightarrow> persists st = row # rest \<Longrightarrow> row_ok row \<and> plain_row row \<and> good_store (st\<lparr>persists := rest\<rparr>)"
  using good_rows [of st] by (simp add: good_store_def store_lines_def document_def store_ok_def)

lemma write_plain_row:
  assumes "plain_row row" "\<not> fatal p"
  shows "same_store (handled row p) (write_row io io2 row p)"
proof -
  let ?q = "handled row (p\<lparr>buf := buf p @ (if opened p then record_bytes row else [])\<rparr>)"
  obtain e r where b: "bound_buf io2 ?q = (e, r)" by fastforce
  have "command row = SetRawCmd \<or> command row = DelCmd" using assms(1) by (simp add: plain_row_def)
  then have "write_row io io2 row p = (if e then r\<lparr>exited := True\<rparr> else r)"
    using b by (elim disjE) (simp_all add: write_row_def)
  moreover have "same_store ?q r"
    using bound_calm [of ?q io2] b assms(2) by (simp add: calm_def handled_def)
  then have "same_store (handled row p) r" "same_store (handled row p) (r\<lparr>exited := True\<rparr>)"
    by (simp_all add: same_store_def handled_def)
  ultimately show ?thesis by simp
qed

lemma good_same:
  "configRoot st' = configRoot st \<Longrightarrow> persists st' = persists st \<Longrightarrow> aofEnabled st' = aofEnabled st \<Longrightarrow>
    good_store st' = good_store st \<and> document st' = document st"
  by (simp add: good_store_def store_lines_def document_def store_ok_def)

lemma served_calm:
  assumes inv: "served_inv L d c0 base es p" and p': "same_store p p'"
    and log: "\<And>rows. log_inv base [] rows p \<Longrightarrow> log_inv base [] rows p'" "fsyncPolicy (mem p') = fsyncPolicy (mem p)"
  shows "served_inv L d c0 base es p'"
  using inv log p' good_same [of "mem p'" "mem p"]
  by (auto simp: served_inv_def same_store_def)

lemma served_logs:
  assumes "writer_step (\<lambda>_. True) (b, p) (b', p')" "served_inv L d c0 base es p"
  shows "served_inv L d c0 base es p'"
  using assms
proof (induction "(b, p)" "(b', p')" rule: writer_step.induct)
  case (receives io io2 row rest)
  let ?q = "p\<lparr>mem := (mem p)\<lparr>persists := rest\<rparr>\<rparr>"
  have mem: "good_store (mem p)" using receives by (simp add: served_inv_def)
  note row = row_is_good [OF mem receives.hyps(5)]
  have same: "same_store (handled row ?q) (write_row io io2 row ?q)"
    using row receives.hyps(3) by (intro write_plain_row) simp_all
  obtain rows where rows: "all_queued es = rows @ row # rest" "list_all row_ok rows" "log_inv base [] rows p"
    using receives by (auto simp: served_inv_def)
  let ?w = "write_row io io2 row ?q"
  have "log_inv base [] rows ?q" using rows(3) by (simp add: log_inv_mem)
  moreover have "\<not> fatal ?q" "command row \<noteq> DumpCmd" using receives.hyps(3) row by (auto simp: plain_row_def)
  ultimately have log: "log_inv base [] (rows @ [row]) ?w" "fsyncPolicy (mem ?w) = fsyncPolicy (mem p)"
    by (rule log_inv_receive) (use \<open>command row \<noteq> DumpCmd\<close> in \<open>simp add: policy_write_row\<close>)
  have w: "configRoot (mem ?w) = configRoot (mem p)" "persists (mem ?w) = rest"
    "aofEnabled (mem ?w) = aofEnabled (mem p)" "chans (mem ?w) = chans (mem p)"
    using same by (simp_all add: same_store_def handled_def)
  have "good_store (mem ?w)"
    using good_same [of "mem ?w" "(mem p)\<lparr>persists := rest\<rparr>"] w row by simp
  moreover have "document (mem ?w) = document (mem p)" using w by (simp add: document_def)
  moreover have "\<exists>rs. all_queued es = rs @ persists (mem ?w) \<and> list_all row_ok rs \<and> log_inv base [] rs ?w"
    by (intro exI [of _ "rows @ [row]"]) (use rows row log w in simp)
  ultimately have "served_inv L d c0 base es ?w" using receives.prems log(2) w(4) by (simp add: served_inv_def)
  then show ?case using receives.hyps by simp
next
  case (ends io)
  have "same_store p (commit io p)" using commit_calm [OF ends.hyps(2)] by (simp add: calm_def)
  then have "served_inv L d c0 base es (commit io p)"
    by (rule served_calm [OF ends.prems _ log_inv_commit [OF _ ends.hyps(2)] policy_commit])
  then show ?case using ends.hyps by simp
next
  case (ticks io)
  have "same_store p (tick io p)" using tick_calm [OF ticks.hyps(2)] by (simp add: calm_def)
  then have "served_inv L d c0 base es (tick io p)"
    by (rule served_calm [OF ticks.prems _ log_inv_tick [OF _ ticks.hyps(2)] policy_tick])
  then show ?case using ticks.hyps by simp
qed

lemma served_reads:
  assumes "served_inv L d c0 base es p"
  shows "served_inv L d c0 base es (p\<lparr>mem := snd (Get L k (mem p))\<rparr>)"
proof -
  have q: "same_queue (mem p) (snd (Get L k (mem p)))" by (rule Get_queue)
  then have "good_store (snd (Get L k (mem p))) = good_store (mem p) \<and> document (snd (Get L k (mem p))) = document (mem p)"
    by (intro good_same) (simp_all add: same_queue_def Get_keeps)
  then show ?thesis using assms q by (simp add: served_inv_def same_queue_def log_inv_mem)
qed

lemma served_keeps:
  assumes P: "parser_keeps_lines (gjsonParse L)"
  shows "served L (b, p) es (b', p') \<Longrightarrow> served_inv L d c0 base [] p \<Longrightarrow> served_inv L d c0 base es p'"
proof (induction "(b, p)" es "(b', p')" arbitrary: b' p' rule: served.induct)
  case (writes es b1 p1 x st)
  then show ?case using served_writes [OF _ P] by blast
next
  case (reads es b1 p1 k)
  then show ?case using served_reads by blast
next
  case (logs es s1)
  obtain b1 p1 where s1: "s1 = (b1, p1)" by fastforce
  then have "served_inv L d c0 base es p1" using logs by blast
  then show ?case using served_logs logs.hyps(3) s1 by blast
qed simp

subsection \<open>What is found again\<close>

text \<open>A file from which the document is loaded and that can be appended to.\<close>

definition continues :: "libs \<Rightarrow> store \<Rightarrow> bytes \<Rightarrow> doc \<Rightarrow> bool" where
  "continues L st0 f d \<longleftrightarrow>
     (\<forall>rest. \<exists>st. store_ok st \<and> document st = d \<and> replay_loop L (f @ rest) st0 0 = replay_loop L rest st (length f))"

lemma continues_empty: "store_ok st0 \<Longrightarrow> continues L st0 [] (document st0)"
  by (auto simp: continues_def)

lemma apply_rows_ok: "store_ok st \<Longrightarrow> store_ok (fold (apply_row L) rows st)"
  by (induction rows arbitrary: st) (simp_all add: apply_row_document)

lemma continues_log:
  assumes "continues L st0 f d" "list_all row_ok rows"
  shows "continues L st0 (f @ log_bytes rows) (fold (doc_apply L) rows d)"
  unfolding continues_def
proof
  fix rest
  obtain st where st: "store_ok st" "document st = d"
    "replay_loop L (f @ log_bytes rows @ rest) st0 0 = replay_loop L (log_bytes rows @ rest) st (length f)"
    using assms(1) unfolding continues_def by blast
  have "store_ok (fold (apply_row L) rows st)" by (rule apply_rows_ok [OF st(1)])
  then show "\<exists>st. store_ok st \<and> document st = fold (doc_apply L) rows d \<and>
      replay_loop L ((f @ log_bytes rows) @ rest) st0 0 = replay_loop L rest st (length (f @ log_bytes rows))"
    using st apply_rows_document [OF st(1), of L rows] replay_rows [OF assms(2), of L rest st "length f"]
    by (intro exI [of _ "fold (apply_row L) rows st"]) simp
qed

text \<open>Only the offset of the end depends on where the replay began.\<close>

lemma replay_offset: "replay_loop L bs st (a + good) = (case replay_loop L bs st good of (st', g) \<Rightarrow> (st', a + g))"
proof (induction L bs st good rule: replay_loop.induct)
  case (1 L bs st good)
  show ?case
    by (subst (1 2) replay_loop.simps)
      (use 1 in \<open>auto simp: Let_def add.assoc split: option.split list.split prod.split\<close>)
qed

text \<open>A file that ends anywhere in the records behind \<open>base\<close>.\<close>

lemma cut_replay:
  assumes base: "continues L st0 base d" and rows: "list_all row_ok rows"
    and f: "prefix f (base @ log_bytes rows)" "length base \<le> length f"
  obtains m st where "m \<le> length rows" "store_ok st" "document st = fold (doc_apply L) (take m rows) d"
    "replay_loop L f st0 0 = (st, length (base @ log_bytes (take m rows)))"
    "prefix (base @ log_bytes (take m rows)) f"
    "\<forall>pre. prefix pre rows \<longrightarrow> length (base @ log_bytes pre) \<le> length f \<longrightarrow> length pre \<le> m"
proof -
  define k where "k = length f - length base"
  have f': "f = base @ take k (log_bytes rows)"
    using f by (auto simp: prefix_def k_def append_eq_append_conv2)
  obtain st where st: "store_ok st" "document st = d"
    "replay_loop L f st0 0 = replay_loop L (take k (log_bytes rows)) st (length base + 0)"
    using base unfolding f' continues_def by fastforce
  obtain m where m: "m \<le> length rows"
    "replay_loop L (take k (log_bytes rows)) st 0 = (fold (apply_row L) (take m rows) st, length (log_bytes (take m rows)))"
    "length (log_bytes (take m rows)) \<le> k" "m < length rows \<longrightarrow> k < length (log_bytes (take (Suc m) rows))"
    using replay_prefix [OF rows, of L k st] by blast
  have len: "length (log_bytes xs) \<le> length (log_bytes ys)" if "prefix xs ys" for xs ys
    using that by (auto simp: prefix_def log_bytes_append)
  have "prefix (log_bytes (take m rows)) (take k (log_bytes rows))"
  proof -
    have "log_bytes rows = log_bytes (take m rows) @ log_bytes (drop m rows)" by (simp flip: log_bytes_append)
    then show ?thesis using m(3) by (simp add: prefix_def)
  qed
  moreover have "length pre \<le> m" if "prefix pre rows" "length (base @ log_bytes pre) \<le> length f" for pre
  proof (rule ccontr)
    assume less: "\<not> length pre \<le> m"
    then have "take (Suc m) rows = take (Suc m) pre" using that(1) by (auto simp: prefix_def)
    then have "prefix (take (Suc m) rows) pre" by (simp add: take_is_prefix)
    moreover have "m < length rows" using less that(1) prefix_length_le [OF that(1)] by simp
    ultimately show False using len [of "take (Suc m) rows" pre] m(4) that(2) by (simp add: k_def)
  qed
  moreover have "store_ok (fold (apply_row L) (take m rows) st)" by (rule apply_rows_ok [OF st(1)])
  moreover have "replay_loop L f st0 0 = (fold (apply_row L) (take m rows) st, length (base @ log_bytes (take m rows)))"
    using st(3) m(2) replay_offset [of L "take k (log_bytes rows)" st "length base" 0] by simp
  moreover have "document (fold (apply_row L) (take m rows) st) = fold (doc_apply L) (take m rows) d"
    using apply_rows_document [OF st(1)] st(2) by simp
  ultimately show ?thesis using that [OF m(1)] by (simp add: f')
qed

text \<open>Every operation queues one record at most, so the first \<open>m\<close> records are those of the first operations.\<close>

lemma take_concat_small:
  "\<forall>x \<in> set xss. length x \<le> 1 \<Longrightarrow> m \<le> length (concat xss) \<Longrightarrow> \<exists>j \<le> length xss. concat (take j xss) = take m (concat xss)"
proof (induction xss arbitrary: m)
  case (Cons x xss)
  show ?case
  proof (cases "length x \<le> m")
    case True
    have "\<forall>x \<in> set xss. length x \<le> 1" "m - length x \<le> length (concat xss)" using Cons.prems by simp_all
    then obtain j where "j \<le> length xss" "concat (take j xss) = take (m - length x) (concat xss)"
      using Cons.IH by blast
    then show ?thesis using True by (intro exI [of _ "Suc j"]) simp
  next
    case False
    then have "m = 0" using Cons.prems by simp
    then show ?thesis by (intro exI [of _ 0]) simp
  qed
qed simp

subsection \<open>A process that has just started\<close>

definition fresh :: "libs \<Rightarrow> store \<Rightarrow> proc \<Rightarrow> bool" where
  "fresh L st0 p \<longleftrightarrow>
     opened p \<and> buf p = [] \<and> waiters p = [] \<and> fsize p = length (aof p) \<and> synced p = aof p \<and> closed p = [] \<and>
     \<not> exited p \<and> \<not> fatal p \<and> fsyncPolicy (mem p) = FsyncAlways \<and> good_store (mem p) \<and> persists (mem p) = [] \<and>
     continues L st0 (aof p) (document (mem p))"

text \<open>The variables of the package before \<open>Init\<close>.\<close>

definition configured :: "store \<Rightarrow> bool" where
  "configured st0 \<longleftrightarrow> store_ok st0 \<and> aofEnabled st0 \<and> fsyncPolicy st0 = FsyncAlways \<and> persists st0 = []"

lemma same_queue_eqs:
  "same_queue st0 (snd (setrawonly L k vl st)) = same_queue st0 st"
  "same_queue st0 (load_snapshot L vl st) = same_queue st0 st"
  "same_queue st0 (delonly k st) = same_queue st0 st"
  using setNode_queue [of k "nodeFromRaw (gjsonParse L) vl" st] delonly_queue [of st k]
  by (cases "setNode k (nodeFromRaw (gjsonParse L) vl) st"; simp add: same_queue_def setrawonly_def load_snapshot_def)+

lemma replay_queue: "same_queue st0 (fst (replay_loop L bs st good)) = same_queue st0 st"
proof (induction L bs st good rule: replay_loop.induct)
  case (1 L bs st good)
  show ?case
    by (subst replay_loop.simps)
      (use 1 in \<open>auto simp: Let_def same_queue_eqs split: option.split list.split\<close>)
qed

lemma Init_started:
  assumes "replay_loop L f st0 0 = (st, g)" "g \<le> length f" "aofEnabled st0"
    and p: "p = Init L True io (started_on f st0)" "\<not> fatal p"
  shows "opened p \<and> buf p = [] \<and> waiters p = [] \<and> fsize p = length (aof p) \<and> synced p = aof p \<and> closed p = [] \<and>
    \<not> exited p \<and> mem p = st \<and> aof p = take g f"
  using assms
  by (auto simp: Init_def reopen_def started_on_def replayAOF_def persist_start_def statSize_def Let_def split: if_splits)

lemma fresh_served:
  assumes "fresh L st0 p"
  shows "served_inv L (document (mem p)) (chans (mem p)) (aof p) [] p"
proof -
  have "file_inv (aof p) [] p"
    using assms by (intro file_invI [where pre = "[]" and post = "[]"]) (simp_all add: fresh_def)
  moreover have "durable_inv (aof p) [] [] p" using assms by (intro durable_invI) (simp_all add: fresh_def)
  ultimately have "log_inv (aof p) [] [] p" using assms by (simp add: log_inv_def fresh_def)
  then show ?thesis using assms by (simp add: served_inv_def doc_after_def fresh_def)
qed

text \<open>The first start, in an empty directory.\<close>

lemma first_start:
  assumes "configured st0" "lines_of (document st0)" "p = Init L True io (started_on [] st0)" "\<not> fatal p"
  shows "fresh L st0 p"
proof -
  have "replay_loop L [] st0 0 = (st0, 0)" by (simp add: replay_end)
  from Init_started [OF this _ _ assms(3,4)] show ?thesis
    using assms(1,2,4) continues_empty [of st0 L]
    by (simp add: fresh_def configured_def good_store_def store_lines_def)
qed

text \<open>What a channel that is closed says: its record is among the first ones.\<close>

lemma acknowledged_early:
  assumes inv: "served_inv L d c0 base es p" and i: "i < length es" "acknowledged (es ! i) p"
    and pre: "set (closed p) \<subseteq> row_chans pre" "prefix pre (all_queued (take j es))"
  shows "i < j"
proof (rule ccontr)
  assume "\<not> i < j"
  obtain row c where row: "row \<in> set (queued_rows (es ! i))" "done_chan row = Some c" "c \<in> set (closed p)"
    using i(2) by (auto simp: acknowledged_def)
  have "es ! i \<in> set (drop j es)"
    using \<open>\<not> i < j\<close> i(1) nth_drop [of j es "i - j"] nth_mem [of "i - j" "drop j es"] by simp
  then have "Some c \<in> done_chan ` set (all_queued (drop j es))" using row(1,2) by (force simp: all_queued_def)
  moreover obtain row' where "row' \<in> set pre" "done_chan row' = Some c"
    using pre(1) row(3) by (auto simp: row_chans_def)
  then have "Some c \<in> done_chan ` set (all_queued (take j es))"
    using pre(2) by (force simp: prefix_def)
  moreover have "distinct (map done_chan (all_queued es))" using inv by (simp add: served_inv_def distinct_map)
  then have "distinct (map done_chan (all_queued (take j es) @ all_queued (drop j es)))"
    by (simp only: all_queued_simps(2) [symmetric] append_take_drop_id)
  then have "done_chan ` set (all_queued (take j es)) \<inter> done_chan ` set (all_queued (drop j es)) = {}" by simp
  ultimately show False by blast
qed


text \<open>One write, logged and acknowledged; of the file no more is left than was synced.\<close>

definition always_store :: store where
  "always_store = SetFsyncPolicy FsyncAlways init_store"

definition kept_row :: persistable where
  "kept_row = (mk_row SetRawCmd ''k'' ''true'')\<lparr>done_chan := Some 0\<rparr>"

definition kept_store :: store where
  "kept_store = queue_row (Some (mk_row SetRawCmd ''k'' ''true'')) (put_root ''k'' ''true'' always_store)"

definition kept_event :: client_event where
  "kept_event = \<lparr>asked = OpSetRaw ''k'' ''true'', queued_rows = [kept_row],
     left_doc = DObj [(''k'', stringifyJSON ''k'', DLeaf ''true'')]\<rparr>"

definition kept_proc :: proc where
  "kept_proc = write_row sample_io sample_io kept_row ((sample_proc FsyncAlways)\<lparr>mem := kept_store\<lparr>persists := []\<rparr>\<rparr>)"

lemma kept_start: "configured always_store" "fresh sample_libs always_store (sample_proc FsyncAlways)"
proof -
  have same: "document always_store = document init_store" "store_ok always_store"
    using store_ok_init by (simp_all add: always_store_def SetFsyncPolicy_def document_def store_ok_def)
  show "configured always_store"
    using same by (simp add: configured_def) (simp add: always_store_def SetFsyncPolicy_def init_store_def)
  then show "fresh sample_libs always_store (sample_proc FsyncAlways)"
    using same(1) sample_lines(2) continues_empty [of always_store sample_libs]
    by (simp add: fresh_def sample_proc_def good_store_def store_lines_def configured_def flip: always_store_def)
qed

lemma kept_write:
  "snd (run_op sample_libs (OpSetRaw ''k'' ''true'') always_store) = kept_store"
  "persists kept_store = [kept_row]" "document kept_store = DObj [(''k'', stringifyJSON ''k'', DLeaf ''true'')]"
proof -
  have "checkWritable always_store = None"
    by (simp add: always_store_def SetFsyncPolicy_def checkWritable_def init_store_def)
  then show "snd (run_op sample_libs (OpSetRaw ''k'' ''true'') always_store) = kept_store"
    using raw_publishes [of always_store "''k''" "''true''" sample_libs]
    by (simp add: SetRaw_parts kept_store_def split_kl)
  show "persists kept_store = [kept_row]"
    by (simp add: kept_store_def kept_row_def queue_row_def appendAOF_def put_root_def always_store_def SetFsyncPolicy_def
        init_store_def)
  show "document kept_store = DObj [(''k'', stringifyJSON ''k'', DLeaf ''true'')]"
    by (simp add: kept_store_def document_def put_root_def always_store_def SetFsyncPolicy_def init_store_def
        queue_row_def appendAOF_def newTreeObj_def obj_put_def obj_set_def obj_entries_def)
qed

lemma kept_fields:
  "persists (mem kept_proc) = []" "\<not> fatal kept_proc" "\<not> exited kept_proc"
  "closed (commit sample_io kept_proc) = [0]"
  "synced (commit sample_io kept_proc) = aof (commit sample_io kept_proc)"
proof -
  have pol: "fsyncPolicy kept_store = FsyncAlways"
    by (simp add: kept_store_def queue_row_def appendAOF_def put_root_def always_store_def SetFsyncPolicy_def)
  have k: "persists (mem kept_proc) = []" "\<not> fatal kept_proc" "\<not> exited kept_proc" "buf kept_proc = record_bytes kept_row"
    "waiters kept_proc = [0]" "opened kept_proc" "fsyncPolicy (mem kept_proc) = FsyncAlways" "closed kept_proc = []"
    using pol by (simp_all add: kept_proc_def write_row_def kept_row_def mk_row_def handled_def bound_buf_def sample_proc_def
        record_bytes_def)
  then show "persists (mem kept_proc) = []" "\<not> fatal kept_proc" "\<not> exited kept_proc" by simp_all
  show "closed (commit sample_io kept_proc) = [0]" "synced (commit sample_io kept_proc) = aof (commit sample_io kept_proc)"
    using k by (simp_all add: commit_def flush_def syncNow_def release_def sample_io_def record_bytes_def kept_row_def mk_row_def)
qed

lemma kept_queued:
  "served sample_libs (False, sample_proc FsyncAlways) [kept_event] (False, (sample_proc FsyncAlways)\<lparr>mem := kept_store\<rparr>)"
proof -
  let ?p = "sample_proc FsyncAlways"
  have start: "mem ?p = always_store" "\<not> fatal ?p" "persists (mem ?p) = []"
    by (simp_all add: sample_proc_def always_store_def SetFsyncPolicy_def init_store_def)
  then show ?thesis
    using writes [OF begins start(2), of sample_libs "OpSetRaw ''k'' ''true''" kept_store False]
    unfolding start(1) using raw_reads kept_write
    by (simp add: kept_event_def one_line_def del: run_op.simps op_reads.simps)
qed

lemma kept_run: "served sample_libs (False, sample_proc FsyncAlways) [kept_event] (False, commit sample_io kept_proc)"
proof -
  let ?p = "(sample_proc FsyncAlways)\<lparr>mem := kept_store\<rparr>"
  have "\<not> fatal ?p" "\<not> exited ?p" by (simp_all add: sample_proc_def)
  then have "writer_step (\<lambda>_. True) (False, ?p) (True, kept_proc)"
    using receives [of "\<lambda>_. True" sample_io sample_io ?p kept_row "[]" False] kept_write(2) by (simp add: kept_proc_def)
  moreover have "writer_step (\<lambda>_. True) (True, kept_proc) (False, commit sample_io kept_proc)"
    using ends [of "\<lambda>_. True" sample_io kept_proc] kept_fields(1-3) by simp
  ultimately show ?thesis using logs kept_queued by metis
qed


end
