(* ===== verification/Answered.thy ===== *)
theory Answered
  imports Crash
begin

text \<open>
  Nobody waits for ever: under \<open>always\<close> every write is acknowledged as soon as the goroutine gets to
  the end of its queue on a disk that works.
\<close>

subsection \<open>Who waits\<close>

lemma bound_waiters: "waiters (snd (bound_buf io p)) = waiters p \<and> closed (snd (bound_buf io p)) = closed p"
  by (cases rule: flush_cases [of io p]) (auto simp: bound_buf_def failed_def)

lemma write_waiters:
  assumes "plain_row row" "\<not> fatal p" "\<not> fatal (write_row io io2 row p)"
  shows "waiters (write_row io io2 row p) = waiters p @ (case done_chan row of Some c \<Rightarrow> [c] | None \<Rightarrow> []) \<and>
    closed (write_row io io2 row p) = closed p \<and> exited (write_row io io2 row p) = exited p"
proof -
  let ?q = "handled row (p\<lparr>buf := buf p @ (if opened p then record_bytes row else [])\<rparr>)"
  obtain e r where b: "bound_buf io2 ?q = (e, r)" by fastforce
  have "command row = SetRawCmd \<or> command row = DelCmd" using assms(1) by (simp add: plain_row_def)
  then have w: "write_row io io2 row p = (if e then r\<lparr>exited := True\<rparr> else r)"
    using b by (elim disjE) (simp_all add: write_row_def)
  have "\<not> e" using assms(3) w b stop_is_fatal(1) [of io2 ?q r] by (cases e) auto
  moreover have "waiters r = waiters ?q" "closed r = closed ?q" "exited r = exited ?q"
    using bound_waiters [of io2 ?q] bound_calm [of ?q io2] b assms(2,3) w \<open>\<not> e\<close> by (simp_all add: calm_def handled_def)
  ultimately show ?thesis using w by (simp add: handled_def)
qed

lemma commit_waiters:
  "\<not> fatal (commit io p) \<Longrightarrow>
    waiters (commit io p) = [] \<and> closed (commit io p) = closed p @ waiters p \<and> exited (commit io p) = exited p"
  by (cases rule: flush_cases [of io p]) (auto simp: commit_def failed_def syncNow_def release_def split: if_splits)

lemma tick_waiters:
  "\<not> fatal (tick io p) \<Longrightarrow>
    waiters (tick io p) = waiters p \<and> closed (tick io p) = closed p \<and> exited (tick io p) = exited p"
  by (cases rule: flush_cases [of io p]) (auto simp: tick_def failed_def syncNow_def split: if_splits)

text \<open>Whoever has queued a record is answered, waits at the goroutine, or has it still in the queue; and
  between batches nobody waits at the goroutine.\<close>

definition nobody_forgotten :: "client_event list \<Rightarrow> bool \<times> proc \<Rightarrow> bool" where
  "nobody_forgotten es s \<longleftrightarrow>
     (case s of (b, p) \<Rightarrow> \<not> fatal p \<longrightarrow> \<not> exited p \<and> (\<not> b \<longrightarrow> waiters p = []) \<and>
        row_chans (all_queued es) \<subseteq> row_chans (persists (mem p)) \<union> set (waiters p) \<union> set (closed p))"

lemma forgotten_logs:
  assumes "writer_step P (b, p) (b', p')" "served_inv L d c0 base es p" "nobody_forgotten es (b, p)"
  shows "nobody_forgotten es (b', p')"
  using assms
proof (induction "(b, p)" "(b', p')" rule: writer_step.induct)
  case (receives io io2 row rest)
  let ?q = "p\<lparr>mem := (mem p)\<lparr>persists := rest\<rparr>\<rparr>"
  let ?w = "write_row io io2 row ?q"
  have mem: "good_store (mem p)" using receives by (simp add: served_inv_def)
  note row = row_is_good [OF mem receives.hyps(5)]
  have rest: "persists (mem ?w) = rest"
    using write_plain_row [of row ?q io io2] row receives.hyps(3) by (simp add: same_store_def handled_def)
  have chans: "row_chans (row # rest) = set (case done_chan row of Some c \<Rightarrow> [c] | None \<Rightarrow> []) \<union> row_chans rest"
    by (auto simp: row_chans_def split: option.split)
  have "nobody_forgotten es (True, ?w)"
    using receives.prems(2) receives.hyps(3,4,5) write_waiters [of row ?q io io2] row rest chans
    by (auto simp: nobody_forgotten_def)
  then show ?case using receives.hyps by simp
next
  case (ends io)
  have "persists (mem (commit io p)) = persists (mem p)"
    using commit_calm [OF ends.hyps(2), of io] by (simp add: calm_def same_store_def)
  then have "nobody_forgotten es (False, commit io p)"
    using ends commit_waiters [of io p] by (auto simp: nobody_forgotten_def)
  then show ?case using ends.hyps by simp
next
  case (ticks io)
  have "persists (mem (tick io p)) = persists (mem p)"
    using tick_calm [OF ticks.hyps(2), of io] by (simp add: calm_def same_store_def)
  then have "nobody_forgotten es (False, tick io p)"
    using ticks tick_waiters [of io p] by (auto simp: nobody_forgotten_def)
  then show ?case using ticks.hyps by simp
qed

lemma served_forgotten:
  assumes P: "parser_keeps_lines (gjsonParse L)" and start: "fresh L st0 p"
  shows "served L (False, p) es s \<Longrightarrow> nobody_forgotten es s"
proof (induction "(False, p)" es s rule: served.induct)
  case begins
  then show ?case using start by (simp add: nobody_forgotten_def fresh_def)
next
  case (writes es b1 p1 x st)
  have "served_inv L (document (mem p)) (chans (mem p)) (aof p) es p1"
    by (rule served_keeps [OF P writes.hyps(1) fresh_served [OF start]])
  then have "aofEnabled (mem p1)" "fsyncPolicy (mem p1) = FsyncAlways" by (simp_all add: served_inv_def good_store_def)
  then obtain rows where "persists st = persists (mem p1) @ rows" using op_queues [of "mem p1" L x] writes.hyps(6) by auto
  then show ?case using writes.hyps(2) by (auto simp: nobody_forgotten_def)
next
  case (reads es b1 p1 k)
  then show ?case using Get_queue [of "mem p1" L k] by (simp add: nobody_forgotten_def same_queue_def)
next
  case (logs es s1 s2)
  obtain b1 p1 b2 p2 where s: "s1 = (b1, p1)" "s2 = (b2, p2)" by fastforce
  have "served_inv L (document (mem p)) (chans (mem p)) (aof p) es p1"
    using served_keeps [OF P _ fresh_served [OF start]] logs.hyps(1) s(1) by blast
  then show ?case using forgotten_logs logs.hyps(2,3) s by blast
qed

subsection \<open>A disk that works\<close>

definition disk_works :: "answers \<Rightarrow> bool" where
  "disk_works io \<longleftrightarrow> \<not> write_err (on_write io) \<and> on_sync io"

text \<open>It takes as much as there is to write.\<close>

definition writes_all :: "nat \<Rightarrow> answers" where
  "writes_all n = sample_io\<lparr>on_write := WriteResult n False\<rparr>"

lemma writes_all_works [simp]: "disk_works (writes_all n)"
  by (simp add: disk_works_def writes_all_def sample_io_def)

lemma writer_step_mono: "writer_step P s s' \<Longrightarrow> (\<And>io. P io \<Longrightarrow> Q io) \<Longrightarrow> writer_step Q s s'"
  by (induction rule: writer_step.induct) (auto intro: writer_step.intros)

lemma flush_all: "length (buf p) \<le> n \<Longrightarrow> fst (flush (writes_all n) p) = False \<and> fatal (snd (flush (writes_all n) p)) = fatal p"
  by (simp add: flush_def writes_all_def Let_def)

lemma receive_works:
  assumes "\<not> fatal p" "\<not> exited p" "persists (mem p) = row # rest" "plain_row row"
  shows "\<exists>p2. writer_step disk_works (b, p) (True, p2) \<and> \<not> fatal p2 \<and> persists (mem p2) = rest"
proof -
  let ?q = "p\<lparr>mem := (mem p)\<lparr>persists := rest\<rparr>\<rparr>"
  let ?h = "handled row (?q\<lparr>buf := buf p @ (if opened p then record_bytes row else [])\<rparr>)"
  let ?io = "writes_all (length (buf ?h))"
  obtain e r where b: "bound_buf ?io ?h = (e, r)" by fastforce
  have "\<not> e \<and> \<not> fatal r"
    using b flush_all [of ?h "length (buf ?h)"] assms(1)
    by (auto simp: bound_buf_def handled_def split: prod.splits bool.splits if_splits)
  moreover have "command row = SetRawCmd \<or> command row = DelCmd" using assms(4) by (simp add: plain_row_def)
  then have "write_row ?io ?io row ?q = (if e then r\<lparr>exited := True\<rparr> else r)"
    using b by (elim disjE) (simp_all add: write_row_def)
  ultimately have "\<not> fatal (write_row ?io ?io row ?q)" by simp
  moreover have "persists (mem (write_row ?io ?io row ?q)) = rest"
    using write_plain_row [of row ?q ?io ?io] assms(1,4) by (simp add: same_store_def handled_def)
  moreover have "writer_step disk_works (b, p) (True, write_row ?io ?io row ?q)"
    using receives [of disk_works ?io ?io p row rest b] assms(1-3) by simp
  ultimately show ?thesis by blast
qed

lemma drained:
  assumes P: "parser_keeps_lines (gjsonParse L)" and start: "fresh L st0 p"
  shows "served L (False, p) es (b1, p1) \<Longrightarrow> \<not> fatal p1 \<Longrightarrow>
    \<exists>b2 p2. served L (False, p) es (b2, p2) \<and> (writer_step disk_works)\<^sup>*\<^sup>* (b1, p1) (b2, p2) \<and> \<not> fatal p2 \<and>
      persists (mem p2) = []"
proof (induction "persists (mem p1)" arbitrary: b1 p1)
  case Nil
  then show ?case using Nil.hyps [symmetric] by blast
next
  case (Cons row rest)
  have "served_inv L (document (mem p)) (chans (mem p)) (aof p) es p1"
    by (rule served_keeps [OF P Cons.prems(1) fresh_served [OF start]])
  then have "good_store (mem p1)" by (simp add: served_inv_def)
  then have row: "plain_row row" using row_is_good Cons.hyps(2) [symmetric] by blast
  have "\<not> exited p1" using served_forgotten [OF P start Cons.prems(1)] Cons.prems(2) by (simp add: nobody_forgotten_def)
  then obtain p2 where p2: "writer_step disk_works (b1, p1) (True, p2)" "\<not> fatal p2" "persists (mem p2) = rest"
    using receive_works Cons.prems(2) Cons.hyps(2) row by metis
  then have "served L (False, p) es (True, p2)"
    using logs [OF Cons.prems(1)] writer_step_mono [OF p2(1), of "\<lambda>_. True"] by blast
  then obtain b3 p3 where "served L (False, p) es (b3, p3)" "(writer_step disk_works)\<^sup>*\<^sup>* (True, p2) (b3, p3)" "\<not> fatal p3"
    "persists (mem p3) = []"
    using Cons.hyps(1) p2(2,3) by metis
  then show ?case using p2(1) converse_rtranclp_into_rtranclp by metis
qed

lemma commit_works: "\<not> fatal p \<Longrightarrow> \<not> fatal (commit (writes_all (length (buf p))) p)"
  using flush_all [of p "length (buf p)"]
  by (auto simp: commit_def syncNow_def release_def writes_all_def sample_io_def split: prod.splits bool.splits)

lemma batch_ended:
  assumes P: "parser_keeps_lines (gjsonParse L)" and start: "fresh L st0 p"
    and s: "served L (False, p) es (b2, p2)" "\<not> fatal p2" "persists (mem p2) = []"
  shows "\<exists>p3. served L (False, p) es (False, p3) \<and> (writer_step disk_works)\<^sup>*\<^sup>* (b2, p2) (False, p3) \<and> \<not> fatal p3 \<and>
    persists (mem p3) = []"
proof (cases b2)
  case True
  let ?p3 = "commit (writes_all (length (buf p2))) p2"
  have "\<not> exited p2" using served_forgotten [OF P start s(1)] s(2) by (simp add: nobody_forgotten_def)
  then have step: "writer_step disk_works (b2, p2) (False, ?p3)"
    using True s(2,3) ends [of disk_works] by simp
  moreover have "served L (False, p) es (False, ?p3)"
    using logs [OF s(1)] writer_step_mono [OF step, of "\<lambda>_. True"] by blast
  moreover have "persists (mem ?p3) = []"
    using commit_calm [OF s(2), of "writes_all (length (buf p2))"] s(3) by (simp add: calm_def same_store_def)
  ultimately show ?thesis using commit_works [OF s(2)] by blast
next
  case False
  then show ?thesis using s by (intro exI [of _ p2]) simp
qed

lemma all_answered:
  assumes inv: "served_inv L d c0 base es p" and none: "nobody_forgotten es (False, p)" "\<not> fatal p" "persists (mem p) = []"
    and ev: "ev \<in> set es" "queued_rows ev \<noteq> []"
  shows "acknowledged ev p"
proof -
  obtain row where row: "row \<in> set (queued_rows ev)" using ev(2) by (cases "queued_rows ev") auto
  then have here: "row \<in> set (all_queued es)" using ev(1) by (auto simp: all_queued_def)
  have "set (map done_chan (all_queued es)) \<subseteq> range Some"
    using inv by (simp only: served_inv_def) auto
  then obtain c where c: "done_chan row = Some c" using here by auto
  then have "c \<in> row_chans (all_queued es)" using here by (auto simp: row_chans_def)
  then have "c \<in> set (closed p)" using none by (auto simp: nobody_forgotten_def)
  then show ?thesis using row c by (auto simp: acknowledged_def)
qed

text \<open>C3. Every write gets its answer: at any moment of a run in which the process is alive, the
  goroutine can go on, without any client doing anything and on a disk that works, to a moment where
  every record that was queued is acknowledged.\<close>

theorem every_write_is_acknowledged:
  assumes "parser_keeps_lines (gjsonParse L)" "fresh L st0 p" "served L (False, p) es (b', p')" "\<not> fatal p'"
  shows "\<exists>p2. (writer_step disk_works)\<^sup>*\<^sup>* (b', p') (False, p2) \<and> \<not> fatal p2 \<and>
    (\<forall>ev \<in> set es. queued_rows ev \<noteq> [] \<longrightarrow> acknowledged ev p2)"
proof -
  obtain b2 p2 where p2: "served L (False, p) es (b2, p2)" "(writer_step disk_works)\<^sup>*\<^sup>* (b', p') (b2, p2)" "\<not> fatal p2"
    "persists (mem p2) = []"
    using drained [OF assms] by blast
  obtain p3 where p3: "served L (False, p) es (False, p3)" "(writer_step disk_works)\<^sup>*\<^sup>* (b2, p2) (False, p3)" "\<not> fatal p3"
    "persists (mem p3) = []"
    using batch_ended [OF assms(1,2) p2(1,3,4)] by blast
  have "acknowledged ev p3" if "ev \<in> set es" "queued_rows ev \<noteq> []" for ev
    using that p3(3,4)
    by (intro all_answered [OF served_keeps [OF assms(1) p3(1) fresh_served [OF assms(2)]] served_forgotten [OF assms(1,2) p3(1)]])
  then show ?thesis using rtranclp_trans [OF p2(2) p3(2)] p3(3) by blast
qed

text \<open>The write of the example, queued and not yet logged.\<close>

theorem every_write_is_acknowledged_witness:
  "\<exists>p2. (writer_step disk_works)\<^sup>*\<^sup>* (False, (sample_proc FsyncAlways)\<lparr>mem := kept_store\<rparr>) (False, p2) \<and>
     0 \<in> set (closed p2)"
proof -
  have "\<not> fatal ((sample_proc FsyncAlways)\<lparr>mem := kept_store\<rparr>)" by (simp add: sample_proc_def)
  then obtain p2 where "(writer_step disk_works)\<^sup>*\<^sup>* (False, (sample_proc FsyncAlways)\<lparr>mem := kept_store\<rparr>) (False, p2)"
    "\<forall>ev \<in> set [kept_event]. queued_rows ev \<noteq> [] \<longrightarrow> acknowledged ev p2"
    using every_write_is_acknowledged [OF sample_lines(1) kept_start(2) kept_queued] by blast
  then show ?thesis by (auto simp: kept_event_def acknowledged_def kept_row_def)
qed

end
