(* ===== verification/FileStore.thy ===== *)
theory FileStore
  imports GoText "HOL-Library.Word" "HOL-Library.AList"
begin

text \<open>
  \<open>internal/cluster/filestore.go\<close>: the store behind Raft, its log entries and its small
  key-value part, kept in memory and in two files: a checkpoint, and a write-ahead log of what
  came after it. Every method holds \<open>s.mu\<close>, so each is one step. Results of system calls are
  arguments; a crash in the middle of a method leaves what the method leaves when its next
  system call fails.
\<close>

subsection \<open>Data\<close>

text \<open>\<open>raft.Log\<close> and \<open>persistedLog\<close> have the same fields and are copied into each other.\<close>

record raft_log =
  log_index :: "64 word"
  log_term :: "64 word"
  log_type :: "8 word"
  log_data :: bytes
  log_extensions :: bytes
  log_appended_at :: int

type_synonym raft_logs = "(64 word \<times> raft_log) list"

record persistedState =
  ps_low :: "64 word"
  ps_high :: "64 word"
  ps_logs :: "raft_log list"
  ps_kv :: "bytes \<rightharpoonup> bytes"
  ps_kvInt :: "bytes \<rightharpoonup> 64 word"

record walRecord =
  rec_type :: bytes
  rec_logs :: "raft_log list"
  rec_min :: "64 word"
  rec_max :: "64 word"
  rec_key :: bytes
  rec_val :: bytes
  rec_u64 :: "64 word"

definition empty_record :: walRecord where
  "empty_record = \<lparr>rec_type = [], rec_logs = [], rec_min = 0, rec_max = 0, rec_key = [], rec_val = [], rec_u64 = 0\<rparr>"

text \<open>JSON of records and checkpoints, by the goccy/go-json library.\<close>

record fs_codec =
  enc_rec :: "walRecord \<Rightarrow> bytes option"
  dec_rec :: "bytes \<Rightarrow> walRecord option"
  enc_state :: "persistedState \<Rightarrow> bytes option"
  dec_state :: "bytes \<Rightarrow> persistedState option"

text \<open>
  The files as a crash may leave them: \<open>wal_bytes\<close> with \<open>wal_synced\<close> of them fsynced; a
  rename that the directory was not fsynced after may be undone, so older files are kept beside
  the current ones. An absent checkpoint is an empty one, an absent log an empty one.
\<close>

record disk =
  snap :: bytes
  old_snaps :: "bytes list"
  wal :: "bytes \<times> nat"
  old_wals :: "(bytes \<times> nat) list"

record fileStore =
  lowIndex :: "64 word"
  highIndex :: "64 word"
  logs :: raft_logs
  kv :: "bytes \<rightharpoonup> bytes"
  kvInt :: "bytes \<rightharpoonup> 64 word"
  wal_open :: bool
  lazySync :: bool
  dirty :: bool
  syncFailed :: bool
  syncs :: nat
  files :: disk

datatype fs_error = SystemCall bytes | MarshalFailed | BadSnapshot | BadRecord nat | UnknownRecordType bytes
  | ErrLogNotFound | NotFound

record fs_io =
  io_mkdir :: bool
  io_open :: bool
  io_open_syncdir :: bool
  io_write :: "nat option"
  io_sync :: bool
  io_snap_open :: bool
  io_snap_write :: bool
  io_snap_sync :: bool
  io_snap_close :: bool
  io_snap_rename :: bool
  io_snap_syncdir :: bool
  io_empty_write :: bool
  io_empty_rename :: bool
  io_empty_syncdir :: bool
  io_close :: bool

subsection \<open>Records in memory\<close>

definition put_log :: "raft_log \<Rightarrow> raft_logs \<Rightarrow> raft_logs" where
  "put_log l m = AList.update (log_index l) l m"

text \<open>The loop of \<open>DeleteRange\<close>, which ends before \<open>i++\<close> could wrap.\<close>

function delete_loop :: "64 word \<Rightarrow> 64 word \<Rightarrow> raft_logs \<Rightarrow> raft_logs" where
  "delete_loop i mx m =
     (if i \<le> mx
      then (let m' = AList.delete i m in if i = mx then m' else delete_loop (i + 1) mx m')
      else m)"
  by pat_completeness auto
termination
proof (relation "measure (\<lambda>(i, mx, m). unat mx - unat i)")
  fix i mx :: "64 word" and m m' :: raft_logs
  assume "i \<le> mx" "i \<noteq> mx"
  then have "i < mx" by simp
  then have "unat i < unat mx" by (simp add: word_less_nat_alt)
  moreover have "unat (i + 1) = Suc (unat i)"
  proof -
    have "unat mx < 2 ^ LENGTH(64)" by (rule unsigned_less)
    then have "unat i + unat (1 :: 64 word) < 2 ^ LENGTH(64)" using \<open>unat i < unat mx\<close> by simp
    then show ?thesis using unat_add_lem [of i 1] by simp
  qed
  ultimately show "((i + 1, mx, m'), i, mx, m) \<in> measure (\<lambda>(i, mx, m). unat mx - unat i)" by simp
qed simp

declare delete_loop.simps [simp del]

definition applyWALRecord :: "walRecord \<Rightarrow> fileStore \<Rightarrow> fs_error + fileStore" where
  "applyWALRecord r s =
     (if rec_type r = ''store_logs'' then Inr (s\<lparr>logs := fold put_log (rec_logs r) (logs s)\<rparr>)
      else if rec_type r = ''delete_range'' then Inr (s\<lparr>logs := delete_loop (rec_min r) (rec_max r) (logs s)\<rparr>)
      else if rec_type r = ''set'' then Inr (s\<lparr>kv := (kv s)(rec_key r \<mapsto> rec_val r)\<rparr>)
      else if rec_type r = ''set_u64'' then Inr (s\<lparr>kvInt := (kvInt s)(rec_key r \<mapsto> rec_u64 r)\<rparr>)
      else Inl (UnknownRecordType (rec_type r)))"

definition bounds_step :: "64 word \<Rightarrow> 64 word \<times> 64 word \<Rightarrow> 64 word \<times> 64 word" where
  "bounds_step i b =
     (case b of (low, high) \<Rightarrow>
        (if low = 0 \<or> i < low then i else low, if high < i then i else high))"

definition recomputeBounds :: "fileStore \<Rightarrow> fileStore" where
  "recomputeBounds s =
     (case fold bounds_step (map fst (logs s)) (0, 0) of
        (low, high) \<Rightarrow> s\<lparr>lowIndex := low, highIndex := high\<rparr>)"

subsection \<open>Loading\<close>

definition empty_store :: "disk \<Rightarrow> fileStore" where
  "empty_store d = \<lparr>lowIndex = 0, highIndex = 0, logs = [], kv = Map.empty, kvInt = Map.empty,
     wal_open = False, lazySync = False, dirty = False, syncFailed = False, syncs = 0, files = d\<rparr>"

definition loadSnapshot :: "fs_codec \<Rightarrow> fileStore \<Rightarrow> fs_error + fileStore" where
  "loadSnapshot C s =
     (if snap (files s) = [] then Inr s
      else
        (case dec_state C (snap (files s)) of
           None \<Rightarrow> Inl BadSnapshot
         | Some p \<Rightarrow>
             Inr (s\<lparr>logs := fold put_log (ps_logs p) [], kv := ps_kv p, kvInt := ps_kvInt p,
                    lowIndex := ps_low p, highIndex := ps_high p\<rparr>)))"

text \<open>
  The loop of \<open>replayWALLocked\<close>: what is left of the file, the store, and \<open>good\<close>. It yields
  the store and, when a last record has to be dropped, the size to cut the file to. A last line
  that cannot be read is dropped although it ends in a newline; anywhere else it is an error.
\<close>

function replay_wal :: "fs_codec \<Rightarrow> bytes \<Rightarrow> fileStore \<Rightarrow> nat \<Rightarrow> fs_error + fileStore \<times> nat option" where
  "replay_wal C bs s good =
     (case index_byte nl bs of
        None \<Rightarrow> Inr (s, if bs = [] then None else Some good)
      | Some i \<Rightarrow>
          (let body = trim_space (take (Suc i) bs); rest = drop (Suc i) bs in
           if body = [] then replay_wal C rest s (good + Suc i)
           else
             (case dec_rec C body of
                None \<Rightarrow> if rest = [] then Inr (s, Some good) else Inl (BadRecord good)
              | Some r \<Rightarrow>
                  (case applyWALRecord r s of
                     Inl e \<Rightarrow> Inl e
                   | Inr s' \<Rightarrow> replay_wal C rest s' (good + Suc i)))))"
  by pat_completeness auto
termination
  by (relation "measure (\<lambda>(C, bs, s, n). length bs)") (auto dest: index_byte_Some)

declare replay_wal.simps [simp del]

text \<open>The cut is synced; \<open>wl\<close> is what the file holds.\<close>

definition dropTornTail :: "bool \<Rightarrow> bytes \<Rightarrow> nat \<Rightarrow> fileStore \<Rightarrow> fs_error + fileStore" where
  [simp]: "dropTornTail cuts wl good s =
     (if \<not> cuts then Inl (SystemCall ''truncate'')
      else Inr (s\<lparr>files := (files s)\<lparr>wal := (take good wl, good)\<rparr>\<rparr>))"

text \<open>\<open>newFileStore\<close>; \<open>cuts\<close> says whether cutting the file off succeeds.\<close>

definition newFileStore :: "fs_codec \<Rightarrow> bool \<Rightarrow> bytes \<Rightarrow> bytes \<Rightarrow> fs_error + fileStore" where
  "newFileStore C cuts sn wl =
     (case loadSnapshot C (empty_store \<lparr>snap = sn, old_snaps = [], wal = (wl, length wl), old_wals = []\<rparr>) of
        Inl e \<Rightarrow> Inl e
      | Inr s \<Rightarrow>
          (case replay_wal C wl s 0 of
             Inl e \<Rightarrow> Inl e
           | Inr (s', None) \<Rightarrow> Inr (recomputeBounds s')
           | Inr (s', Some good) \<Rightarrow>
               (case dropTornTail cuts wl good s' of Inl e \<Rightarrow> Inl e | Inr s2 \<Rightarrow> Inr (recomputeBounds s2))))"

subsection \<open>Writing\<close>

text \<open>An fsync of the directory makes the renames before it final.\<close>

definition sync_dir :: "disk \<Rightarrow> disk" where
  "sync_dir d = d\<lparr>old_snaps := [], old_wals := []\<rparr>"

definition write_wal :: "bytes \<Rightarrow> disk \<Rightarrow> disk" where
  "write_wal b d = d\<lparr>wal := (fst (wal d) @ b, snd (wal d))\<rparr>"

definition syncWAL :: "fs_io \<Rightarrow> fileStore \<Rightarrow> fs_error option \<times> fileStore" where
  "syncWAL io s =
     (if \<not> io_sync io then (Some (SystemCall ''fsync''), s)
      else (None, s\<lparr>syncs := Suc (syncs s), dirty := False,
                    files := (files s)\<lparr>wal := (fst (wal (files s)), length (fst (wal (files s))))\<rparr>\<rparr>))"

text \<open>Opening the log, when it is not open.\<close>

definition open_wal :: "fs_io \<Rightarrow> fileStore \<Rightarrow> fs_error option \<times> fileStore" where
  "open_wal io s =
     (if wal_open s then (None, s)
      else if \<not> io_mkdir io then (Some (SystemCall ''mkdir''), s)
      else if \<not> io_open io then (Some (SystemCall ''open''), s)
      else if \<not> io_open_syncdir io then (Some (SystemCall ''fsync''), s)
      else (None, s\<lparr>wal_open := True, files := sync_dir (files s)\<rparr>))"

definition appendWAL :: "fs_codec \<Rightarrow> fs_io \<Rightarrow> walRecord \<Rightarrow> bool \<Rightarrow> fileStore \<Rightarrow> fs_error option \<times> fileStore" where
  "appendWAL C io r durable s =
     (case open_wal io s of
        (Some e, s1) \<Rightarrow> (Some e, s1)
      | (None, s1) \<Rightarrow>
          (case enc_rec C r of
             None \<Rightarrow> (Some MarshalFailed, s1)
           | Some b \<Rightarrow>
               (case io_write io of
                  Some k \<Rightarrow> (Some (SystemCall ''write''), s1\<lparr>files := write_wal (take k (b @ [nl])) (files s1)\<rparr>)
                | None \<Rightarrow>
                    let s2 = s1\<lparr>files := write_wal (b @ [nl]) (files s1)\<rparr> in
                    if durable \<or> \<not> lazySync s2 then syncWAL io s2 else (None, s2\<lparr>dirty := True\<rparr>))))"

definition state_of :: "fileStore \<Rightarrow> persistedState" where
  "state_of s = \<lparr>ps_low = lowIndex s, ps_high = highIndex s, ps_logs = map snd (sort_key fst (logs s)),
     ps_kv = kv s, ps_kvInt = kvInt s\<rparr>"

definition persistSnapshot :: "fs_codec \<Rightarrow> fs_io \<Rightarrow> fileStore \<Rightarrow> fs_error option \<times> fileStore" where
  "persistSnapshot C io s =
     (case enc_state C (state_of s) of
        None \<Rightarrow> (Some MarshalFailed, s)
      | Some b \<Rightarrow>
          if \<not> io_snap_open io then (Some (SystemCall ''open''), s)
          else if \<not> io_snap_write io then (Some (SystemCall ''write''), s)
          else if \<not> io_snap_sync io then (Some (SystemCall ''fsync''), s)
          else if \<not> io_snap_close io then (Some (SystemCall ''close''), s)
          else if \<not> io_snap_rename io then (Some (SystemCall ''rename''), s)
          else
            let s1 = s\<lparr>files := (files s)\<lparr>snap := b, old_snaps := snap (files s) # old_snaps (files s)\<rparr>\<rparr> in
            if \<not> io_snap_syncdir io then (Some (SystemCall ''fsync''), s1)
            else (None, s1\<lparr>files := sync_dir (files s1)\<rparr>))"

definition compact :: "fs_codec \<Rightarrow> fs_io \<Rightarrow> fileStore \<Rightarrow> fs_error option \<times> fileStore" where
  "compact C io s0 =
     (case persistSnapshot C io (s0\<lparr>wal_open := False\<rparr>) of
        (Some e, s) \<Rightarrow> (Some e, s)
      | (None, s) \<Rightarrow>
          if \<not> io_empty_write io then (Some (SystemCall ''write''), s)
          else if \<not> io_empty_rename io then (Some (SystemCall ''rename''), s)
          else
            let s1 = s\<lparr>files := (files s)\<lparr>wal := ([], 0), old_wals := wal (files s) # old_wals (files s)\<rparr>\<rparr> in
            if \<not> io_empty_syncdir io then (Some (SystemCall ''fsync''), s1)
            else (None, s1\<lparr>files := sync_dir (files s1), dirty := False\<rparr>))"

subsection \<open>The interface Raft uses\<close>

definition FirstIndex :: "fileStore \<Rightarrow> 64 word" where
  "FirstIndex s = lowIndex s"

definition LastIndex :: "fileStore \<Rightarrow> 64 word" where
  "LastIndex s = highIndex s"

definition GetLog :: "64 word \<Rightarrow> fileStore \<Rightarrow> fs_error + raft_log" where
  "GetLog i s = (case map_of (logs s) i of None \<Rightarrow> Inl ErrLogNotFound | Some l \<Rightarrow> Inr l)"

definition StoreLogs :: "fs_codec \<Rightarrow> fs_io \<Rightarrow> raft_log list \<Rightarrow> fileStore \<Rightarrow> fs_error option \<times> fileStore" where
  "StoreLogs C io ls s =
     appendWAL C io (empty_record\<lparr>rec_type := ''store_logs'', rec_logs := ls\<rparr>) False
       (recomputeBounds (s\<lparr>logs := fold put_log ls (logs s)\<rparr>))"

definition StoreLog :: "fs_codec \<Rightarrow> fs_io \<Rightarrow> raft_log \<Rightarrow> fileStore \<Rightarrow> fs_error option \<times> fileStore" where
  "StoreLog C io l s = StoreLogs C io [l] s"

definition DeleteRange :: "fs_codec \<Rightarrow> fs_io \<Rightarrow> 64 word \<Rightarrow> 64 word \<Rightarrow> fileStore \<Rightarrow> fs_error option \<times> fileStore" where
  "DeleteRange C io mn mx s = compact C io (recomputeBounds (s\<lparr>logs := delete_loop mn mx (logs s)\<rparr>))"

definition Set_kv :: "fs_codec \<Rightarrow> fs_io \<Rightarrow> bytes \<Rightarrow> bytes \<Rightarrow> fileStore \<Rightarrow> fs_error option \<times> fileStore" where
  "Set_kv C io k v s =
     appendWAL C io (empty_record\<lparr>rec_type := ''set'', rec_key := k, rec_val := v\<rparr>) True
       (s\<lparr>kv := (kv s)(k \<mapsto> v)\<rparr>)"

text \<open>A copy of an empty value is Go's \<open>nil\<close>, which \<open>Get\<close> takes for an absent one.\<close>

definition Get_kv :: "bytes \<Rightarrow> fileStore \<Rightarrow> fs_error + bytes" where
  "Get_kv k s = (case kv s k of None \<Rightarrow> Inl NotFound | Some v \<Rightarrow> if v = [] then Inl NotFound else Inr v)"

definition SetUint64 :: "fs_codec \<Rightarrow> fs_io \<Rightarrow> bytes \<Rightarrow> 64 word \<Rightarrow> fileStore \<Rightarrow> fs_error option \<times> fileStore" where
  "SetUint64 C io k v s =
     appendWAL C io (empty_record\<lparr>rec_type := ''set_u64'', rec_key := k, rec_u64 := v\<rparr>) True
       (s\<lparr>kvInt := (kvInt s)(k \<mapsto> v)\<rparr>)"

definition GetUint64 :: "bytes \<Rightarrow> fileStore \<Rightarrow> fs_error + 64 word" where
  "GetUint64 k s = (case kvInt s k of None \<Rightarrow> Inl NotFound | Some v \<Rightarrow> Inr v)"

definition syncEvery :: "fileStore \<Rightarrow> fileStore" where
  "syncEvery s = s\<lparr>lazySync := True\<rparr>"

definition syncIfDirty :: "fs_io \<Rightarrow> fileStore \<Rightarrow> fileStore" where
  "syncIfDirty io s =
     (if \<not> dirty s \<or> \<not> wal_open s then s
      else
        (case syncWAL io s of
           (Some _, s') \<Rightarrow> s'\<lparr>syncFailed := True\<rparr>
         | (None, s') \<Rightarrow> s'\<lparr>syncFailed := False\<rparr>))"

definition Close_store :: "fs_io \<Rightarrow> fileStore \<Rightarrow> fs_error option \<times> fileStore" where
  "Close_store io s =
     (if \<not> wal_open s then (None, s)
      else
        (case (if dirty s then syncWAL io s else (None, s)) of
           (err, s') \<Rightarrow>
             (if err = None \<and> \<not> io_close io then Some (SystemCall ''close'') else err,
              s'\<lparr>wal_open := False\<rparr>)))"

text \<open>What a crash may leave for \<open>newFileStore\<close> to load.\<close>

definition crash_disk :: "disk \<Rightarrow> bytes \<Rightarrow> bytes \<Rightarrow> bool" where
  "crash_disk d sn wl \<longleftrightarrow>
     sn \<in> set (snap d # old_snaps d) \<and>
     (\<exists>(c, m) \<in> set (wal d # old_wals d). \<exists>n. m \<le> n \<and> n \<le> length c \<and> wl = take n c)"

text \<open>Steps; the flag says that no failing write left a part of its record in the file.\<close>

inductive fs_step :: "fs_codec \<Rightarrow> fileStore \<Rightarrow> fileStore \<Rightarrow> bool" for C where
  store_logs: "io_write io \<in> {None, Some 0} \<Longrightarrow> fs_step C s (snd (StoreLogs C io ls s))"
| delete_range: "fs_step C s (snd (DeleteRange C io mn mx s))"
| set_kv: "io_write io \<in> {None, Some 0} \<Longrightarrow> fs_step C s (snd (Set_kv C io k v s))"
| set_u64: "io_write io \<in> {None, Some 0} \<Longrightarrow> fs_step C s (snd (SetUint64 C io k u s))"
| sync_every: "fs_step C s (syncEvery s)"
| sync_if_dirty: "fs_step C s (syncIfDirty io s)"
| close_store: "fs_step C s (snd (Close_store io s))"

end
