(* ===== verification/FileStoreLaws.thy ===== *)
theory FileStoreLaws
  imports FileStore "HOL-Library.Multiset"
begin

text \<open>
  Facts about the store behind Raft: its log is replayed line by line, every record either sets
  a value or leaves it, and so a value that was written durably is found again after any crash.
  The locale \<open>durable_register\<close> says this once for term and vote, for the other keys and for
  log entries, which are its interpretations.
\<close>

subsection \<open>Records one at a time\<close>

lemma map_of_put_log: "map_of (put_log l m) i = (if i = log_index l then Some l else map_of m i)"
  by (simp add: put_log_def update_conv)

lemma map_of_put_logs:
  "map_of (fold put_log ls m) i =
    (case find (\<lambda>l. log_index l = i) (rev ls) of None \<Rightarrow> map_of m i | Some l \<Rightarrow> Some l)"
proof (induction ls rule: rev_induct)
  case (snoc l ls)
  then show ?case by (auto simp: map_of_put_log)
qed simp

lemma delete_loop_map:
  "map_of (delete_loop i mx m) j = (if i \<le> j \<and> j \<le> mx then None else map_of m j)"
proof (induction i mx m rule: delete_loop.induct)
  case (1 i mx m)
  show ?case
  proof (cases "i < mx")
    case True
    then have "unat i < unat mx" by (simp add: word_less_nat_alt)
    moreover have "unat mx < 2 ^ LENGTH(64)" by (rule unsigned_less)
    ultimately have "unat (i + 1) = Suc (unat i)" using unat_add_lem [of i 1] by simp
    then have "i + 1 \<le> j \<longleftrightarrow> i < j" by (simp add: word_less_nat_alt word_le_nat_alt Suc_le_eq)
    with True 1 show ?thesis
      by (simp add: delete_loop.simps [of i mx m] Let_def delete_conv') (auto simp: less_imp_le)
  next
    case False
    then show ?thesis
      by (auto simp: delete_loop.simps [of i mx m] Let_def delete_conv')
  qed
qed

lemma delete_loop_filter: "delete_loop i mx m = filter (\<lambda>(j, l). \<not> (i \<le> j \<and> j \<le> mx)) m"
proof (induction i mx m rule: delete_loop.induct)
  case (1 i mx m)
  have delete: "AList.delete i m = filter (\<lambda>(j, l). j \<noteq> i) m"
    by (simp add: AList.delete_eq case_prod_beta' neq_commute)
  show ?case
  proof (cases "i < mx")
    case True
    then have "unat i < unat mx" by (simp add: word_less_nat_alt)
    moreover have "unat mx < 2 ^ LENGTH(64)" by (rule unsigned_less)
    ultimately have "unat (i + 1) = Suc (unat i)" using unat_add_lem [of i 1] by simp
    then have "i + 1 \<le> j \<longleftrightarrow> i < j" for j by (simp add: word_less_nat_alt word_le_nat_alt Suc_le_eq)
    moreover have "delete_loop i mx m = delete_loop (i + 1) mx (AList.delete i m)"
      using True less_imp_neq [OF True] by (simp add: delete_loop.simps [of i mx m] Let_def less_imp_le)
    moreover have "delete_loop (i + 1) mx (AList.delete i m) =
        filter (\<lambda>(j, l). \<not> (i + 1 \<le> j \<and> j \<le> mx)) (AList.delete i m)"
      using True by (intro 1) (simp_all add: less_imp_le)
    ultimately have "delete_loop i mx m = filter (\<lambda>(j, l). j \<noteq> i \<and> \<not> (i < j \<and> j \<le> mx)) m"
      by (simp add: delete case_prod_beta')
    also have "\<dots> = filter (\<lambda>(j, l). \<not> (i \<le> j \<and> j \<le> mx)) m"
      using True by (intro filter_cong refl) auto
    finally show ?thesis .
  next
    case False
    then consider "i = mx" | "mx < i" by (metis linorder_neqE)
    then show ?thesis
    proof cases
      case 1
      have "filter (\<lambda>(j, l). j \<noteq> mx) m = filter (\<lambda>(j, l). \<not> (mx \<le> j \<and> j \<le> mx)) m"
        by (intro filter_cong refl) auto
      with 1 delete show ?thesis by (simp add: delete_loop.simps [of mx mx m] Let_def)
    next
      case 2
      then have "filter (\<lambda>(j, l). \<not> (i \<le> j \<and> j \<le> mx)) m = m" by (intro filter_True) auto
      moreover have "\<not> i \<le> mx" using 2 by simp
      then have "delete_loop i mx m = m" by (simp only: delete_loop.simps [of i mx m] if_False)
      ultimately show ?thesis by simp
    qed
  qed
qed

subsection \<open>Lines of the log\<close>

definition line_record :: "fs_codec \<Rightarrow> bytes \<Rightarrow> walRecord option" where
  "line_record C l = (let body = trim_space (l @ [nl]) in if body = [] then None else dec_rec C body)"

definition known_record :: "walRecord \<Rightarrow> bool" where
  "known_record r \<longleftrightarrow> rec_type r \<in> {''store_logs'', ''delete_range'', ''set'', ''set_u64''}"

definition good_line :: "fs_codec \<Rightarrow> bytes \<Rightarrow> bool" where
  "good_line C l \<longleftrightarrow>
     nl \<notin> set l \<and> (trim_space (l @ [nl]) = [] \<or> (\<exists>r. line_record C l = Some r \<and> known_record r))"

definition apply_line :: "fs_codec \<Rightarrow> bytes \<Rightarrow> fileStore \<Rightarrow> fileStore" where
  "apply_line C l s =
     (case line_record C l of
        None \<Rightarrow> s
      | Some r \<Rightarrow> (case applyWALRecord r s of Inl _ \<Rightarrow> s | Inr s' \<Rightarrow> s'))"

definition join_lines :: "bytes list \<Rightarrow> bytes" where
  "join_lines ls = concat (map (\<lambda>l. l @ [nl]) ls)"

lemma known_applies: "known_record r \<Longrightarrow> \<exists>s'. applyWALRecord r s = Inr s'"
  by (auto simp: known_record_def applyWALRecord_def)

lemma replay_line:
  assumes "nl \<notin> set l"
  shows "replay_wal C (l @ nl # r) s g =
    (let body = trim_space (l @ [nl]) in
     if body = [] then replay_wal C r s (g + Suc (length l))
     else
       (case dec_rec C body of
          None \<Rightarrow> if r = [] then Inr (s, Some g) else Inl (BadRecord g)
        | Some x \<Rightarrow>
            (case applyWALRecord x s of
               Inl e \<Rightarrow> Inl e
             | Inr s' \<Rightarrow> replay_wal C r s' (g + Suc (length l)))))"
  using index_byte_append [OF assms, of r] by (simp add: replay_wal.simps [of C "l @ nl # r"] Let_def)

lemma replay_good_line:
  assumes "good_line C l"
  shows "replay_wal C (l @ nl # r) s g = replay_wal C r (apply_line C l s) (g + Suc (length l))"
proof -
  have "nl \<notin> set l" using assms by (simp add: good_line_def)
  note line = replay_line [OF this, of C r s g]
  show ?thesis
  proof (cases "trim_space (l @ [nl]) = []")
    case True
    then show ?thesis unfolding line by (simp add: apply_line_def line_record_def)
  next
    case False
    with assms obtain x where x: "dec_rec C (trim_space (l @ [nl])) = Some x" "known_record x"
      by (auto simp: good_line_def line_record_def Let_def)
    obtain s' where "applyWALRecord x s = Inr s'" using known_applies [OF x(2)] by blast
    with False x show ?thesis unfolding line by (simp add: apply_line_def line_record_def)
  qed
qed

lemma replay_lines:
  "list_all (good_line C) ls \<Longrightarrow> nl \<notin> set part \<Longrightarrow>
    replay_wal C (join_lines ls @ part) s g =
      Inr (fold (apply_line C) ls s, if part = [] then None else Some (g + length (join_lines ls)))"
proof (induction ls arbitrary: s g)
  case Nil
  then have "index_byte nl part = None" using index_byte_None [of nl part] by blast
  then show ?case by (simp add: join_lines_def replay_wal.simps)
next
  case (Cons l ls)
  have "join_lines (l # ls) @ part = l @ nl # (join_lines ls @ part)" by (simp add: join_lines_def)
  with Cons show ?case by (simp add: replay_good_line join_lines_def)
qed

text \<open>A file that could be loaded consists of such lines, once it has been cut.\<close>

lemma replay_loaded:
  "replay_wal C bs s g = Inr (s', c) \<Longrightarrow>
    \<exists>ls. list_all (good_line C) ls \<and>
      (case c of None \<Rightarrow> bs = join_lines ls | Some n \<Rightarrow> n = g + length (join_lines ls) \<and> take (n - g) bs = join_lines ls)"
proof (induction C bs s g rule: replay_wal.induct)
  case (1 C bs s g)
  show ?case
  proof (cases "index_byte nl bs")
    case None
    with 1(3) show ?thesis
      by (intro exI [of _ "[]"]) (auto simp: replay_wal.simps [of C bs] join_lines_def split: if_splits)
  next
    case (Some i)
    let ?l = "take i bs" and ?r = "drop (Suc i) bs"
    let ?body = "trim_space (take (Suc i) bs)"
    have i: "i < length bs" "bs = ?l @ nl # ?r" "nl \<notin> set ?l"
      using index_byte_Some [OF Some] index_byte_split [OF Some] by simp_all
    have tk: "take (Suc i) bs = ?l @ [nl]" using i(1) index_byte_Some [OF Some] by (simp add: take_Suc_conv_app_nth)
    have more: ?thesis if "good_line C ?l" and ls: "list_all (good_line C) ls"
      "case c of None \<Rightarrow> ?r = join_lines ls
       | Some n \<Rightarrow> n = g + Suc i + length (join_lines ls) \<and> take (n - (g + Suc i)) ?r = join_lines ls" for ls
    proof (intro exI [of _ "?l # ls"] conjI)
      show "list_all (good_line C) (?l # ls)" using that by simp
      have j: "join_lines (?l # ls) = ?l @ nl # join_lines ls" by (simp add: join_lines_def)
      show "case c of None \<Rightarrow> bs = join_lines (?l # ls)
        | Some n \<Rightarrow> n = g + length (join_lines (?l # ls)) \<and> take (n - g) bs = join_lines (?l # ls)"
      proof (cases c)
        case None
        with ls(2) i(2) j show ?thesis by simp
      next
        case (Some n)
        with ls(2) have n: "n = g + Suc i + length (join_lines ls)"
          "take (length (join_lines ls)) ?r = join_lines ls" by auto
        then have "n - g = Suc i + length (join_lines ls)" by simp
        then have "take (n - g) bs = take (Suc i) bs @ take (length (join_lines ls)) ?r"
          by (simp only: take_add)
        with n tk Some j i(1) show ?thesis by simp
      qed
    qed
    note prems = 1(3)
    note unfold = replay_wal.simps [of C bs s g]
    consider (blank) "?body = []" | (bad) "?body \<noteq> []" "dec_rec C ?body = None"
      | (rec) r where "?body \<noteq> []" "dec_rec C ?body = Some r" by (cases "dec_rec C ?body") auto
    then show ?thesis
    proof cases
      case blank
      have "replay_wal C ?r s (g + Suc i) = Inr (s', c)" using prems Some blank by (simp add: unfold)
      moreover have "good_line C ?l" using blank i(3) tk by (simp add: good_line_def)
      ultimately show ?thesis using 1(1) [OF Some refl refl blank] more by blast
    next
      case bad
      then have "c = Some g" using prems Some by (simp add: unfold split: if_splits)
      then show ?thesis by (intro exI [of _ "[]"]) (simp add: join_lines_def)
    next
      case rec
      then obtain s1 where s1: "applyWALRecord r s = Inr s1" "replay_wal C ?r s1 (g + Suc i) = Inr (s', c)"
        using prems Some by (auto simp: unfold split: sum.splits)
      have "known_record r" using s1(1) by (auto simp: applyWALRecord_def known_record_def split: if_splits)
      with rec i(3) tk have "good_line C ?l" by (simp add: good_line_def line_record_def)
      with 1(2) [OF Some refl refl rec(1,2) s1] more show ?thesis by blast
    qed
  qed
qed

subsection \<open>The codec\<close>

definition ascii :: "bytes \<Rightarrow> bool" where
  "ascii k \<longleftrightarrow> list_all (\<lambda>c. of_char c < (0x80 :: nat)) k"

definition plain_keys :: "fileStore \<Rightarrow> bool" where
  "plain_keys s \<longleftrightarrow> (\<forall>k \<in> dom (kv s) \<union> dom (kvInt s). ascii k)"

text \<open>
  What is asked of the JSON library: it writes records and checkpoints with ASCII keys, each on
  one line without white space around it, and reads them back.
\<close>

definition fs_codec_ok :: "fs_codec \<Rightarrow> bool" where
  "fs_codec_ok C \<longleftrightarrow>
     (\<forall>r b. enc_rec C r = Some b \<longrightarrow> ascii (rec_key r) \<longrightarrow>
        b \<noteq> [] \<and> nl \<notin> set b \<and> trim_space (b @ [nl]) = b \<and> dec_rec C b = Some r) \<and>
     (\<forall>p b. enc_state C p = Some b \<longrightarrow> (\<forall>k \<in> dom (ps_kv p) \<union> dom (ps_kvInt p). ascii k) \<longrightarrow>
        b \<noteq> [] \<and> dec_state C b = Some p)"

lemma encoded_line:
  assumes "fs_codec_ok C" "enc_rec C r = Some b" "ascii (rec_key r)" "known_record r"
  shows "good_line C b" "line_record C b = Some r" "nl \<notin> set b"
  using assms by (simp_all add: fs_codec_ok_def good_line_def line_record_def Let_def)

subsection \<open>What a crash can leave\<close>

definition snap_loads :: "fs_codec \<Rightarrow> bytes \<Rightarrow> bool" where
  "snap_loads C sn \<longleftrightarrow> sn = [] \<or> dec_state C sn \<noteq> None"

definition snap_store :: "fs_codec \<Rightarrow> bytes \<Rightarrow> fileStore" where
  "snap_store C sn =
     (case loadSnapshot C (empty_store \<lparr>snap = sn, old_snaps = [], wal = ([], 0), old_wals = []\<rparr>) of
        Inl _ \<Rightarrow> empty_store \<lparr>snap = [], old_snaps = [], wal = ([], 0), old_wals = []\<rparr>
      | Inr s \<Rightarrow> s)"

definition good_wal :: "fs_codec \<Rightarrow> bytes \<times> nat \<Rightarrow> bool" where
  "good_wal C w \<longleftrightarrow> snd w \<le> length (fst w) \<and> (\<exists>ls. list_all (good_line C) ls \<and> fst w = join_lines ls)"

definition disk_ok :: "fs_codec \<Rightarrow> disk \<Rightarrow> bool" where
  "disk_ok C d \<longleftrightarrow>
     (\<forall>sn \<in> set (snap d # old_snaps d). snap_loads C sn) \<and>
     (\<forall>w \<in> set (wal d # old_wals d). good_wal C w)"

definition logs_ok :: "raft_logs \<Rightarrow> bool" where
  "logs_ok m \<longleftrightarrow> distinct (map fst m) \<and> (\<forall>i l. map_of m i = Some l \<longrightarrow> log_index l = i)"

definition fs_inv :: "fs_codec \<Rightarrow> fileStore \<Rightarrow> bool" where
  "fs_inv C s \<longleftrightarrow> disk_ok C (files s) \<and> plain_keys s \<and> logs_ok (logs s) \<and>
     (wal_open s \<longrightarrow> old_snaps (files s) = [] \<and> old_wals (files s) = [])"

lemma join_lines_snoc: "join_lines (ls @ [l]) = join_lines ls @ l @ [nl]"
  by (simp add: join_lines_def)

text \<open>Any cut of whole lines is some of the lines and a part without a newline.\<close>

lemma take_join_lines:
  "list_all (good_line C) ls \<Longrightarrow>
    \<exists>m part. take n (join_lines ls) = join_lines (take m ls) @ part \<and> nl \<notin> set part"
proof (induction ls arbitrary: n)
  case Nil
  then show ?case by (intro exI [of _ 0] exI [of _ "[]"]) (simp add: join_lines_def)
next
  case (Cons l ls)
  show ?case
  proof (cases "n \<le> length l")
    case True
    have "nl \<notin> set (take n l)" using Cons.prems by (auto simp: good_line_def dest: in_set_takeD)
    with True show ?thesis by (intro exI [of _ 0] exI [of _ "take n l"]) (simp add: join_lines_def)
  next
    case False
    from Cons obtain m part where "take (n - Suc (length l)) (join_lines ls) = join_lines (take m ls) @ part"
      "nl \<notin> set part" by (auto simp: Let_def) blast
    with False show ?thesis
      by (intro exI [of _ "Suc m"] exI [of _ part]) (simp add: join_lines_def take_Cons' Suc_diff_le)
  qed
qed

text \<open>The store loaded from a checkpoint and some lines, and the torn line after them.\<close>

definition same_data :: "fileStore \<Rightarrow> fileStore \<Rightarrow> bool" where
  "same_data s t \<longleftrightarrow> map_of (logs s) = map_of (logs t) \<and> kv s = kv t \<and> kvInt s = kvInt t"

lemma same_data_refl [simp]: "same_data s s"
  by (simp add: same_data_def)

lemma same_data_apply:
  assumes "same_data s t" "applyWALRecord r s = Inr s'"
  shows "\<exists>t'. applyWALRecord r t = Inr t' \<and> same_data s' t'"
  using assms
  by (auto simp: applyWALRecord_def same_data_def fun_eq_iff map_of_put_logs delete_loop_map
      split: if_splits option.split)

lemma same_data_lines:
  "same_data s t \<Longrightarrow> same_data (fold (apply_line C) ls s) (fold (apply_line C) ls t)"
proof (induction ls arbitrary: s t)
  case (Cons l ls)
  have "same_data (apply_line C l s) (apply_line C l t)"
  proof (cases "line_record C l")
    case None
    with Cons.prems show ?thesis by (simp add: apply_line_def)
  next
    case (Some r)
    have sym: "same_data t s" using Cons.prems by (simp add: same_data_def)
    show ?thesis
      using same_data_apply [OF Cons.prems, of r] same_data_apply [OF sym, of r] Some Cons.prems
      by (cases "applyWALRecord r s"; cases "applyWALRecord r t") (auto simp: apply_line_def)
  qed
  then show ?case by (simp add: Cons.IH)
qed simp

lemma loadSnapshot_data:
  assumes "snap_loads C (snap d)"
  shows "\<exists>s. loadSnapshot C (empty_store d) = Inr s \<and> same_data (snap_store C (snap d)) s"
proof (cases "snap d = []")
  case True
  then show ?thesis by (simp add: loadSnapshot_def empty_store_def snap_store_def same_data_def)
next
  case False
  with assms obtain p where "dec_state C (snap d) = Some p" by (auto simp: snap_loads_def)
  with False show ?thesis
    by (simp add: loadSnapshot_def empty_store_def snap_store_def same_data_def)
qed

lemma newFileStore_lines:
  assumes "snap_loads C sn" "list_all (good_line C) ls" "nl \<notin> set part"
  shows "\<exists>st. newFileStore C True sn (join_lines ls @ part) = Inr st \<and>
    same_data (fold (apply_line C) ls (snap_store C sn)) st"
proof -
  let ?wl = "join_lines ls @ part"
  let ?d = "\<lparr>snap = sn, old_snaps = [], wal = (?wl, length ?wl), old_wals = []\<rparr>"
  obtain s where s: "loadSnapshot C (empty_store ?d) = Inr s" "same_data (snap_store C sn) s"
    using loadSnapshot_data [of C ?d] assms(1) by auto
  have "same_data t (recomputeBounds t)" "same_data t (recomputeBounds (t\<lparr>files := f\<rparr>))" for t f
    by (simp_all add: recomputeBounds_def same_data_def split: prod.split)
  moreover have "same_data (fold (apply_line C) ls (snap_store C sn)) (fold (apply_line C) ls s)"
    by (rule same_data_lines [OF s(2)])
  ultimately have "same_data (fold (apply_line C) ls (snap_store C sn)) (recomputeBounds (fold (apply_line C) ls s))"
    "same_data (fold (apply_line C) ls (snap_store C sn)) (recomputeBounds ((fold (apply_line C) ls s)\<lparr>files := f\<rparr>))" for f
    by (auto simp: same_data_def)
  with s(1) show ?thesis
    using replay_lines [OF assms(2,3), of s 0]
    by (simp add: newFileStore_def)
qed

text \<open>A value found after any crash; a durable one is in memory too.\<close>

definition found :: "fs_codec \<Rightarrow> (fileStore \<Rightarrow> 'v option) \<Rightarrow> 'v \<Rightarrow> disk \<Rightarrow> bool" where
  "found C g v d \<longleftrightarrow>
     (\<forall>sn wl. crash_disk d sn wl \<longrightarrow> (\<exists>st. newFileStore C True sn wl = Inr st \<and> g st = Some v))"

lemma found_mono: "found C g v d \<Longrightarrow> (\<And>sn wl. crash_disk d' sn wl \<Longrightarrow> crash_disk d sn wl) \<Longrightarrow> found C g v d'"
  by (auto simp: found_def)

lemma crash_sync_dir: "crash_disk (sync_dir d) sn wl \<Longrightarrow> crash_disk d sn wl"
  by (auto simp: crash_disk_def sync_dir_def)

lemma crash_full: "sn \<in> set (snap d # old_snaps d) \<Longrightarrow> w \<in> set (wal d # old_wals d) \<Longrightarrow>
    snd w \<le> length (fst w) \<Longrightarrow> crash_disk d sn (fst w)"
  unfolding crash_disk_def by (cases w) (force intro!: bexI [of _ w] exI [of _ "length (fst w)"])

lemma crash_lines:
  assumes "disk_ok C d" "crash_disk d sn wl"
  shows "snap_loads C sn \<and> (\<exists>ls part. list_all (good_line C) ls \<and> nl \<notin> set part \<and> wl = join_lines ls @ part)"
proof -
  obtain c m n where w: "(c, m) \<in> set (wal d # old_wals d)" "wl = take n c" and sn: "sn \<in> set (snap d # old_snaps d)"
    using assms(2) unfolding crash_disk_def by blast
  have "good_wal C (c, m)" using w(1) assms(1) unfolding disk_ok_def by blast
  then obtain ls where ls: "list_all (good_line C) ls" "c = join_lines ls" by (auto simp: good_wal_def)
  obtain j part where "take n (join_lines ls) = join_lines (take j ls) @ part" "nl \<notin> set part"
    using take_join_lines [OF ls(1)] by blast
  moreover have "list_all (good_line C) (take j ls)" using ls(1) by (auto simp: list_all_iff dest: in_set_takeD)
  ultimately show ?thesis using w ls sn assms(1) by (auto simp: disk_ok_def)
qed

subsection \<open>Registers\<close>

locale durable_register =
  fixes g :: "fileStore \<Rightarrow> 'v option"
  assumes data: "same_data s t \<Longrightarrow> g s = g t"
    and sets: "applyWALRecord r s = Inr s' \<Longrightarrow> applyWALRecord r t = Inr t' \<Longrightarrow>
      g s' = g t' \<or> g s' = g s \<and> g t' = g t"
begin

lemma line_sets:
  "g (apply_line C l s) = g (apply_line C l t) \<or> g (apply_line C l s) = g s \<and> g (apply_line C l t) = g t"
proof (cases "line_record C l")
  case (Some r)
  show ?thesis
  proof (cases "applyWALRecord r s")
    case (Inl e)
    then have "\<exists>e. applyWALRecord r t = Inl e" by (auto simp: applyWALRecord_def split: if_splits)
    with Inl Some show ?thesis by (auto simp: apply_line_def)
  next
    case (Inr s')
    then have "\<exists>t'. applyWALRecord r t = Inr t'" by (auto simp: applyWALRecord_def split: if_splits)
    with Inr Some sets show ?thesis by (fastforce simp: apply_line_def)
  qed
qed (simp add: apply_line_def)

lemma lines_set:
  "g (fold (apply_line C) ls s) = g (fold (apply_line C) ls t) \<or>
   g (fold (apply_line C) ls s) = g s \<and> g (fold (apply_line C) ls t) = g t"
proof (induction ls arbitrary: s t)
  case (Cons l ls)
  show ?case
    using Cons.IH [of "apply_line C l s" "apply_line C l t"] line_sets [of C l s t] by auto
qed simp

text \<open>Lines that lead to the value from one store lead to it from any store that has it.\<close>

lemma lines_over: "g (fold (apply_line C) ls s) = Some v \<Longrightarrow> g t = Some v \<Longrightarrow> g (fold (apply_line C) ls t) = Some v"
  using lines_set [of C ls s t] by auto

lemma loaded_value:
  assumes "snap_loads C sn" "list_all (good_line C) ls" "nl \<notin> set part"
  shows "(\<exists>st. newFileStore C True sn (join_lines ls @ part) = Inr st \<and> g st = Some v) \<longleftrightarrow>
    g (fold (apply_line C) ls (snap_store C sn)) = Some v"
  using newFileStore_lines [OF assms] data by auto

lemma found_append:
  assumes ok: "disk_ok C d" and found: "found C g v d" and line: "good_line C b" "line_record C b = Some r"
    and keeps: "\<And>x y. applyWALRecord r x = Inr y \<Longrightarrow> g x = Some v \<Longrightarrow> g y = Some v"
  shows "found C g v (write_wal (b @ [nl]) d)"
  unfolding found_def
proof (intro allI impI)
  fix sn wl assume crash: "crash_disk (write_wal (b @ [nl]) d) sn wl"
  obtain c m where cm: "wal d = (c, m)" by (cases "wal d")
  obtain ls where ls: "list_all (good_line C) ls" "c = join_lines ls" "m \<le> length c"
    using ok cm by (auto simp: disk_ok_def good_wal_def)
  have sn: "sn \<in> set (snap d # old_snaps d)" using crash by (auto simp: crash_disk_def write_wal_def)
  show "\<exists>st. newFileStore C True sn wl = Inr st \<and> g st = Some v"
  proof (cases "crash_disk d sn wl")
    case True
    with found show ?thesis by (simp add: found_def)
  next
    case False
    with crash sn obtain n where n: "m \<le> n" "n \<le> length (c @ b @ [nl])" "wl = take n (c @ b @ [nl])"
      by (auto simp: crash_disk_def write_wal_def cm)
    have "length c < n"
    proof (rule ccontr)
      assume "\<not> length c < n"
      with n have "crash_disk d sn wl" using sn by (auto simp: crash_disk_def cm intro!: exI [of _ n])
      with False show False by simp
    qed
    have loads: "snap_loads C sn" using ok sn by (auto simp: disk_ok_def)
    have "crash_disk d sn (join_lines ls)" using crash_full [OF sn, of "wal d"] cm ls by simp
    then have before: "g (fold (apply_line C) ls (snap_store C sn)) = Some v"
      using found loaded_value [OF loads ls(1), of "[]" v] by (simp add: found_def)
    show ?thesis
    proof (cases "n = length (c @ b @ [nl])")
      case True
      then have wl: "wl = join_lines (ls @ [b]) @ []" using n ls by (simp add: join_lines_snoc)
      have "\<exists>y. applyWALRecord r x = Inr y" for x
        using line by (auto simp: good_line_def line_record_def Let_def split: if_splits intro: known_applies)
      then have "g (fold (apply_line C) (ls @ [b]) (snap_store C sn)) = Some v"
        using before keeps line(2) by (fastforce simp: apply_line_def)
      with loaded_value [OF loads, of "ls @ [b]" "[]" v] ls(1) line(1) show ?thesis unfolding wl by simp
    next
      case False
      then have "wl = join_lines ls @ take (n - length c) b" using n ls(2) \<open>length c < n\<close> by simp
      moreover have "nl \<notin> set (take (n - length c) b)" using line(1) by (auto simp: good_line_def dest: in_set_takeD)
      ultimately show ?thesis using loaded_value [OF loads ls(1)] before by simp
    qed
  qed
qed

text \<open>A new checkpoint that has the value, under any of the logs.\<close>

lemma found_snapshot:
  assumes ok: "disk_ok C d" and found: "found C g v d"
    and loads: "snap_loads C b" and val: "g (snap_store C b) = Some v"
  shows "found C g v (d\<lparr>snap := b, old_snaps := snap d # old_snaps d\<rparr>)"
  unfolding found_def
proof (intro allI impI)
  fix sn wl assume crash: "crash_disk (d\<lparr>snap := b, old_snaps := snap d # old_snaps d\<rparr>) sn wl"
  then consider "sn = b" | "crash_disk d sn wl" by (auto simp: crash_disk_def)
  then show "\<exists>st. newFileStore C True sn wl = Inr st \<and> g st = Some v"
  proof cases
    case 1
    have old: "crash_disk d (snap d) wl" using crash by (auto simp: crash_disk_def)
    from crash_lines [OF ok old] obtain ls part where
      ls: "list_all (good_line C) ls" "nl \<notin> set part" "wl = join_lines ls @ part" and sl: "snap_loads C (snap d)"
      by blast
    have "g (fold (apply_line C) ls (snap_store C (snap d))) = Some v"
      using found old loaded_value [OF sl ls(1,2), of v] unfolding found_def ls(3) by blast
    from lines_over [OF this val] show ?thesis
      unfolding 1 ls(3) using loaded_value [OF loads ls(1,2)] by blast
  next
    case 2
    with found show ?thesis by (simp add: found_def)
  qed
qed

lemma found_empty_wal:
  assumes "snap_loads C (snap d)" "g (snap_store C (snap d)) = Some v" "old_snaps d = []" "found C g v d"
  shows "found C g v (d\<lparr>wal := ([], 0), old_wals := wal d # old_wals d\<rparr>)"
  unfolding found_def
proof (intro allI impI)
  fix sn wl assume "crash_disk (d\<lparr>wal := ([], 0), old_wals := wal d # old_wals d\<rparr>) sn wl"
  then have "sn = snap d \<and> wl = join_lines [] @ [] \<or> crash_disk d sn wl"
    using assms(3) by (auto simp: crash_disk_def join_lines_def)
  then show "\<exists>st. newFileStore C True sn wl = Inr st \<and> g st = Some v"
  proof
    assume "sn = snap d \<and> wl = join_lines [] @ []"
    then show ?thesis using loaded_value [OF assms(1), of "[]" "[]" v] assms(2) by simp
  next
    assume "crash_disk d sn wl"
    with assms(4) show ?thesis by (simp add: found_def)
  qed
qed

end

text \<open>Term and vote, the other keys, and the log entries are registers.\<close>

interpretation u64: durable_register "\<lambda>s. kvInt s k"
  by unfold_locales (auto simp: same_data_def applyWALRecord_def split: if_splits)

interpretation kvs: durable_register "\<lambda>s. kv s k"
  by unfold_locales (auto simp: same_data_def applyWALRecord_def split: if_splits)

interpretation entries: durable_register "\<lambda>s. map_of (logs s) i"
  by unfold_locales
    (auto simp: same_data_def applyWALRecord_def map_of_put_logs delete_loop_map split: if_splits option.splits)

subsection \<open>Operations keep the disk readable\<close>

lemma disk_ok_write:
  assumes "disk_ok C d" "good_line C b"
  shows "disk_ok C (write_wal (b @ [nl]) d)"
proof -
  obtain ls where "list_all (good_line C) ls" "fst (wal d) = join_lines ls" "snd (wal d) \<le> length (fst (wal d))"
    using assms(1) by (auto simp: disk_ok_def good_wal_def)
  with assms(2) have "good_wal C (fst (wal d) @ b @ [nl], snd (wal d))"
    unfolding good_wal_def by (intro conjI exI [of _ "ls @ [b]"]) (simp_all add: join_lines_snoc)
  with assms(1) show ?thesis by (simp add: disk_ok_def write_wal_def)
qed

lemma disk_ok_sync_dir: "disk_ok C d \<Longrightarrow> disk_ok C (sync_dir d)"
  by (simp add: disk_ok_def sync_dir_def)

lemma disk_ok_sync_wal: "disk_ok C d \<Longrightarrow> disk_ok C (d\<lparr>wal := (fst (wal d), length (fst (wal d)))\<rparr>)"
  by (simp add: disk_ok_def good_wal_def)

lemma write_nothing: "write_wal [] d = d"
  by (simp add: write_wal_def)

text \<open>What \<open>appendWAL\<close> does: fails with the disk as good as before, or appends a whole record.\<close>

lemma appendWAL_cases:
  assumes "io_write io \<in> {None, Some 0}"
  obtains (fails) e s' where "appendWAL C io r d s = (Some e, s')" "files s' = files s \<or> files s' = sync_dir (files s)"
      "wal_open s' \<longrightarrow> wal_open s \<or> files s' = sync_dir (files s)"
      "logs s' = logs s" "kv s' = kv s" "kvInt s' = kvInt s"
  | (written) b f s' err where "enc_rec C r = Some b" "appendWAL C io r d s = (err, s')"
      "f = files s \<and> wal_open s \<or> f = sync_dir (files s)"
      "files s' = write_wal (b @ [nl]) f \<or>
       files s' = (write_wal (b @ [nl]) f)\<lparr>wal := (fst (wal f) @ b @ [nl], length (fst (wal f) @ b @ [nl]))\<rparr>"
      "err = None \<Longrightarrow> d \<or> \<not> lazySync s \<Longrightarrow>
        files s' = (write_wal (b @ [nl]) f)\<lparr>wal := (fst (wal f) @ b @ [nl], length (fst (wal f) @ b @ [nl]))\<rparr>"
      "wal_open s'" "logs s' = logs s" "kv s' = kv s" "kvInt s' = kvInt s"
proof -
  obtain err s1 where opened: "open_wal io s = (err, s1)" by fastforce
  have s1: "logs s1 = logs s" "kv s1 = kv s" "kvInt s1 = kvInt s" "lazySync s1 = lazySync s"
    "err \<noteq> None \<Longrightarrow> s1 = s"
    "err = None \<Longrightarrow> wal_open s1 \<and> (files s1 = files s \<and> wal_open s \<or> files s1 = sync_dir (files s))"
    using opened by (auto simp: open_wal_def split: if_splits)
  show thesis
  proof (cases "\<exists>e. err = Some e")
    case True
    then obtain e where "err = Some e" by blast
    with opened s1 show thesis by (intro fails [of e s1]) (auto simp: appendWAL_def)
  next
    case False
    then have none: "err = None" by simp
    show thesis
    proof (cases "enc_rec C r")
      case None
      with opened none s1 show thesis by (intro fails [of MarshalFailed s1]) (auto simp: appendWAL_def)
    next
      case (Some b)
      show thesis
      proof (cases "io_write io")
        case None
        obtain e2 s2 where res: "appendWAL C io r d s = (e2, s2)" by fastforce
        with None Some opened none s1 show thesis
          by (intro written [of b e2 s2 "files s1"])
            (auto simp: appendWAL_def syncWAL_def write_wal_def Let_def split: if_splits)
      next
        case (Some k)
        with assms have "io_write io = Some 0" by auto
        with \<open>enc_rec C r = Some b\<close> opened none s1 show thesis
          by (intro fails [of "SystemCall ''write''" s1]) (auto simp: appendWAL_def write_nothing)
      qed
    qed
  qed
qed

subsection \<open>Entries in memory and in the checkpoint\<close>

lemma logs_ok_put: "logs_ok m \<Longrightarrow> logs_ok (put_log l m)"
  unfolding logs_ok_def map_of_put_log by (auto simp: put_log_def distinct_update)

lemma logs_ok_puts: "logs_ok m \<Longrightarrow> logs_ok (fold put_log ls m)"
  by (induction ls arbitrary: m) (simp_all add: logs_ok_put)

lemma logs_ok_delete: "logs_ok m \<Longrightarrow> logs_ok (delete_loop i mx m)"
  unfolding logs_ok_def delete_loop_map
  by (auto simp: delete_loop_filter distinct_map_filter split: if_splits)

lemma logs_ok_empty: "logs_ok []"
  by (simp add: logs_ok_def)

lemma map_of_fold_put:
  "distinct (map log_index ls) \<Longrightarrow>
    map_of (fold put_log ls m) = map_of m ++ map_of (map (\<lambda>l. (log_index l, l)) ls)"
proof (induction ls arbitrary: m)
  case (Cons l ls)
  have "map_of (map (\<lambda>l. (log_index l, l)) ls) (log_index l) = None"
    using Cons.prems by (auto simp: map_of_eq_None_iff image_image)
  with Cons show ?case
    by (auto simp: fun_eq_iff map_of_put_log map_add_def split: option.split)
qed simp

lemma checkpoint_logs:
  assumes "logs_ok m"
  shows "map_of (fold put_log (map snd (sort_key fst m)) []) = map_of m"
proof -
  let ?s = "sort_key fst m"
  have dist: "distinct (map fst m)" using assms by (simp add: logs_ok_def)
  have "mset (map fst ?s) = mset (map fst m)" by simp
  then have ds: "distinct (map fst ?s)" using dist by (metis mset_eq_imp_distinct_iff)
  have idx: "log_index l = i" if "(i, l) \<in> set ?s" for i l
    using that assms dist by (auto simp: logs_ok_def)
  then have fst: "map fst ?s = map log_index (map snd ?s)" by (auto simp: comp_def intro!: map_cong)
  have "map (\<lambda>l. (log_index l, l)) (map snd ?s) = ?s"
    using idx by (auto simp: comp_def intro!: map_idI)
  moreover have "map_of ?s = map_of m" using map_of_inject_set [OF ds dist] by simp
  ultimately show ?thesis using map_of_fold_put [of "map snd ?s" "[]"] ds fst by simp
qed

lemma checkpoint_loads:
  assumes "fs_codec_ok C" "enc_state C (state_of s) = Some b" "plain_keys s" "logs_ok (logs s)"
  shows "snap_loads C b" "same_data (snap_store C b) s"
proof -
  have b: "b \<noteq> []" "dec_state C b = Some (state_of s)"
    using assms by (auto simp: fs_codec_ok_def plain_keys_def state_of_def)
  then show "snap_loads C b" by (simp add: snap_loads_def)
  show "same_data (snap_store C b) s"
    using b checkpoint_logs [OF assms(4)]
    by (simp add: snap_store_def loadSnapshot_def empty_store_def same_data_def state_of_def)
qed

subsection \<open>The invariant\<close>

lemma append_inv:
  assumes C: "fs_codec_ok C" and io: "io_write io \<in> {None, Some 0}"
    and r: "ascii (rec_key r)" "known_record r"
    and disk: "disk_ok C (files t)" and opened: "wal_open t \<longrightarrow> old_snaps (files t) = [] \<and> old_wals (files t) = []"
    and mem: "plain_keys t" "logs_ok (logs t)"
  shows "fs_inv C (snd (appendWAL C io r d t))"
  using io
proof (cases rule: appendWAL_cases [of io C r d t])
  case (fails e s')
  have "disk_ok C (files s')" using fails(2) disk disk_ok_sync_dir by auto
  moreover have "wal_open s' \<longrightarrow> old_snaps (files s') = [] \<and> old_wals (files s') = []"
  proof -
    have "old_snaps (sync_dir (files t)) = []" "old_wals (sync_dir (files t)) = []" by (simp_all add: sync_dir_def)
    with fails(2,3) opened show ?thesis by metis
  qed
  ultimately show ?thesis
    using fails(1,4-6) mem by (simp add: fs_inv_def plain_keys_def)
next
  case (written b f s' err)
  note line = encoded_line [OF C written(1) r]
  have f: "disk_ok C f" "old_snaps f = []" "old_wals f = []"
    using written(3) disk opened disk_ok_sync_dir by (auto simp: sync_dir_def)
  have w: "disk_ok C (write_wal (b @ [nl]) f)" by (rule disk_ok_write [OF f(1) line(1)])
  have "disk_ok C (files s')" using written(4) w disk_ok_sync_wal [OF w] by (auto simp: write_wal_def)
  moreover have "old_snaps (files s') = [] \<and> old_wals (files s') = []"
    using written(4) f by (auto simp: write_wal_def)
  ultimately show ?thesis using written mem by (simp add: fs_inv_def plain_keys_def)
qed

lemma compact_cases:
  obtains (same) "files (snd (compact C io s)) = files s"
  | (renamed) b where "enc_state C (state_of s) = Some b"
      "files (snd (compact C io s)) = (files s)\<lparr>snap := b, old_snaps := snap (files s) # old_snaps (files s)\<rparr>"
  | (checkpoint) b where "enc_state C (state_of s) = Some b"
      "files (snd (compact C io s)) = sync_dir ((files s)\<lparr>snap := b, old_snaps := snap (files s) # old_snaps (files s)\<rparr>)"
  | (emptied) b d where "enc_state C (state_of s) = Some b"
      "d = sync_dir ((files s)\<lparr>snap := b, old_snaps := snap (files s) # old_snaps (files s)\<rparr>)"
      "files (snd (compact C io s)) = d\<lparr>wal := ([], 0), old_wals := wal d # old_wals d\<rparr> \<or>
       files (snd (compact C io s)) = sync_dir (d\<lparr>wal := ([], 0), old_wals := wal d # old_wals d\<rparr>)"
proof (cases "enc_state C (state_of s)")
  case None
  then have "files (snd (compact C io s)) = files s"
    by (simp add: compact_def persistSnapshot_def state_of_def)
  then show thesis by (rule same)
next
  case (Some b)
  let ?r = "(files s)\<lparr>snap := b, old_snaps := snap (files s) # old_snaps (files s)\<rparr>"
  have enc: "enc_state C (state_of (s\<lparr>wal_open := False\<rparr>)) = Some b" using Some by (simp add: state_of_def)
  have "files (snd (compact C io s)) = files s \<or> files (snd (compact C io s)) = ?r \<or>
      files (snd (compact C io s)) = sync_dir ?r \<or>
      files (snd (compact C io s)) = (sync_dir ?r)\<lparr>wal := ([], 0), old_wals := [wal (files s)]\<rparr> \<or>
      files (snd (compact C io s)) = sync_dir ((sync_dir ?r)\<lparr>wal := ([], 0), old_wals := [wal (files s)]\<rparr>)"
    by (simp add: compact_def persistSnapshot_def enc Let_def sync_dir_def)
  moreover have "wal (sync_dir ?r) # old_wals (sync_dir ?r) = [wal (files s)]" by (simp add: sync_dir_def)
  ultimately show thesis
    using same renamed [OF Some] checkpoint [OF Some] emptied [OF Some refl] by metis
qed

lemma compact_memory:
  "logs (snd (compact C io s)) = logs s" "kv (snd (compact C io s)) = kv s"
  "kvInt (snd (compact C io s)) = kvInt s" "\<not> wal_open (snd (compact C io s))"
  by (simp_all add: compact_def persistSnapshot_def Let_def split: option.split)

lemma disk_ok_compact:
  assumes C: "fs_codec_ok C" and disk: "disk_ok C (files s)" and mem: "plain_keys s" "logs_ok (logs s)"
  shows "disk_ok C (files (snd (compact C io s)))"
proof -
  have new: "disk_ok C ((files s)\<lparr>snap := b, old_snaps := snap (files s) # old_snaps (files s)\<rparr>)"
    if "enc_state C (state_of s) = Some b" for b
    using disk checkpoint_loads(1) [OF C that mem] by (auto simp: disk_ok_def)
  have "good_wal C ([], 0)" by (auto simp: good_wal_def join_lines_def intro!: exI [of _ "[]"])
  then have empty: "disk_ok C (d\<lparr>wal := ([], 0), old_wals := wal d # old_wals d\<rparr>)" if "disk_ok C d" for d
    using that by (simp add: disk_ok_def)
  show ?thesis
  proof (cases rule: compact_cases [of C io s])
    case same
    with disk show ?thesis by simp
  next
    case renamed
    with new show ?thesis by simp
  next
    case checkpoint
    with new disk_ok_sync_dir show ?thesis by simp
  next
    case (emptied b d)
    then have "disk_ok C d" using new disk_ok_sync_dir by simp
    from empty [OF this] disk_ok_sync_dir [OF empty [OF this]] emptied(3) show ?thesis by metis
  qed
qed

lemma compact_inv:
  assumes "fs_codec_ok C" "disk_ok C (files s)" "plain_keys s" "logs_ok (logs s)"
  shows "fs_inv C (snd (compact C io s))"
  using disk_ok_compact [OF assms] assms(3,4) compact_memory [of C io s]
  by (simp add: fs_inv_def plain_keys_def)

lemma recompute_fields [simp]:
  "logs (recomputeBounds s) = logs s" "kv (recomputeBounds s) = kv s" "kvInt (recomputeBounds s) = kvInt s"
  "files (recomputeBounds s) = files s" "wal_open (recomputeBounds s) = wal_open s"
  "lazySync (recomputeBounds s) = lazySync s" "plain_keys (recomputeBounds s) = plain_keys s"
  by (simp_all add: recomputeBounds_def plain_keys_def split: prod.split)

lemma syncWAL_fields:
  "logs (snd (syncWAL io s)) = logs s" "kv (snd (syncWAL io s)) = kv s" "kvInt (snd (syncWAL io s)) = kvInt s"
  "wal_open (snd (syncWAL io s)) = wal_open s"
  "files (snd (syncWAL io s)) = files s \<or>
   files (snd (syncWAL io s)) = (files s)\<lparr>wal := (fst (wal (files s)), length (fst (wal (files s))))\<rparr>"
  by (simp_all add: syncWAL_def)

text \<open>Every step keeps the invariant.\<close>

definition log_record :: "raft_log list \<Rightarrow> walRecord" where
  "log_record ls = empty_record\<lparr>rec_type := ''store_logs'', rec_logs := ls\<rparr>"

definition kv_record :: "bytes \<Rightarrow> bytes \<Rightarrow> walRecord" where
  "kv_record k v = empty_record\<lparr>rec_type := ''set'', rec_key := k, rec_val := v\<rparr>"

definition u64_record :: "bytes \<Rightarrow> 64 word \<Rightarrow> walRecord" where
  "u64_record k u = empty_record\<lparr>rec_type := ''set_u64'', rec_key := k, rec_u64 := u\<rparr>"

lemma record_facts:
  "ascii (rec_key (log_record ls))" "known_record (log_record ls)"
  "rec_key (kv_record k v) = k" "known_record (kv_record k v)"
  "rec_key (u64_record k u) = k" "known_record (u64_record k u)"
  "applyWALRecord (log_record ls) s = Inr (s\<lparr>logs := fold put_log ls (logs s)\<rparr>)"
  "applyWALRecord (kv_record k v) s = Inr (s\<lparr>kv := (kv s)(k \<mapsto> v)\<rparr>)"
  "applyWALRecord (u64_record k u) s = Inr (s\<lparr>kvInt := (kvInt s)(k \<mapsto> u)\<rparr>)"
  by (simp_all add: log_record_def kv_record_def u64_record_def empty_record_def known_record_def
      applyWALRecord_def ascii_def)

lemma appendWAL_memory:
  "logs (snd (appendWAL C io r d s)) = logs s" "kv (snd (appendWAL C io r d s)) = kv s"
  "kvInt (snd (appendWAL C io r d s)) = kvInt s"
  by (simp_all add: appendWAL_def open_wal_def syncWAL_def Let_def split: option.split)

text \<open>A step is an append of a record that memory took first, a checkpoint, or leaves the data.\<close>

lemma fs_step_cases:
  assumes "fs_step C s s'"
  obtains (append) io r d t u where "s' = snd (appendWAL C io r d t)" "io_write io \<in> {None, Some 0}"
      "known_record r" "ascii (rec_key r) \<or> rec_key r \<in> dom (kv s') \<union> dom (kvInt s')"
      "files t = files s" "wal_open t = wal_open s" "applyWALRecord r s = Inr u" "same_data t u"
      "logs_ok (logs s) \<longrightarrow> logs_ok (logs t)" "same_data s' t"
  | (compact) io t where "s' = snd (compact C io t)" "files t = files s" "kv t = kv s" "kvInt t = kvInt s"
      "logs_ok (logs s) \<longrightarrow> logs_ok (logs t)" "same_data s' t"
  | (idle) "same_data s' s" "logs s' = logs s" "wal_open s' \<longrightarrow> wal_open s"
      "files s' = files s \<or> files s' = (files s)\<lparr>wal := (fst (wal (files s)), length (fst (wal (files s))))\<rparr>"
  using assms
proof cases
  case (store_logs io ls)
  show thesis
    by (rule append [of io "log_record ls" False "recomputeBounds (s\<lparr>logs := fold put_log ls (logs s)\<rparr>)"
          "s\<lparr>logs := fold put_log ls (logs s)\<rparr>"])
      (use store_logs in \<open>simp_all add: record_facts StoreLogs_def same_data_def logs_ok_puts appendWAL_memory
         flip: log_record_def\<close>)
next
  case (delete_range io mn mx)
  show thesis
    by (rule compact [of io "recomputeBounds (s\<lparr>logs := delete_loop mn mx (logs s)\<rparr>)"])
      (use delete_range in \<open>simp_all add: DeleteRange_def same_data_def logs_ok_delete compact_memory\<close>)
next
  case (set_kv io k v)
  show thesis
    by (rule append [of io "kv_record k v" True "s\<lparr>kv := (kv s)(k \<mapsto> v)\<rparr>" "s\<lparr>kv := (kv s)(k \<mapsto> v)\<rparr>"])
      (use set_kv in \<open>simp_all add: record_facts Set_kv_def appendWAL_memory same_data_def flip: kv_record_def\<close>)
next
  case (set_u64 io k u)
  show thesis
    by (rule append [of io "u64_record k u" True "s\<lparr>kvInt := (kvInt s)(k \<mapsto> u)\<rparr>" "s\<lparr>kvInt := (kvInt s)(k \<mapsto> u)\<rparr>"])
      (use set_u64 in \<open>simp_all add: record_facts SetUint64_def appendWAL_memory same_data_def flip: u64_record_def\<close>)
next
  case sync_every
  then show thesis by (intro idle) (simp_all add: syncEvery_def same_data_def)
next
  case (sync_if_dirty io)
  then show thesis
    by (intro idle) (auto simp: syncIfDirty_def same_data_def syncWAL_def split: if_splits)
next
  case (close_store io)
  then show thesis
    by (intro idle) (auto simp: Close_store_def same_data_def syncWAL_def split: if_splits)
qed

lemma fs_step_inv:
  assumes C: "fs_codec_ok C" and step: "fs_step C s s'" and inv: "fs_inv C s" and keys: "plain_keys s'"
  shows "fs_inv C s'"
  using step
proof (cases rule: fs_step_cases)
  case (append io r d t u)
  have "plain_keys t" using keys append(10) by (simp add: plain_keys_def same_data_def)
  moreover have "ascii (rec_key r)" using append(4) keys by (auto simp: plain_keys_def)
  ultimately show ?thesis
    unfolding append(1) using inv append by (intro append_inv [OF C append(2)]) (simp_all add: fs_inv_def)
next
  case (compact io t)
  then show ?thesis
    unfolding compact(1) using inv by (intro compact_inv [OF C]) (simp_all add: fs_inv_def plain_keys_def)
next
  case idle
  then show ?thesis
    using inv disk_ok_sync_wal [of C "files s"] by (auto simp: fs_inv_def plain_keys_def same_data_def)
qed

context durable_register
begin

lemma found_sync_wal:
  assumes "found C g v d" "disk_ok C d"
  shows "found C g v (d\<lparr>wal := (fst (wal d), length (fst (wal d)))\<rparr>)"
proof (rule found_mono [OF assms(1)])
  fix sn wl
  obtain c m where "wal d = (c, m)" by (cases "wal d")
  moreover have "snd (wal d) \<le> length (fst (wal d))" using assms(2) by (simp add: disk_ok_def good_wal_def)
  ultimately show "crash_disk (d\<lparr>wal := (fst (wal d), length (fst (wal d)))\<rparr>) sn wl \<Longrightarrow> crash_disk d sn wl"
    by (auto simp: crash_disk_def)
qed

lemma found_sync_dir: "found C g v d \<Longrightarrow> found C g v (sync_dir d)"
  by (erule found_mono) (rule crash_sync_dir)

lemma found_appendWAL:
  assumes C: "fs_codec_ok C" and io: "io_write io \<in> {None, Some 0}" and r: "ascii (rec_key r)" "known_record r"
    and disk: "disk_ok C (files t)" and found: "found C g v (files t)"
    and keeps: "\<And>x y. applyWALRecord r x = Inr y \<Longrightarrow> g x = Some v \<Longrightarrow> g y = Some v"
  shows "found C g v (files (snd (appendWAL C io r d t)))"
  using io
proof (cases rule: appendWAL_cases [of io C r d t])
  case (fails e s')
  then show ?thesis using found found_sync_dir by auto
next
  case (written b f s' err)
  have f: "disk_ok C f" "found C g v f"
    using written(3) disk found disk_ok_sync_dir found_sync_dir by auto
  have "found C g v (write_wal (b @ [nl]) f)"
    using encoded_line [OF C written(1) r] by (intro found_append [OF f _ _ keeps])
  moreover have "disk_ok C (write_wal (b @ [nl]) f)"
    using encoded_line [OF C written(1) r] by (intro disk_ok_write f)
  ultimately have "found C g v (write_wal (b @ [nl]) f)"
    "found C g v ((write_wal (b @ [nl]) f)\<lparr>wal := (fst (wal f) @ b @ [nl], length (fst (wal f) @ b @ [nl]))\<rparr>)"
    using found_sync_wal [of C v "write_wal (b @ [nl]) f"] by (simp_all add: write_wal_def)
  with written(2,4) show ?thesis by (metis snd_conv)
qed

lemma found_compact:
  assumes C: "fs_codec_ok C" and disk: "disk_ok C (files t)" and mem: "plain_keys t" "logs_ok (logs t)"
    and found: "found C g v (files t)" and val: "g t = Some v"
  shows "found C g v (files (snd (compact C io t)))"
proof -
  let ?r = "\<lambda>b. (files t)\<lparr>snap := b, old_snaps := snap (files t) # old_snaps (files t)\<rparr>"
  have b: "snap_loads C b" "g (snap_store C b) = Some v" if "enc_state C (state_of t) = Some b" for b
    using checkpoint_loads [OF C that mem] data val by (auto simp del: map_of.simps)
  have new: "found C g v (?r b)" if "enc_state C (state_of t) = Some b" for b
    using found_snapshot [OF disk found b [OF that]] .
  show ?thesis
  proof (cases rule: compact_cases [of C io t])
    case same
    with found show ?thesis by simp
  next
    case renamed
    with new show ?thesis by simp
  next
    case checkpoint
    with new found_sync_dir show ?thesis by simp
  next
    case (emptied b d)
    have "found C g v d" using new [OF emptied(1)] found_sync_dir emptied(2) by simp
    moreover have "snap d = b" "old_snaps d = []" using emptied(2) by (simp_all add: sync_dir_def)
    ultimately have "found C g v (d\<lparr>wal := ([], 0), old_wals := wal d # old_wals d\<rparr>)"
      using b [OF emptied(1)] by (intro found_empty_wal) simp_all
    with found_sync_dir [OF this] emptied(3) show ?thesis by metis
  qed
qed

text \<open>A value that a step leaves in memory stays durable.\<close>

lemma durable_step:
  assumes C: "fs_codec_ok C" and step: "fs_step C s s'" and inv: "fs_inv C s" and keys: "plain_keys s'"
    and found: "found C g v (files s)" and val: "g s = Some v" "g s' = Some v"
  shows "found C g v (files s')"
  using step
proof (cases rule: fs_step_cases)
  case (append io r d t u)
  have "ascii (rec_key r)" using append(4) keys by (auto simp: plain_keys_def)
  moreover have "g u = Some v" using data [OF append(8)] data [OF append(10)] val(2) by simp
  then have "applyWALRecord r x = Inr y \<Longrightarrow> g x = Some v \<Longrightarrow> g y = Some v" for x y
    using sets [OF append(7), of x y] by auto
  ultimately show ?thesis
    unfolding append(1) using append(2-6) inv found
    by (intro found_appendWAL [OF C append(2)]) (simp_all add: fs_inv_def)
next
  case (compact io t)
  have "g t = Some v" using data [OF compact(6)] val(2) by simp
  then show ?thesis
    unfolding compact(1) using compact inv found
    by (intro found_compact [OF C]) (simp_all add: fs_inv_def plain_keys_def)
next
  case idle
  then show ?thesis
    using found found_sync_wal [OF found] inv by (auto simp: fs_inv_def)
qed

text \<open>A record whose append was fsynced makes its value durable.\<close>

lemma durable_written:
  assumes C: "fs_codec_ok C" and r: "ascii (rec_key r)" "known_record r"
    and disk: "disk_ok C (files t)" and opened: "wal_open t \<longrightarrow> old_snaps (files t) = [] \<and> old_wals (files t) = []"
    and res: "appendWAL C io r d t = (None, s')" and now: "d \<or> \<not> lazySync t"
    and writes: "\<And>x y. applyWALRecord r x = Inr y \<Longrightarrow> g y = Some v"
  shows "found C g v (files s')"
proof -
  have "io_write io = None"
    using res by (auto simp: appendWAL_def split: prod.splits option.splits)
  then have io: "io_write io \<in> {None, Some 0}" by simp
  from io show ?thesis
  proof (cases rule: appendWAL_cases [of io C r d t])
    case (fails e s2)
    with res show ?thesis by simp
  next
    case (written b f s2 err)
    let ?c = "fst (wal f) @ b @ [nl]"
    have s': "files s' = (write_wal (b @ [nl]) f)\<lparr>wal := (?c, length ?c)\<rparr>"
      using written(2,5) res now by simp
    have f: "disk_ok C f" "old_snaps f = []" "old_wals f = []"
      using written(3) disk opened disk_ok_sync_dir by (auto simp: sync_dir_def)
    obtain ls where ls: "list_all (good_line C) ls" "fst (wal f) = join_lines ls"
      using f(1) by (auto simp: disk_ok_def good_wal_def)
    note line = encoded_line [OF C written(1) r]
    have loads: "snap_loads C (snap f)" using f(1) by (simp add: disk_ok_def)
    have "applyWALRecord r x = Inr y \<Longrightarrow> g y = Some v" for x y by (rule writes)
    then have "g (apply_line C b x) = Some v" for x
      using known_applies [OF r(2), of x] line(2) by (auto simp: apply_line_def)
    then have val: "g (fold (apply_line C) (ls @ [b]) (snap_store C (snap f))) = Some v" by simp
    show ?thesis
      unfolding found_def
    proof (intro allI impI)
      fix sn wl assume "crash_disk (files s') sn wl"
      then have "sn = snap f" "wl = join_lines (ls @ [b]) @ []"
        using f(2,3) ls(2) unfolding s' by (auto simp: crash_disk_def write_wal_def join_lines_snoc)
      then show "\<exists>st. newFileStore C True sn wl = Inr st \<and> g st = Some v"
        using loaded_value [OF loads, of "ls @ [b]" "[]" v] ls(1) line(1) val by simp
    qed
  qed
qed

end

end
