(* ===== verification/FileStoreProps.thy ===== *)
theory FileStoreProps
  imports FileStoreLaws
begin

text \<open>
  The properties of the store behind Raft.
\<close>

subsection \<open>Starting\<close>

lemma plain_keys_data: "same_data s t \<Longrightarrow> plain_keys s = plain_keys t"
  by (simp add: plain_keys_def same_data_def)

lemma apply_files: "applyWALRecord r s = Inr s' \<Longrightarrow> files s' = files s \<and> wal_open s' = wal_open s"
  by (auto simp: applyWALRecord_def split: if_splits)

lemma apply_logs_ok: "applyWALRecord r s = Inr s' \<Longrightarrow> logs_ok (logs s) \<Longrightarrow> logs_ok (logs s')"
  by (auto simp: applyWALRecord_def logs_ok_puts logs_ok_delete split: if_splits)

lemma replay_files:
  "replay_wal C bs s g = Inr (s', c) \<Longrightarrow> logs_ok (logs s) \<Longrightarrow>
    files s' = files s \<and> wal_open s' = wal_open s \<and> logs_ok (logs s')"
proof (induction C bs s g rule: replay_wal.induct)
  case (1 C bs s g)
  note unfold = replay_wal.simps [of C bs s g]
  show ?case
  proof (cases "index_byte nl bs")
    case None
    with "1.prems" show ?thesis by (simp add: unfold)
  next
    case (Some i)
    let ?body = "trim_space (take (Suc i) bs)"
    consider (blank) "?body = []" | (bad) "?body \<noteq> []" "dec_rec C ?body = None"
      | (rec) r where "?body \<noteq> []" "dec_rec C ?body = Some r" by (cases "dec_rec C ?body") auto
    then show ?thesis
    proof cases
      case blank
      with "1.IH"(1) [OF Some refl refl blank] "1.prems" Some show ?thesis by (simp add: unfold)
    next
      case bad
      with "1.prems" Some show ?thesis by (simp add: unfold split: if_splits)
    next
      case rec
      then obtain s1 where s1: "applyWALRecord r s = Inr s1"
        using "1.prems" Some by (auto simp: unfold split: sum.splits)
      with "1.IH"(2) [OF Some refl refl rec s1] "1.prems" Some rec apply_files [OF s1] apply_logs_ok [OF s1]
      show ?thesis by (simp add: unfold)
    qed
  qed
qed

lemma newFileStore_inv:
  assumes "newFileStore C cuts sn wl = Inr s" "plain_keys s"
  shows "fs_inv C s"
proof -
  let ?d = "\<lparr>snap = sn, old_snaps = [], wal = (wl, length wl), old_wals = []\<rparr>"
  obtain s0 where s0: "loadSnapshot C (empty_store ?d) = Inr s0"
    using assms(1) by (auto simp: newFileStore_def split: sum.splits)
  then have s0': "files s0 = ?d" "\<not> wal_open s0" "logs_ok (logs s0)" "snap_loads C sn"
    by (auto simp: loadSnapshot_def empty_store_def snap_loads_def logs_ok_puts logs_ok_empty
        split: if_splits option.splits)
  obtain s1 c where s1: "replay_wal C wl s0 0 = Inr (s1, c)"
    using assms(1) s0 by (auto simp: newFileStore_def split: sum.splits)
  note same = replay_files [OF s1 s0'(3)]
  obtain ls where ls: "list_all (good_line C) ls"
    "case c of None \<Rightarrow> wl = join_lines ls | Some n \<Rightarrow> n = length (join_lines ls) \<and> take n wl = join_lines ls"
    using replay_loaded [OF s1] by (simp only: add_0_left diff_zero) blast
  have s: "s = recomputeBounds (case c of None \<Rightarrow> s1 | Some n \<Rightarrow> s1\<lparr>files := ?d\<lparr>wal := (take n wl, n)\<rparr>\<rparr>)"
    using assms(1) s0 s1 same s0'(1) by (auto simp: newFileStore_def split: option.splits if_splits)
  have "good_wal C (join_lines ls, length (join_lines ls))" using ls(1) by (auto simp: good_wal_def)
  then have "disk_ok C (files s)"
    using ls(2) s0' same by (cases c) (auto simp: s disk_ok_def)
  then show ?thesis
    using assms(2) s0' same by (cases c) (auto simp: fs_inv_def s)
qed

text \<open>Runs that keep a register's value, and its keys ASCII.\<close>

definition fs_run :: "fs_codec \<Rightarrow> (fileStore \<Rightarrow> bool) \<Rightarrow> fileStore \<Rightarrow> fileStore \<Rightarrow> bool" where
  "fs_run C P = (\<lambda>a b. fs_step C a b \<and> plain_keys b \<and> P b)\<^sup>*\<^sup>*"

lemma fs_run_refl: "fs_run C P s s"
  by (simp add: fs_run_def)

lemma fs_run_inv: "fs_run C P s s' \<Longrightarrow> fs_codec_ok C \<Longrightarrow> fs_inv C s \<Longrightarrow> fs_inv C s'"
  unfolding fs_run_def by (induction rule: rtranclp_induct) (auto intro: fs_step_inv)

context durable_register
begin

lemma found_run:
  assumes "fs_run C (\<lambda>b. g b = Some v) s s'" "fs_codec_ok C" "fs_inv C s" "found C g v (files s)" "g s = Some v"
  shows "found C g v (files s')"
proof -
  have "fs_inv C s' \<and> found C g v (files s') \<and> g s' = Some v"
    using assms(1) unfolding fs_run_def
  proof (induction rule: rtranclp_induct)
    case (step a b)
    then show ?case
      using durable_step [OF assms(2), of a b v] fs_step_inv [OF assms(2), of a b] by blast
  qed (use assms in simp)
  then show ?thesis by blast
qed

end


text \<open>A codec for the examples, which knows two records: term 5, and one log entry.\<close>

definition sample_log :: raft_log where
  "sample_log = \<lparr>log_index = 7, log_term = 5, log_type = 0, log_data = ''x'', log_extensions = [], log_appended_at = 0\<rparr>"

definition sample_fs_codec :: fs_codec where
  "sample_fs_codec =
     \<lparr>enc_rec = (\<lambda>r. if r = u64_record ''CurrentTerm'' 5 then Some ''{t}''
                  else if r = log_record [sample_log] then Some ''{l}'' else None),
      dec_rec = (\<lambda>b. if b = ''{t}'' then Some (u64_record ''CurrentTerm'' 5)
                  else if b = ''{l}'' then Some (log_record [sample_log]) else None),
      enc_state = (\<lambda>_. None), dec_state = (\<lambda>_. None)\<rparr>"

definition good_fs_io :: fs_io where
  "good_fs_io = \<lparr>io_mkdir = True, io_open = True, io_open_syncdir = True, io_write = None, io_sync = True,
     io_snap_open = True, io_snap_write = True, io_snap_sync = True, io_snap_close = True,
     io_snap_rename = True, io_snap_syncdir = True, io_empty_write = True, io_empty_rename = True,
     io_empty_syncdir = True, io_close = True\<rparr>"

definition new_store :: fileStore where
  "new_store = empty_store \<lparr>snap = [], old_snaps = [], wal = ([], 0), old_wals = []\<rparr>"

lemma trim_braces: "trim_space [CHR ''{'', c, CHR ''}'', nl] = [CHR ''{'', c, CHR ''}'']"
proof -
  have "strip_one has_suffix trim_suffix [CHR ''{'', c, CHR ''}'', nl] = [CHR ''{'', c, CHR ''}'']"
    by (simp add: strip_one_def space_seqs_def has_suffix_def trim_suffix_def)
  moreover have "strip_one has_suffix trim_suffix [CHR ''{'', c, CHR ''}''] = [CHR ''{'', c, CHR ''}'']"
    by (simp add: strip_one_def space_seqs_def has_suffix_def)
  ultimately have "trim_right [CHR ''{'', c, CHR ''}'', nl] = [CHR ''{'', c, CHR ''}'']"
    by (simp add: trim_right_def funpow_Suc_right eval_nat_numeral)
  moreover have "trim_left [CHR ''{'', c, CHR ''}'', nl] = [CHR ''{'', c, CHR ''}'', nl]"
    by (rule trim_left_printable) (simp_all add: printable_def)
  ultimately show ?thesis by (simp add: trim_space_def)
qed

lemma sample_fs_codec_ok: "fs_codec_ok sample_fs_codec"
  by (auto simp: fs_codec_ok_def sample_fs_codec_def trim_braces u64_record_def log_record_def empty_record_def)

lemma new_store_loads: "newFileStore C cuts [] [] = Inr new_store"
  by (simp add: newFileStore_def loadSnapshot_def empty_store_def replay_wal.simps recomputeBounds_def new_store_def)

lemma new_store_plain: "plain_keys new_store"
  by (simp add: plain_keys_def new_store_def empty_store_def)

lemma sample_append:
  assumes "enc_rec sample_fs_codec r = Some b"
  shows "appendWAL sample_fs_codec good_fs_io r d (new_store\<lparr>logs := ms, kvInt := ki, lowIndex := lo, highIndex := hi\<rparr>) =
    (None, new_store\<lparr>logs := ms, kvInt := ki, lowIndex := lo, highIndex := hi, wal_open := True, syncs := 1,
       files := \<lparr>snap = [], old_snaps = [], wal = (b @ [nl], length (b @ [nl])), old_wals = []\<rparr>\<rparr>)"
  using assms
  by (simp add: appendWAL_def open_wal_def good_fs_io_def syncWAL_def write_wal_def new_store_def
      empty_store_def sync_dir_def Let_def)




subsection \<open>A write that failed half way\<close>

text \<open>A write that fails may leave a part of its record in the log, and the next record is
  appended right behind it. That record is then acknowledged and fsynced, but it is part of a
  line that cannot be read: opened again, the store drops it, so that a vote is forgotten, and
  once a third record follows the store does not open at all.\<close>

theorem failed_append_loses_vote:
  assumes "fs_inv C s" and "\<not> wal_open s" and "fs_codec_ok C" and "ascii k" and "0 < j" and "j \<le> length b1"
    and "enc_rec C (log_record ls) = Some b1" and "enc_rec C (u64_record k u) = Some b2"
    and "dec_rec C (trim_space ((take j b1 @ b2) @ [nl])) = None" and "trim_space ((take j b1 @ b2) @ [nl]) \<noteq> []"
  defines "s1 \<equiv> snd (StoreLogs C (good_fs_io\<lparr>io_write := Some j\<rparr>) ls s)"
  defines "s2 \<equiv> snd (SetUint64 C good_fs_io k u s1)"
  shows "fst (StoreLogs C (good_fs_io\<lparr>io_write := Some j\<rparr>) ls s) \<noteq> None \<and>
    fst (SetUint64 C good_fs_io k u s1) = None \<and> crash_disk (files s2) (snap (files s2)) (fst (wal (files s2))) \<and>
    (\<exists>st st'. newFileStore C True (snap (files s)) (fst (wal (files s))) = Inr st \<and>
      newFileStore C True (snap (files s2)) (fst (wal (files s2))) = Inr st' \<and> kvInt st' k = kvInt st k) \<and>
    (rest \<noteq> [] \<longrightarrow> newFileStore C True (snap (files s2)) (fst (wal (files s2)) @ rest) =
       Inl (BadRecord (length (fst (wal (files s))))))"
proof -
  let ?f = "sync_dir (files s)" and ?bad = "take j b1 @ b2"
  have line: "nl \<notin> set b1" "nl \<notin> set b2"
    using encoded_line(3) [OF assms(3) assms(7)] encoded_line(3) [OF assms(3) assms(8)] assms(4)
    by (simp_all add: record_facts)
  then have bad: "nl \<notin> set ?bad" by (auto dest: in_set_takeD)
  have io: "io_write (good_fs_io\<lparr>io_write := Some j\<rparr>) = Some j" "io_write good_fs_io = None"
    "io_mkdir good_fs_io" "io_open good_fs_io" "io_open_syncdir good_fs_io" "io_sync good_fs_io"
    by (simp_all add: good_fs_io_def)
  have st1: "StoreLogs C (good_fs_io\<lparr>io_write := Some j\<rparr>) ls s = (Some (SystemCall ''write''), s1)"
    "files s1 = write_wal (take j b1) ?f" "wal_open s1"
    using assms(2,6) unfolding s1_def
    by (simp_all add: StoreLogs_def appendWAL_def open_wal_def io assms(7) flip: log_record_def)
  have st2: "SetUint64 C good_fs_io k u s1 = (None, s2)"
    "fst (wal (files s2)) = fst (wal (files s)) @ ?bad @ [nl]" "snap (files s2) = snap (files s)"
    "snd (wal (files s2)) = length (fst (wal (files s2)))"
    using st1(2,3) unfolding s2_def
    by (simp_all add: SetUint64_def appendWAL_def open_wal_def io assms(8) syncWAL_def write_wal_def Let_def
        sync_dir_def flip: u64_record_def)
  have "disk_ok C (files s)" using assms(1) by (simp add: fs_inv_def)
  then obtain lns where ls: "list_all (good_line C) lns" "fst (wal (files s)) = join_lines lns"
    and loads: "snap_loads C (snap (files s))" by (auto simp: disk_ok_def good_wal_def)
  obtain st where st: "newFileStore C True (snap (files s)) (join_lines lns) = Inr st"
    "same_data (fold (apply_line C) lns (snap_store C (snap (files s)))) st"
    using newFileStore_lines [OF loads ls(1), of "[]"] by auto
  let ?d = "\<lambda>wl. \<lparr>snap = snap (files s), old_snaps = [], wal = (wl, length wl), old_wals = []\<rparr>"
  have replay: "replay_wal C (join_lines lns @ ?bad @ nl # rest) x 0 =
      (if rest = [] then Inr (fold (apply_line C) lns x, Some (length (join_lines lns)))
       else Inl (BadRecord (length (join_lines lns))))" for x rest
  proof -
    have "replay_wal C (join_lines lns @ y) x g = replay_wal C y (fold (apply_line C) lns x) (g + length (join_lines lns))"
      for y x g
      using ls(1)
    proof (induction lns arbitrary: x g)
      case (Cons l lns)
      then show ?case using replay_good_line [of C l "join_lines lns @ y" x g] by (simp add: join_lines_def add.assoc)
    qed (simp add: join_lines_def)
    then show ?thesis using replay_line [OF bad, of C rest] assms(9,10) by simp
  qed
  have open_s2: "newFileStore C True (snap (files s2)) (fst (wal (files s2)) @ rest) =
      (case loadSnapshot C (empty_store (?d (join_lines lns @ ?bad @ nl # rest))) of
         Inl e \<Rightarrow> Inl e
       | Inr x \<Rightarrow>
           if rest = [] then Inr (recomputeBounds ((fold (apply_line C) lns x)\<lparr>files :=
             (files (fold (apply_line C) lns x))\<lparr>wal := (join_lines lns, length (join_lines lns))\<rparr>\<rparr>))
           else Inl (BadRecord (length (join_lines lns))))" for rest
    unfolding st2(2,3) ls(2) newFileStore_def
    using replay [of rest] by (simp split: sum.split)
  have "\<exists>st'. newFileStore C True (snap (files s2)) (fst (wal (files s2))) = Inr st' \<and> kvInt st' k = kvInt st k"
  proof -
    obtain x where x: "loadSnapshot C (empty_store (?d (join_lines lns @ ?bad @ [nl]))) = Inr x"
      "same_data (snap_store C (snap (files s))) x"
      using loadSnapshot_data [of C "?d (join_lines lns @ ?bad @ [nl])"] loads by auto
    have "kvInt (fold (apply_line C) lns x) = kvInt st"
      using same_data_lines [OF x(2), of C lns] st(2) by (simp add: same_data_def)
    then show ?thesis using open_s2 [of "[]"] x(1) by simp
  qed
  moreover have "rest \<noteq> [] \<Longrightarrow> newFileStore C True (snap (files s2)) (fst (wal (files s2)) @ rest) =
      Inl (BadRecord (length (fst (wal (files s)))))"
    using open_s2 [of rest] loadSnapshot_data [of C "?d (join_lines lns @ ?bad @ nl # rest)"] loads ls(2)
    by auto
  moreover have "crash_disk (files s2) (snap (files s2)) (fst (wal (files s2)))"
    using st2(4) by (intro crash_full) simp_all
  ultimately show ?thesis using st1(1) st2(1) st(1) ls(2) by auto
qed

text \<open>Two unreadable records in a row, for a codec that knows only them whole.\<close>

lemma new_store_inv: "fs_inv sample_fs_codec new_store"
  by (rule newFileStore_inv [OF new_store_loads new_store_plain])

theorem failed_append_loses_vote_witness:
  "\<exists>st'. let s1 = snd (StoreLogs sample_fs_codec (good_fs_io\<lparr>io_write := Some 1\<rparr>) [sample_log] new_store);
          s2 = snd (SetUint64 sample_fs_codec good_fs_io ''CurrentTerm'' 5 s1)
      in fst (SetUint64 sample_fs_codec good_fs_io ''CurrentTerm'' 5 s1) = None \<and>
         newFileStore sample_fs_codec True (snap (files s2)) (fst (wal (files s2))) = Inr st' \<and>
         kvInt st' ''CurrentTerm'' = None"
proof -
  have enc: "enc_rec sample_fs_codec (log_record [sample_log]) = Some ''{l}''"
    "enc_rec sample_fs_codec (u64_record ''CurrentTerm'' 5) = Some ''{t}''"
    by (simp_all add: sample_fs_codec_def log_record_def u64_record_def empty_record_def)
  have trim: "trim_space (''{{t}'' @ [nl]) = ''{{t}''"
  proof -
    have "strip_one has_suffix trim_suffix (''{{t}'' @ [nl]) = ''{{t}''"
      by (simp add: strip_one_def space_seqs_def has_suffix_def trim_suffix_def)
    moreover have "strip_one has_suffix trim_suffix ''{{t}'' = ''{{t}''"
      by (simp add: strip_one_def space_seqs_def has_suffix_def)
    ultimately have "trim_right (''{{t}'' @ [nl]) = ''{{t}''"
      by (simp add: trim_right_def funpow_Suc_right eval_nat_numeral)
    moreover have "trim_left (''{{t}'' @ [nl]) = ''{{t}'' @ [nl]"
      by (rule trim_left_printable) (simp_all add: printable_def)
    ultimately show ?thesis by (simp add: trim_space_def)
  qed
  have "newFileStore sample_fs_codec True (snap (files new_store)) (fst (wal (files new_store))) = Inr new_store"
    using new_store_loads by (simp add: new_store_def empty_store_def)
  moreover have "dec_rec sample_fs_codec ''{{t}'' = None" by (simp add: sample_fs_codec_def)
  moreover have "\<not> wal_open new_store" "kvInt new_store = Map.empty" by (simp_all add: new_store_def empty_store_def)
  ultimately show ?thesis
    using failed_append_loses_vote [OF new_store_inv _ sample_fs_codec_ok, of "''CurrentTerm''" 1 "''{l}''" "[sample_log]" 5 "''{t}''" "[]"]
      enc trim by (auto simp: ascii_def Let_def)
qed

subsection \<open>Entries and their bounds\<close>

lemma bounds_steps:
  "fold bounds_step is (low, high) = (low', high') \<Longrightarrow> 0 \<notin> set is \<Longrightarrow> (low = 0 \<longleftrightarrow> high = 0) \<Longrightarrow> low \<le> high \<Longrightarrow>
    (low' = 0 \<longleftrightarrow> low = 0 \<and> is = []) \<and> (high' = 0 \<longleftrightarrow> low = 0 \<and> is = []) \<and> low' \<le> high' \<and>
    (low \<noteq> 0 \<longrightarrow> low' \<le> low \<and> high \<le> high') \<and>
    (\<forall>i \<in> set is. low' \<le> i \<and> i \<le> high') \<and>
    (low' \<in> set is \<or> low' = low) \<and> (high' \<in> set is \<or> high' = high)"
proof (induction "is" arbitrary: low high)
  case (Cons i "is")
  define l h where lh: "l = (if low = 0 \<or> i < low then i else low)" "h = (if high < i then i else high)"
  have i: "i \<noteq> 0" "0 \<notin> set is" using Cons.prems(2) by auto
  have b: "l \<noteq> 0" "h \<noteq> 0" "l \<le> h" "l \<le> i" "i \<le> h" "low \<noteq> 0 \<Longrightarrow> l \<le> low" "high \<le> h"
    "l = i \<or> l = low" "h = i \<or> h = high"
    using Cons.prems(3,4) i by (auto simp: lh not_less)
  have "bounds_step i (low, high) = (l, h)" by (simp add: bounds_step_def lh)
  then have "fold bounds_step is (l, h) = (low', high')"
    using Cons.prems(1) by (simp only: fold_simps)
  from Cons.IH [OF this i(2)] b(1-3)
  have IH: "low' \<noteq> 0" "high' \<noteq> 0" "low' \<le> high'" "low' \<le> l" "h \<le> high'"
    "\<forall>i \<in> set is. low' \<le> i \<and> i \<le> high'" "low' \<in> set is \<or> low' = l" "high' \<in> set is \<or> high' = h"
    by simp_all
  have "low' \<le> i" "i \<le> high'" "low \<noteq> 0 \<Longrightarrow> low' \<le> low" "high \<le> high'"
    using order_trans [OF IH(4)] order_trans [OF _ IH(5)] b(4-7) by blast+
  moreover have "low' \<in> set (i # is) \<or> low' = low" "high' \<in> set (i # is) \<or> high' = high"
    using IH(7,8) b(8,9) by auto
  ultimately show ?case using IH(1-3,6) by simp
qed auto

text \<open>Deleting a range of entries ends for every range, the one that reaches the largest index
  included, and removes exactly the entries in it.\<close>

theorem delete_range_exact:
  "logs (snd (DeleteRange C io mn mx s)) = filter (\<lambda>(i, l). \<not> (mn \<le> i \<and> i \<le> mx)) (logs s)"
  by (simp add: DeleteRange_def compact_memory delete_loop_filter)

text \<open>C39. After entries were stored or deleted the first and last index Raft asks for are those of
  the entries there are, and zero when there are none (Raft numbers entries from one).\<close>

theorem bounds_of_entries:
  assumes "s' = snd (StoreLogs C io ls s) \<or> s' = snd (DeleteRange C io mn mx s)" and "0 \<notin> fst ` set (logs s')"
  shows "if logs s' = [] then FirstIndex s' = 0 \<and> LastIndex s' = 0
    else FirstIndex s' \<in> fst ` set (logs s') \<and> LastIndex s' \<in> fst ` set (logs s') \<and>
      (\<forall>i \<in> fst ` set (logs s'). FirstIndex s' \<le> i \<and> i \<le> LastIndex s')"
proof -
  obtain t where t: "lowIndex s' = lowIndex (recomputeBounds t)" "highIndex s' = highIndex (recomputeBounds t)"
    "logs s' = logs t"
  proof -
    have app: "lowIndex (snd (appendWAL C io r d t)) = lowIndex t \<and> highIndex (snd (appendWAL C io r d t)) = highIndex t"
      for r d t by (simp add: appendWAL_def open_wal_def syncWAL_def Let_def split: option.split)
    have com: "lowIndex (snd (compact C io t)) = lowIndex t \<and> highIndex (snd (compact C io t)) = highIndex t"
      for t by (simp add: compact_def persistSnapshot_def Let_def split: option.split)
    show thesis
      using assms(1)
    proof
      assume "s' = snd (StoreLogs C io ls s)"
      then show thesis
        by (intro that [of "s\<lparr>logs := fold put_log ls (logs s)\<rparr>"])
          (simp_all add: StoreLogs_def appendWAL_memory app)
    next
      assume "s' = snd (DeleteRange C io mn mx s)"
      then show thesis
        by (intro that [of "s\<lparr>logs := delete_loop mn mx (logs s)\<rparr>"])
          (simp_all add: DeleteRange_def compact_memory com)
    qed
  qed
  obtain low high where b: "fold bounds_step (map fst (logs t)) (0, 0) = (low, high)" by fastforce
  have "FirstIndex s' = low" "LastIndex s' = high"
    using t b by (simp_all add: FirstIndex_def LastIndex_def recomputeBounds_def)
  moreover have "0 \<notin> set (map fst (logs t))" using assms(2) t(3) by simp
  ultimately show ?thesis
    using bounds_steps [OF b] t(3) by auto
qed

theorem bounds_of_entries_witness:
  "LastIndex (snd (StoreLogs sample_fs_codec good_fs_io [sample_log] new_store)) = 7"
proof -
  have logs: "logs (snd (StoreLogs sample_fs_codec good_fs_io [sample_log] new_store)) = [(7, sample_log)]"
    by (simp add: StoreLogs_def appendWAL_memory put_log_def sample_log_def new_store_def empty_store_def)
  show ?thesis
    using bounds_of_entries [OF disjI1 [OF refl], of sample_fs_codec good_fs_io "[sample_log]" new_store]
    by (simp add: logs)
qed

end
