(* ===== verification/Wire.thy ===== *)
theory Wire
  imports Prelude
begin

text \<open>
  \<open>internal/wire/wire.go\<close>: frames with a uvarint length, which the peer protocol and the
  forwarding protocol exchange, and the listener that splits connections by their first
  byte. A connection is a number; its stream is a list of bytes that ends where the peer
  closed it.
\<close>

subsection \<open>Codes\<close>

text \<open>
  What every protocol here relies on: a value that was written is read back, as what the other
  side sees of it, with exactly what follows it left over; and so is a sequence of them.
\<close>

locale prefix_code =
  fixes put :: "'a \<Rightarrow> bytes"
    and get :: "bytes \<Rightarrow> 'e + 'b \<times> bytes"
    and seen :: "'a \<Rightarrow> 'b"
    and fits :: "'a \<Rightarrow> bool"
  assumes get_put: "fits x \<Longrightarrow> get (put x @ rest) = Inr (seen x, rest)"
begin

lemma unambiguous:
  assumes "fits x" "fits y" "put x @ r = put y @ s"
  shows "seen x = seen y \<and> r = s"
  using get_put [OF assms(1), of r] get_put [OF assms(2), of s] assms(3) by simp

end

locale sequence_code = prefix_code put get seen fits
  for put :: "'a \<Rightarrow> bytes" and get :: "bytes \<Rightarrow> 'e + 'b \<times> bytes" and seen :: "'a \<Rightarrow> 'b" and fits :: "'a \<Rightarrow> bool" +
  fixes gets :: "nat \<Rightarrow> bytes \<Rightarrow> 'e + 'b list \<times> bytes"
  assumes gets_none: "gets 0 r = Inr ([], r)"
    and gets_next: "get r = Inr (x, r') \<Longrightarrow> gets n r' = Inr (xs, rest) \<Longrightarrow> gets (Suc n) r = Inr (x # xs, rest)"
begin

lemma gets_put:
  "list_all fits xs \<Longrightarrow> gets (length xs) (concat (map put xs) @ rest) = Inr (map seen xs, rest)"
  by (induction xs) (auto simp: gets_none intro: gets_next get_put)

end

subsection \<open>Unsigned varints\<close>

text \<open>
  \<open>binary.PutUvarint\<close> and \<open>binary.ReadUvarint\<close> of Go's standard library, on the numbers
  below \<open>2 ^ 64\<close>. A ten-byte group with a last byte above 1, or an eleventh byte, is an
  overflow; up to there no shift leaves 64 bits.
\<close>

function put_uvarint :: "nat \<Rightarrow> bytes" where
  "put_uvarint x =
     (if x < 0x80 then [char_of x] else char_of (x mod 0x80 + 0x80) # put_uvarint (x div 0x80))"
  by pat_completeness auto
termination by (relation "measure id") auto

declare put_uvarint.simps [simp del]

datatype read_error = EOF | UnexpectedEOF | Overflow | OverLimit nat

fun read_uvarint :: "nat \<Rightarrow> nat \<Rightarrow> bytes \<Rightarrow> read_error + nat \<times> bytes" where
  "read_uvarint i x [] = Inl (if i = 0 then EOF else UnexpectedEOF)"
| "read_uvarint i x (c # cs) =
     (let b = of_char c in
      if 10 \<le> i then Inl Overflow
      else if b < 0x80 then
        (if i = 9 \<and> 1 < b then Inl Overflow else Inr (x + b * 2 ^ (7 * i), cs))
      else if i = 9 then Inl Overflow
      else read_uvarint (Suc i) (x + (b - 0x80) * 2 ^ (7 * i)) cs)"

subsection \<open>Frames\<close>

definition WriteFrame :: "bytes \<Rightarrow> bytes" where
  "WriteFrame b = put_uvarint (length b) @ b"

text \<open>The frame and what follows it. The limit is checked before the bytes are read.\<close>

definition ReadFrame :: "nat \<Rightarrow> bytes \<Rightarrow> read_error + bytes \<times> bytes" where
  "ReadFrame limit r =
     (case read_uvarint 0 0 r of
        Inl e \<Rightarrow> Inl e
      | Inr (n, r') \<Rightarrow>
          if limit < n then Inl (OverLimit n)
          else if n \<le> length r' then Inr (take n r', drop n r')
          else Inl (if r' = [] then EOF else UnexpectedEOF))"

lemma char_of_small: "n < 256 \<Longrightarrow> of_char (char_of n) = (n::nat)"
  by simp

lemma read_put_uvarint:
  "x < 2 ^ (64 - 7 * i) \<Longrightarrow> i \<le> 9 \<Longrightarrow>
    read_uvarint i y (put_uvarint x @ rest) = Inr (y + x * 2 ^ (7 * i), rest)"
proof (induction x arbitrary: i y rule: put_uvarint.induct)
  case (1 x)
  show ?case
  proof (cases "x < 0x80")
    case True
    have "i = 9 \<Longrightarrow> x < 2" using 1(2) by simp
    with True 1(3) show ?thesis
      by (auto simp: put_uvarint.simps [of x] Let_def char_of_small)
  next
    case False
    have i: "i < 9"
    proof (rule ccontr)
      assume "\<not> i < 9"
      with 1(2,3) have "x < 2" by (simp add: le_less_Suc_eq)
      with False show False by simp
    qed
    then have "(64 - 7 * i) = 7 + (64 - 7 * Suc i)" by simp
    with 1(2) have "x < 2 ^ 7 * 2 ^ (64 - 7 * Suc i)" by (metis power_add)
    then have small: "x div 0x80 < 2 ^ (64 - 7 * Suc i)"
      by (simp add: div_less_iff_less_mult mult.commute)
    have "x mod 0x80 + 0x80 < 256"
    proof -
      have "x mod 0x80 < 0x80" by simp
      then show ?thesis by linarith
    qed
    then have "read_uvarint i y (put_uvarint x @ rest) =
        read_uvarint (Suc i) (y + x mod 0x80 * 2 ^ (7 * i)) (put_uvarint (x div 0x80) @ rest)"
      using False i by (simp add: put_uvarint.simps [of x] Let_def char_of_small del: of_char_of)
    also have "\<dots> = Inr (y + x mod 0x80 * 2 ^ (7 * i) + x div 0x80 * 2 ^ (7 * Suc i), rest)"
      using 1(1) [OF False small] i by simp
    also have "y + x mod 0x80 * 2 ^ (7 * i) + x div 0x80 * 2 ^ (7 * Suc i) = y + x * 2 ^ (7 * i)"
    proof -
      have dist: "(a * 0x80 + r) * p = a * (0x80 * p) + r * p" for a r p :: nat
        by (simp add: algebra_simps)
      have "x * 2 ^ (7 * i) = x div 0x80 * 2 ^ (7 * Suc i) + x mod 0x80 * 2 ^ (7 * i)"
        using dist [of "x div 0x80" "x mod 0x80" "2 ^ (7 * i)"] by (simp add: power_add)
      then show ?thesis by simp
    qed
    finally show ?thesis .
  qed
qed

interpretation uvarint: prefix_code put_uvarint "read_uvarint 0 0" "\<lambda>n. n" "\<lambda>n. n < 2 ^ 64"
  by unfold_locales (use read_put_uvarint [of _ 0 0] in simp)

text \<open>A frame that was written is read back with exactly what follows it left over; a frame
  over the reader's limit is refused by its length, before its bytes are read.\<close>

theorem read_write_frame:
  "length b < 2 ^ 64 \<Longrightarrow>
    ReadFrame limit (WriteFrame b @ rest) =
      (if length b \<le> limit then Inr (b, rest) else Inl (OverLimit (length b)))"
  using uvarint.get_put [of "length b" "b @ rest"] by (simp add: ReadFrame_def WriteFrame_def)

theorem read_write_frame_witness: "ReadFrame 3 (WriteFrame ''abc'' @ ''xy'') = Inr (''abc'', ''xy'')"
  using read_write_frame [of "''abc''" 3 "''xy''"] by simp

lemma frame_written:
  "length b \<le> limit \<Longrightarrow> limit < 2 ^ 63 \<Longrightarrow> ReadFrame limit (WriteFrame b @ rest) = Inr (b, rest)"
  using uvarint.get_put [of "length b" "b @ rest"] by (simp add: ReadFrame_def WriteFrame_def)

text \<open>A varint cut short is an error.\<close>

lemma put_uvarint_prefix:
  "n < length (put_uvarint x) \<Longrightarrow> i + n \<le> 9 \<Longrightarrow>
    \<exists>e. read_uvarint i y (take n (put_uvarint x)) = Inl e"
proof (induction x arbitrary: i y n rule: put_uvarint.induct)
  case (1 x)
  show ?case
  proof (cases "x < 0x80")
    case True
    with 1(2) show ?thesis by (simp add: put_uvarint.simps [of x])
  next
    case False
    show ?thesis
    proof (cases n)
      case 0
      then show ?thesis by simp
    next
      case (Suc m)
      have "m < length (put_uvarint (x div 0x80))"
        using 1(2) False Suc by (simp add: put_uvarint.simps [of x])
      then have "\<exists>e. read_uvarint (Suc i) z (take m (put_uvarint (x div 0x80))) = Inl e" for z
        using 1(1) [OF False] 1(3) Suc by simp
      moreover have "x mod 0x80 + 0x80 < 256"
      proof -
        have "x mod 0x80 < 0x80" by simp
        then show ?thesis by linarith
      qed
      ultimately show ?thesis
        using False Suc 1(3) by (simp add: put_uvarint.simps [of x] Let_def char_of_small del: of_char_of)
    qed
  qed
qed

lemma put_uvarint_length: "x < 2 ^ (7 * k) \<Longrightarrow> 0 < k \<Longrightarrow> length (put_uvarint x) \<le> k"
proof (induction x arbitrary: k rule: put_uvarint.induct)
  case (1 x)
  show ?case
  proof (cases "x < 0x80")
    case True
    with 1(3) show ?thesis by (simp add: put_uvarint.simps [of x])
  next
    case False
    have "k \<noteq> 1" using 1(2) False by auto
    with 1(3) obtain j where k: "k = Suc j" "0 < j" by (cases k) auto
    have "x < 2 ^ (7 * j) * 2 ^ 7" using 1(2) k by (simp add: power_add mult.commute)
    then have "x div 0x80 < 2 ^ (7 * j)" by (simp add: div_less_iff_less_mult)
    with 1(1) [OF False _ k(2)] have "length (put_uvarint (x div 0x80)) \<le> j" .
    with False k show ?thesis by (simp add: put_uvarint.simps [of x])
  qed
qed

text \<open>A truncated frame is an error wherever it was cut, never a shorter frame.\<close>

theorem truncated_frame:
  assumes "n < length (WriteFrame b)" and "length b < 2 ^ 63"
  shows "\<exists>e. ReadFrame limit (take n (WriteFrame b)) = Inl e"
proof (cases "n < length (put_uvarint (length b))")
  case True
  have "length (put_uvarint (length b)) \<le> 9"
    using put_uvarint_length [of "length b" 9] assms(2) by simp
  with True have "\<exists>e. read_uvarint 0 0 (take n (put_uvarint (length b))) = Inl e"
    by (intro put_uvarint_prefix) simp_all
  with True show ?thesis by (auto simp: ReadFrame_def WriteFrame_def)
next
  case False
  then have "take n (WriteFrame b) = put_uvarint (length b) @ take (n - length (put_uvarint (length b))) b"
    by (simp add: WriteFrame_def)
  moreover have "n - length (put_uvarint (length b)) < length b"
    using assms(1) False by (simp add: WriteFrame_def)
  moreover have "length b < 2 ^ (64 - 7 * 0)" using assms(2) by simp
  ultimately show ?thesis
    using read_put_uvarint [of "length b" 0 0] by (auto simp: ReadFrame_def)
qed

theorem truncated_frame_witness: "\<exists>e. ReadFrame 9 (take 2 (WriteFrame ''abc'')) = Inl e"
proof (rule truncated_frame)
  show "2 < length (WriteFrame ''abc'')" by (simp add: WriteFrame_def put_uvarint.simps)
qed simp

subsection \<open>The splitting listener\<close>

text \<open>
  \<open>waiting\<close> are the connections whose goroutine waits to hand them to \<open>Accept\<close>;
  \<open>shut\<close> the connections that have been closed. \<open>Close\<close> marks the listener closed under
  the mutex, then closes the handled connections under it again; \<open>swept\<close> says the second
  part is done.
\<close>

record mux =
  has_handler :: bool
  handled_conns :: "nat list"
  mux_closed :: bool
  swept :: bool
  waiting :: "nat list"
  shut :: "nat list"

definition NewMux :: mux where
  "NewMux = \<lparr>has_handler = False, handled_conns = [], mux_closed = False, swept = False,
     waiting = [], shut = []\<rparr>"

definition SetHandler :: "mux \<Rightarrow> mux" where
  "SetHandler m = m\<lparr>has_handler := True\<rparr>"

text \<open>\<open>route\<close> once the first byte has been read; \<open>None\<close> when it could not be.\<close>

definition route :: "(char \<Rightarrow> bool) \<Rightarrow> char option \<Rightarrow> nat \<Rightarrow> mux \<Rightarrow> mux" where
  "route matches first c m =
     (case first of
        None \<Rightarrow> m\<lparr>shut := c # shut m\<rparr>
      | Some b \<Rightarrow>
          if \<not> matches b then m\<lparr>waiting := waiting m @ [c]\<rparr>
          else if \<not> has_handler m \<or> mux_closed m then m\<lparr>shut := c # shut m\<rparr>
          else m\<lparr>handled_conns := c # handled_conns m\<rparr>)"

text \<open>The deferred function of \<open>route\<close>, when the handler returns.\<close>

definition handler_done :: "nat \<Rightarrow> mux \<Rightarrow> mux" where
  "handler_done c m = m\<lparr>handled_conns := removeAll c (handled_conns m), shut := c # shut m\<rparr>"

text \<open>A waiting goroutine finds the listener closed; \<open>Accept\<close> takes a waiting connection.\<close>

definition drop_waiting :: "nat \<Rightarrow> mux \<Rightarrow> mux" where
  "drop_waiting c m =
     (if mux_closed m \<and> c \<in> set (waiting m)
      then m\<lparr>waiting := remove1 c (waiting m), shut := c # shut m\<rparr> else m)"

definition Accept :: "nat \<Rightarrow> mux \<Rightarrow> nat option \<times> mux" where
  "Accept c m =
     (if c \<in> set (waiting m) then (Some c, m\<lparr>waiting := remove1 c (waiting m)\<rparr>) else (None, m))"

definition Close_mark :: "mux \<Rightarrow> mux" where
  "Close_mark m = m\<lparr>mux_closed := True\<rparr>"

definition CloseHandled :: "mux \<Rightarrow> mux" where
  "CloseHandled m =
     m\<lparr>shut := handled_conns m @ shut m, swept := swept m \<or> mux_closed m\<rparr>"

inductive mux_step :: "(char \<Rightarrow> bool) \<Rightarrow> mux \<Rightarrow> mux \<Rightarrow> bool" for matches where
  "mux_step matches m (SetHandler m)"
| "mux_step matches m (route matches first c m)"
| "mux_step matches m (handler_done c m)"
| "mux_step matches m (drop_waiting c m)"
| "mux_step matches m (snd (Accept c m))"
| "mux_step matches m (Close_mark m)"
| "mux_step matches m (CloseHandled m)"

text \<open>Once \<open>Close\<close> has swept, no connection is handled that has not been closed.\<close>

definition mux_ok :: "mux \<Rightarrow> bool" where
  "mux_ok m \<longleftrightarrow>
     (swept m \<longrightarrow> mux_closed m \<and> set (handled_conns m) \<subseteq> set (shut m)) \<and>
     (handled_conns m \<noteq> [] \<longrightarrow> has_handler m)"

lemma mux_ok_init: "mux_ok NewMux"
  by (simp add: mux_ok_def NewMux_def)

lemma mux_ok_step: "mux_step matches m m' \<Longrightarrow> mux_ok m \<Longrightarrow> mux_ok m'"
  by (induction rule: mux_step.induct)
    (auto simp: mux_ok_def SetHandler_def route_def handler_done_def drop_waiting_def Accept_def
      Close_mark_def CloseHandled_def split: option.split)

inductive mux_reachable :: "(char \<Rightarrow> bool) \<Rightarrow> mux \<Rightarrow> bool" for matches where
  start: "mux_reachable matches NewMux"
| step: "mux_reachable matches m \<Longrightarrow> mux_step matches m m' \<Longrightarrow> mux_reachable matches m'"

text \<open>C38. However connections arrive and handlers return around a \<open>Close\<close>, once it has swept
  every connection still being handled has been closed: none slips in between the mark and the
  sweep, and none is handed to a handler that was never set.\<close>

theorem close_reaches_every_connection:
  assumes "mux_reachable matches m"
  shows "(swept m \<longrightarrow> mux_closed m \<and> set (handled_conns m) \<subseteq> set (shut m)) \<and>
    (handled_conns m \<noteq> [] \<longrightarrow> has_handler m)"
proof -
  have "mux_ok m"
    using assms by (induction rule: mux_reachable.induct) (auto intro: mux_ok_init mux_ok_step)
  then show ?thesis by (simp add: mux_ok_def)
qed

theorem close_reaches_every_connection_witness:
  "let m = CloseHandled (Close_mark (route (\<lambda>c. c = CHR ''P'') (Some (CHR ''P'')) 7 (SetHandler NewMux)))
   in swept m \<and> handled_conns m = [7] \<and> 7 \<in> set (shut m)"
proof -
  let ?f = "\<lambda>c. c = CHR ''P''"
  let ?m = "CloseHandled (Close_mark (route ?f (Some (CHR ''P'')) 7 (SetHandler NewMux)))"
  have "mux_reachable ?f ?m"
    by (rule mux_reachable.step [OF mux_reachable.step [OF mux_reachable.step
        [OF mux_reachable.step [OF mux_reachable.start]]]]) (rule mux_step.intros)+
  from close_reaches_every_connection [OF this] show ?thesis
    by (simp add: CloseHandled_def Close_mark_def route_def SetHandler_def NewMux_def)
qed

end
