(* ===== verification/Cluster.thy ===== *)
theory Cluster
  imports StoreLaws Wire "HOL-Library.AList"
begin

text \<open>
  \<open>internal/cluster/cluster.go\<close>: how a client's write is applied, on this node alone, through
  Raft, or by the leader it is forwarded to; the state machine Raft applies entries to; and how a
  manager is started. The connections to the leader come from \<open>internal/cluster/forward.go\<close>, which
  this theory holds too, because the two call each other.
\<close>

subsection \<open>Commands and errors\<close>

record command =
  cOp :: bytes
  cKey :: bytes
  cValue :: go_value
  cFromKey :: bytes
  cToKey :: bytes

definition no_command :: command where
  "no_command = \<lparr>cOp = [], cKey = [], cValue = GNil, cFromKey = [], cToKey = []\<rparr>"

datatype net_error = NetEOF | NetReset | NetPipe | NetTimeout | NetOther bytes

text \<open>
  What a write can end with. \<open>LeaderSaid\<close> is the text of an error of the leader, \<open>RaftError\<close>
  an error of Raft's future; \<open>NotLeader\<close> holds the leader's HTTP address.
\<close>

datatype cluster_error =
    DbError db_error
  | UnknownOp bytes
  | NotLeader bytes
  | DecodeFailed bytes
  | EncodeFailed
  | RaftError bytes
  | ForwardUnsupported
  | NetFailed net_error
  | FrameFailed read_error
  | UnknownReply char
  | LeaderSaid bytes
  | LeaderHTTP int bytes
  | BadRequest bytes

text \<open>
  goccy/go-json on commands and values, and the text of an error. A call of \<open>Decode\<close> on a
  command yields it and the rest of the input, or an error, the end of the input being one.
\<close>

datatype decoded_command = CmdOk command bytes | CmdErr bytes

record cluster_libs =
  jsonCommand :: "command \<Rightarrow> bytes option"
  jsonDecodeCommand :: "bytes \<Rightarrow> decoded_command"
  jsonValue :: "go_value \<Rightarrow> bytes option"
  jsonLeader :: "bytes \<Rightarrow> bytes option"
  errText :: "cluster_error \<Rightarrow> bytes"

definition decodeCommand :: "libs \<Rightarrow> cluster_libs \<Rightarrow> bytes \<Rightarrow> cluster_error + command" where
  "decodeCommand L K raw =
     (case jsonDecodeCommand K raw of
        CmdErr e \<Rightarrow> Inl (DecodeFailed e)
      | CmdOk c rest \<Rightarrow>
          (case goDecode L rest of
             DecEOF \<Rightarrow> Inr c
           | DecOk _ _ \<Rightarrow> Inl (DecodeFailed ''extra data after JSON value'')
           | DecErr e \<Rightarrow> Inl (DecodeFailed e)))"

text \<open>The package has a copy of the store's \<open>decodeJSON\<close>.\<close>

definition decodeValue :: "libs \<Rightarrow> bytes \<Rightarrow> bytes + json_any" where
  "decodeValue L raw =
     (case goDecode L raw of
        DecErr e \<Rightarrow> Inl e
      | DecEOF \<Rightarrow> Inl ''EOF''
      | DecOk v rest \<Rightarrow>
          (case goDecode L rest of
             DecEOF \<Rightarrow> Inr v
           | DecOk _ _ \<Rightarrow> Inl ''extra data after JSON value''
           | DecErr e \<Rightarrow> Inl e))"

subsection \<open>The state machine\<close>

definition db_result :: "db_error option \<times> store \<Rightarrow> cluster_error option \<times> store" where
  "db_result r = map_prod (map_option DbError) id r"

definition applyLocal :: "libs \<Rightarrow> command \<Rightarrow> store \<Rightarrow> cluster_error option \<times> store" where
  "applyLocal L c st =
     (if cOp c = ''set'' then db_result (Set L (cKey c) (cValue c) st)
      else if cOp c = ''del'' then db_result (Del (cKey c) st)
      else if cOp c = ''clone'' then db_result (Clone L (cFromKey c) (cToKey c) st)
      else if cOp c = ''vacuum'' then (None, Vacuum st)
      else (Some (UnknownOp (cOp c)), st))"

text \<open>\<open>fsm.Apply\<close>, whose first part is the response Raft keeps in the future.\<close>

definition fsm_Apply :: "libs \<Rightarrow> cluster_libs \<Rightarrow> bytes \<Rightarrow> store \<Rightarrow> cluster_error option \<times> store" where
  "fsm_Apply L K b st =
     (case decodeCommand L K b of
        Inl e \<Rightarrow> (Some e, st)
      | Inr c \<Rightarrow> applyLocal L c st)"

definition fsm_Snapshot :: "libs \<Rightarrow> store \<Rightarrow> bytes \<times> store" where
  "fsm_Snapshot L st = Get L [] st"

definition fsm_Restore :: "libs \<Rightarrow> bytes \<Rightarrow> store \<Rightarrow> db_error option \<times> store" where
  "fsm_Restore L buf st = Replace L buf st"

text \<open>
  \<open>snapshot.Persist\<close>: a sink is what was written to it and whether it was closed or cancelled.
  \<open>failing\<close> is the number of bytes written by a write that fails, \<open>close_ok\<close> answers \<open>Close\<close>.
\<close>

record snapshot_sink =
  sink_data :: bytes
  sink_closed :: bool
  sink_cancelled :: bool

definition snapshot_Persist :: "nat option \<Rightarrow> bool \<Rightarrow> bytes \<Rightarrow> snapshot_sink \<Rightarrow> bool \<times> snapshot_sink" where
  "snapshot_Persist failing close_ok state sink =
     (case failing of
        Some n \<Rightarrow> (False, sink\<lparr>sink_data := sink_data sink @ take n state, sink_cancelled := True\<rparr>)
      | None \<Rightarrow> (close_ok, sink\<lparr>sink_data := sink_data sink @ state, sink_closed := True\<rparr>))"

text \<open>A snapshot that was persisted is whole; one that was cut off is cancelled.\<close>

lemma persisted_snapshot:
  assumes "snapshot_Persist failing close_ok state \<lparr>sink_data = [], sink_closed = False, sink_cancelled = False\<rparr> = (ok, sink)"
  shows "(ok \<longrightarrow> sink_data sink = state \<and> sink_closed sink \<and> \<not> sink_cancelled sink) \<and>
    (sink_closed sink \<longrightarrow> sink_data sink = state)"
  using assms by (auto simp: snapshot_Persist_def split: option.splits)

subsection \<open>Raft\<close>

text \<open>
  What the hashicorp/raft library answers during one call: the node's state, the leader's
  address and ID at each question, the error of the future of \<open>Apply\<close>, and what the state
  machine did with other entries meanwhile. When the future has no error, the entry has been
  committed and this node's state machine has applied it; its response is in the future, but
  \<open>apply\<close> asks for the error only.
\<close>

datatype raft_state = Follower | Candidate | Leader | Shutdown

record raft_lib =
  raftState :: raft_state
  leaderWithID :: "nat \<Rightarrow> bytes \<times> bytes"
  futureError :: "bytes \<Rightarrow> bytes option"
  otherEntries :: "store \<Rightarrow> store"

definition raft_Apply :: "libs \<Rightarrow> cluster_libs \<Rightarrow> raft_lib \<Rightarrow> bytes \<Rightarrow> store \<Rightarrow> cluster_error option \<times> store" where
  "raft_Apply L K R b st =
     (case futureError R b of
        Some e \<Rightarrow> (Some (RaftError e), otherEntries R st)
      | None \<Rightarrow> (None, snd (fsm_Apply L K b (otherEntries R st))))"

subsection \<open>Connections to the leader\<close>

text \<open>
  \<open>forwardPool\<close>, with connections as numbers. \<open>shut\<close> collects the connections the code has
  closed. Times are in nanoseconds; an address that was never marked is not before any time.
\<close>

record forwardPool =
  idle :: "(bytes \<times> nat list) list"
  unsupported :: "bytes \<rightharpoonup> int"
  pool_closed :: bool
  shut :: "nat list"

definition new_pool :: forwardPool where
  "new_pool = \<lparr>idle = [], unsupported = Map.empty, pool_closed = False, shut = []\<rparr>"

definition retryUnsupported :: int where "retryUnsupported = 30 * 10 ^ 9"
definition maxIdleForward :: nat where "maxIdleForward = 4"
definition maxForwardFrame :: nat where "maxForwardFrame = 64 * 2 ^ 20"

definition isUnsupported :: "int \<Rightarrow> bytes \<Rightarrow> forwardPool \<Rightarrow> bool" where
  "isUnsupported now addr p = (case unsupported p addr of None \<Rightarrow> False | Some t \<Rightarrow> now < t)"

definition markUnsupported :: "int \<Rightarrow> bytes \<Rightarrow> forwardPool \<Rightarrow> forwardPool" where
  "markUnsupported now addr p = p\<lparr>unsupported := (unsupported p)(addr \<mapsto> now + retryUnsupported)\<rparr>"

definition idle_at :: "bytes \<Rightarrow> forwardPool \<Rightarrow> nat list" where
  "idle_at addr p = (case map_of (idle p) addr of None \<Rightarrow> [] | Some cs \<Rightarrow> cs)"

definition close_conn :: "nat \<Rightarrow> forwardPool \<Rightarrow> forwardPool" where
  "close_conn fc p = p\<lparr>shut := shut p @ [fc]\<rparr>"

definition pool_get :: "bytes \<Rightarrow> forwardPool \<Rightarrow> nat option \<times> forwardPool" where
  "pool_get addr p =
     (let cs = idle_at addr p in
      if cs = [] then (None, p)
      else (Some (last cs), p\<lparr>idle := AList.update addr (butlast cs) (idle p)\<rparr>))"

definition pool_put :: "bytes \<Rightarrow> nat \<Rightarrow> forwardPool \<Rightarrow> forwardPool" where
  "pool_put addr fc p =
     (if pool_closed p \<or> maxIdleForward \<le> length (idle_at addr p) then close_conn fc p
      else p\<lparr>idle := AList.update addr (idle_at addr p @ [fc]) (idle p)\<rparr>)"

definition pool_close :: "forwardPool \<Rightarrow> forwardPool" where
  "pool_close p = p\<lparr>pool_closed := True, shut := shut p @ concat (map snd (idle p)), idle := []\<rparr>"

text \<open>
  One exchange on a connection: whether sending failed, the bytes that came back before the
  stream ended or the deadline passed, and what ended it.
\<close>

record conn_io =
  write_error :: "net_error option"
  arrived :: bytes
  ended :: net_error

abbreviation forwardOK :: char where "forwardOK \<equiv> CHR 0x00"
abbreviation forwardNotLeader :: char where "forwardNotLeader \<equiv> CHR 0x01"
abbreviation forwardError :: char where "forwardError \<equiv> CHR 0x02"
abbreviation forwardByte :: char where "forwardByte \<equiv> CHR ''F''"

definition frame_failure :: "net_error \<Rightarrow> read_error \<Rightarrow> cluster_error" where
  "frame_failure en e = (if e \<in> {EOF, UnexpectedEOF} \<and> en \<noteq> NetEOF then NetFailed en else FrameFailed e)"

text \<open>Whether a whole reply came back, and the error.\<close>

definition roundTrip :: "conn_io \<Rightarrow> bool \<times> cluster_error option" where
  "roundTrip x =
     (case write_error x of
        Some e \<Rightarrow> (False, Some (NetFailed e))
      | None \<Rightarrow>
          (case arrived x of
             [] \<Rightarrow> (False, Some (NetFailed (ended x)))
           | status # r \<Rightarrow>
               (case ReadFrame maxForwardFrame r of
                  Inl e \<Rightarrow> (False, Some (frame_failure (ended x) e))
                | Inr (msg, _) \<Rightarrow>
                    if status = forwardOK then (True, None)
                    else if status = forwardNotLeader then (True, Some (NotLeader msg))
                    else if status = forwardError then (True, Some (LeaderSaid msg))
                    else (False, Some (UnknownReply status)))))"

definition isConnReset :: "cluster_error \<Rightarrow> bool" where
  "isConnReset e \<longleftrightarrow> e \<in> {NetFailed NetReset, NetFailed NetPipe}"

definition dropped_by_peer :: "cluster_error \<Rightarrow> bool" where
  "dropped_by_peer e \<longleftrightarrow>
     e \<in> {NetFailed NetEOF, FrameFailed EOF, FrameFailed UnexpectedEOF} \<or> isConnReset e"

text \<open>
  The network during one \<open>forwardTCP\<close>: the clock at its two questions, the connection that
  dialling gives, what becomes of a request on a connection, and what other writers did to the
  pool while this one waited for an answer.
\<close>

record network =
  now_before :: int
  now_after :: int
  dial :: "net_error + nat"
  exchange :: "nat \<Rightarrow> bytes \<Rightarrow> conn_io"
  meanwhile :: "nat \<Rightarrow> forwardPool \<Rightarrow> forwardPool"

definition forward_dialled :: "network \<Rightarrow> bytes \<Rightarrow> bytes \<Rightarrow> forwardPool \<Rightarrow> cluster_error option \<times> forwardPool" where
  "forward_dialled N addr req p =
     (case dial N of
        Inl e \<Rightarrow> (Some (NetFailed e), p)
      | Inr fc \<Rightarrow>
          (case roundTrip (exchange N fc req) of
             (sent, err) \<Rightarrow>
               let p1 = meanwhile N 1 p in
               if sent then (err, pool_put addr fc p1)
               else
                 (let p2 = close_conn fc p1 in
                  case err of
                    None \<Rightarrow> (None, p2)
                  | Some e \<Rightarrow>
                      if dropped_by_peer e then (Some ForwardUnsupported, markUnsupported (now_after N) addr p2)
                      else (Some e, p2))))"

definition forwardTCP :: "network \<Rightarrow> bytes \<Rightarrow> bytes \<Rightarrow> forwardPool \<Rightarrow> cluster_error option \<times> forwardPool" where
  "forwardTCP N addr req p =
     (if isUnsupported (now_before N) addr p then (Some ForwardUnsupported, p)
      else
        (case pool_get addr p of
           (None, p1) \<Rightarrow> forward_dialled N addr req p1
         | (Some fc, p1) \<Rightarrow>
             (case roundTrip (exchange N fc req) of
                (sent, err) \<Rightarrow>
                  let p2 = meanwhile N 0 p1 in
                  if sent then (err, pool_put addr fc p2)
                  else forward_dialled N addr req (close_conn fc p2))))"

end
