(* ===== verification/Manager.thy ===== *)
theory Manager
  imports Cluster
begin

text \<open>
  The manager of \<open>internal/cluster/cluster.go\<close> and its side of \<open>internal/cluster/forward.go\<close>:
  which way a write takes, the leader's address, serving forwarded writes, starting and stopping.
\<close>

subsection \<open>State\<close>

record manager =
  enabled :: bool
  forward :: bool
  has_raft :: bool
  nodeID :: bytes
  raftAddr :: bytes
  httpAddr :: bytes
  idToHTTP :: "bytes \<rightharpoonup> bytes"
  raftToHTTP :: "bytes \<rightharpoonup> bytes"
  fwd :: forwardPool

text \<open>What the write hook is given.\<close>

record write_msg =
  wOp :: bytes
  wKey :: bytes
  wRaw :: bytes
  wFromKey :: bytes
  wToKey :: bytes

definition no_write :: write_msg where
  "no_write = \<lparr>wOp = [], wKey = [], wRaw = [], wFromKey = [], wToKey = []\<rparr>"

text \<open>
  A node: the default manager, the database, whether a write hook is installed, and what the
  hook has been called with, oldest first.
\<close>

record cnode =
  mgr :: manager
  db_of :: store
  localWriteHook :: bool
  hooked :: "write_msg list"

definition no_manager :: manager where
  "no_manager = \<lparr>enabled = False, forward = False, has_raft = False, nodeID = [], raftAddr = [],
     httpAddr = [], idToHTTP = Map.empty, raftToHTTP = Map.empty, fwd = new_pool\<rparr>"

definition SetDefault :: "manager \<Rightarrow> cnode \<Rightarrow> cnode" where
  "SetDefault m n = n\<lparr>mgr := m\<rparr>"

definition SetLocalWriteHook :: "bool \<Rightarrow> cnode \<Rightarrow> cnode" where
  "SetLocalWriteHook h n = n\<lparr>localWriteHook := h\<rparr>"

definition AsNotLeader :: "cluster_error \<Rightarrow> bytes option" where
  "AsNotLeader e = (case e of NotLeader a \<Rightarrow> Some a | _ \<Rightarrow> None)"

definition notLeaderText :: "bytes \<Rightarrow> bytes" where
  "notLeaderText a = (if a = [] then ''not leader'' else ''not leader, leader='' @ a)"

text \<open>The states' names, lower-cased.\<close>

definition state_name :: "raft_state \<Rightarrow> bytes" where
  "state_name s = (case s of Follower \<Rightarrow> ''follower'' | Candidate \<Rightarrow> ''candidate''
     | Leader \<Rightarrow> ''leader'' | Shutdown \<Rightarrow> ''shutdown'')"

definition role :: "raft_lib \<Rightarrow> cnode \<Rightarrow> bytes" where
  "role R n =
     (if has_raft (mgr n) then state_name (raftState R)
      else if localWriteHook n then ''peer'' else ''standalone'')"

definition normalizeHTTPAddr :: "bytes \<Rightarrow> bytes" where
  "normalizeHTTPAddr a0 =
     (let a = trim_space a0 in
      if a = [] then []
      else if has_prefix a ''http://'' \<or> has_prefix a ''https://'' then a
      else ''http://'' @ a)"

text \<open>\<open>leaderHTTPAddr\<close>, as the question about the leader with number \<open>i\<close>.\<close>

definition leaderHTTPAddr :: "raft_lib \<Rightarrow> nat \<Rightarrow> manager \<Rightarrow> bytes" where
  "leaderHTTPAddr R i m =
     (if \<not> has_raft m then []
      else
        (case leaderWithID R i of
           (addr, ident) \<Rightarrow>
             if addr = [] then []
             else if ident = nodeID m \<or> addr = raftAddr m then httpAddr m
             else
               (case idToHTTP m ident of
                  Some h \<Rightarrow> h
                | None \<Rightarrow> (case raftToHTTP m addr of Some h \<Rightarrow> h | None \<Rightarrow> []))))"

subsection \<open>Writes on this node alone\<close>

definition call_hook :: "write_msg \<Rightarrow> cnode \<Rightarrow> cnode" where
  "call_hook w n = n\<lparr>hooked := hooked n @ [w]\<rparr>"

definition notifyLocalWrite :: "cluster_libs \<Rightarrow> command \<Rightarrow> cnode \<Rightarrow> cnode" where
  "notifyLocalWrite K c n =
     (if \<not> localWriteHook n then n
      else if cOp c = ''set'' then
        (case jsonValue K (cValue c) of
           None \<Rightarrow> n
         | Some raw \<Rightarrow> call_hook (no_write\<lparr>wOp := ''set'', wKey := cKey c, wRaw := raw\<rparr>) n)
      else if cOp c = ''del'' then call_hook (no_write\<lparr>wOp := ''del'', wKey := cKey c\<rparr>) n
      else if cOp c = ''clone'' then
        call_hook (no_write\<lparr>wOp := ''clone'', wFromKey := cFromKey c, wToKey := cToKey c\<rparr>) n
      else n)"

subsection \<open>Forwarding\<close>

record http_request =
  hMethod :: bytes
  hURL :: bytes
  hBody :: bytes
  hJSON :: bool

definition forward_request :: "cluster_libs \<Rightarrow> command \<Rightarrow> bytes \<Rightarrow> cluster_error + http_request" where
  "forward_request K c leader =
     (if cOp c = ''set'' then
        (case jsonValue K (cValue c) of
           None \<Rightarrow> Inl EncodeFailed
         | Some b \<Rightarrow> Inr \<lparr>hMethod = ''PUT'', hURL = leader @ ''/db/'' @ cKey c, hBody = b, hJSON = True\<rparr>)
      else if cOp c = ''del'' then
        Inr \<lparr>hMethod = ''DELETE'', hURL = leader @ ''/db/'' @ cKey c, hBody = [], hJSON = False\<rparr>
      else if cOp c = ''clone'' then
        Inr \<lparr>hMethod = ''POST'', hURL = leader @ ''/clone/'' @ cFromKey c @ ''/'' @ cToKey c, hBody = [], hJSON = False\<rparr>
      else if cOp c = ''vacuum'' then
        Inr \<lparr>hMethod = ''POST'', hURL = leader @ ''/vacuum'', hBody = [], hJSON = False\<rparr>
      else Inl (UnknownOp (cOp c)))"

text \<open>The HTTP client: an error of making or sending the request, or status and body.\<close>

type_synonym http_client = "http_request \<Rightarrow> bytes + int \<times> bytes"

definition forwardHTTP :: "cluster_libs \<Rightarrow> http_client \<Rightarrow> command \<Rightarrow> bytes \<Rightarrow> cluster_error option" where
  "forwardHTTP K http c leader =
     (case forward_request K c leader of
        Inl e \<Rightarrow> Some e
      | Inr req \<Rightarrow>
          (case http req of
             Inl e \<Rightarrow> Some (BadRequest e)
           | Inr (status, body) \<Rightarrow>
               if 200 \<le> status \<and> status < 300 then None
               else if status = 409 then
                 (case jsonLeader K body of
                    Some a \<Rightarrow> Some (NotLeader (if a = [] then leader else a))
                  | None \<Rightarrow> Some (NotLeader leader))
               else Some (LeaderHTTP status body)))"

definition forwardTo ::
  "cluster_libs \<Rightarrow> raft_lib \<Rightarrow> network \<Rightarrow> http_client \<Rightarrow> command \<Rightarrow> bytes \<Rightarrow> bytes \<Rightarrow> manager \<Rightarrow>
    cluster_error option \<times> manager" where
  "forwardTo K R N http c b addr m =
     (case forwardTCP N addr b (fwd m) of
        (err, p) \<Rightarrow>
          let m' = m\<lparr>fwd := p\<rparr> in
          if err = Some ForwardUnsupported then
            (let h = leaderHTTPAddr R 1 m' in
             if h \<noteq> [] then (forwardHTTP K http c h, m') else (err, m'))
          else (err, m'))"

definition forwardToLeader ::
  "cluster_libs \<Rightarrow> raft_lib \<Rightarrow> network \<Rightarrow> http_client \<Rightarrow> command \<Rightarrow> bytes \<Rightarrow> manager \<Rightarrow>
    cluster_error option \<times> manager" where
  "forwardToLeader K R N http c b m =
     (case leaderWithID R 0 of
        (leader, _) \<Rightarrow>
          if leader = [] then (Some (NotLeader []), m) else forwardTo K R N http c b leader m)"

subsection \<open>Writes\<close>

text \<open>What lies around a write: Raft, the network and the HTTP client.\<close>

record outside =
  raft_of :: raft_lib
  net_of :: network
  http_of :: http_client

definition apply_command :: "libs \<Rightarrow> cluster_libs \<Rightarrow> outside \<Rightarrow> command \<Rightarrow> cnode \<Rightarrow> cluster_error option \<times> cnode" where
  "apply_command L K X c n =
     (let m = mgr n; R = raft_of X in
      if \<not> enabled m \<or> \<not> has_raft m then
        (case applyLocal L c (db_of n) of
           (Some e, st) \<Rightarrow> (Some e, n\<lparr>db_of := st\<rparr>)
         | (None, st) \<Rightarrow> (None, notifyLocalWrite K c (n\<lparr>db_of := st\<rparr>)))
      else
        (case jsonCommand K c of
           None \<Rightarrow> (Some EncodeFailed, n)
         | Some b \<Rightarrow>
             if raftState R \<noteq> Leader then
               (if \<not> forward m then (Some (NotLeader (leaderHTTPAddr R 0 m)), n)
                else
                  (case forwardToLeader K R (net_of X) (http_of X) c b m of
                     (err, m') \<Rightarrow> (err, n\<lparr>mgr := m'\<rparr>)))
             else
               (case raft_Apply L K R b (db_of n) of
                  (err, st) \<Rightarrow> (err, n\<lparr>db_of := st\<rparr>))))"

definition ApplySet :: "libs \<Rightarrow> cluster_libs \<Rightarrow> outside \<Rightarrow> bytes \<Rightarrow> go_value \<Rightarrow> cnode \<Rightarrow> cluster_error option \<times> cnode" where
  "ApplySet L K X k v = apply_command L K X (no_command\<lparr>cOp := ''set'', cKey := k, cValue := v\<rparr>)"

definition ApplyDelete :: "libs \<Rightarrow> cluster_libs \<Rightarrow> outside \<Rightarrow> bytes \<Rightarrow> cnode \<Rightarrow> cluster_error option \<times> cnode" where
  "ApplyDelete L K X k = apply_command L K X (no_command\<lparr>cOp := ''del'', cKey := k\<rparr>)"

definition ApplyClone :: "libs \<Rightarrow> cluster_libs \<Rightarrow> outside \<Rightarrow> bytes \<Rightarrow> bytes \<Rightarrow> cnode \<Rightarrow> cluster_error option \<times> cnode" where
  "ApplyClone L K X fk tk = apply_command L K X (no_command\<lparr>cOp := ''clone'', cFromKey := fk, cToKey := tk\<rparr>)"

definition ApplyVacuum :: "libs \<Rightarrow> cluster_libs \<Rightarrow> outside \<Rightarrow> cnode \<Rightarrow> cluster_error option \<times> cnode" where
  "ApplyVacuum L K X = apply_command L K X (no_command\<lparr>cOp := ''vacuum''\<rparr>)"

definition ApplySetRaw :: "libs \<Rightarrow> cluster_libs \<Rightarrow> outside \<Rightarrow> bytes \<Rightarrow> bytes \<Rightarrow> cnode \<Rightarrow> cluster_error option \<times> cnode" where
  "ApplySetRaw L K X k raw n =
     (if \<not> enabled (mgr n) \<or> \<not> has_raft (mgr n) then
        (case db_result (SetRaw L k raw (db_of n)) of
           (Some e, st) \<Rightarrow> (Some e, n\<lparr>db_of := st\<rparr>)
         | (None, st) \<Rightarrow>
             let n' = n\<lparr>db_of := st\<rparr> in
             (None, if localWriteHook n'
                    then call_hook (no_write\<lparr>wOp := ''set'', wKey := k, wRaw := trim_space raw\<rparr>) n' else n'))
      else
        (case decodeValue L raw of
           Inl e \<Rightarrow> (Some (DbError (JSONError (DecodeError e))), n)
         | Inr v \<Rightarrow> ApplySet L K X k (value_of_json v) n))"

subsection \<open>Serving forwarded writes\<close>

definition applyForwarded :: "libs \<Rightarrow> cluster_libs \<Rightarrow> raft_lib \<Rightarrow> bytes \<Rightarrow> manager \<Rightarrow> store \<Rightarrow> cluster_error option \<times> store" where
  "applyForwarded L K R req m st =
     (case decodeCommand L K req of
        Inl e \<Rightarrow> (Some e, st)
      | Inr c \<Rightarrow>
          if cOp c \<notin> {''set'', ''del'', ''clone'', ''vacuum''} then (Some (UnknownOp (cOp c)), st)
          else if raftState R \<noteq> Leader then (Some (NotLeader (leaderHTTPAddr R 0 m)), st)
          else raft_Apply L K R req st)"

definition forward_reply :: "cluster_libs \<Rightarrow> cluster_error option \<Rightarrow> bytes" where
  "forward_reply K err =
     (case err of
        None \<Rightarrow> forwardOK # WriteFrame []
      | Some e \<Rightarrow>
          (case AsNotLeader e of
             Some a \<Rightarrow> forwardNotLeader # WriteFrame a
           | None \<Rightarrow> forwardError # WriteFrame (errText K e)))"

text \<open>
  The loop of \<open>serveForward\<close> on what arrives on the connection: what it answers, and the store.
  The answers of Raft are numbered by the requests. Every frame takes at least the byte of its
  length, so as many rounds as there are bytes are enough.
\<close>

fun serve_frames ::
  "libs \<Rightarrow> cluster_libs \<Rightarrow> (nat \<Rightarrow> raft_lib) \<Rightarrow> manager \<Rightarrow> nat \<Rightarrow> nat \<Rightarrow> bytes \<Rightarrow> store \<Rightarrow> bytes \<times> store" where
  "serve_frames L K R m i 0 r st = ([], st)"
| "serve_frames L K R m i (Suc fuel) r st =
     (case ReadFrame maxForwardFrame r of
        Inl e \<Rightarrow> ([], st)
      | Inr (req, r') \<Rightarrow>
          (case applyForwarded L K (R i) req m st of
             (err, st') \<Rightarrow>
               (case serve_frames L K R m (Suc i) fuel r' st' of
                  (out, st'') \<Rightarrow> (forward_reply K err @ out, st''))))"

definition serveForward ::
  "libs \<Rightarrow> cluster_libs \<Rightarrow> (nat \<Rightarrow> raft_lib) \<Rightarrow> manager \<Rightarrow> bytes \<Rightarrow> store \<Rightarrow> bytes \<times> store" where
  "serveForward L K R m r st =
     (case r of
        [] \<Rightarrow> ([], st)
      | b # r' \<Rightarrow> if b \<noteq> forwardByte then ([], st) else serve_frames L K R m 0 (length r') r' st)"

subsection \<open>Starting and stopping\<close>

record peer =
  pID :: bytes
  pRaftAddr :: bytes
  pHTTPAddr :: bytes

record cluster_config =
  cfgEnabled :: bool
  cfgForward :: bool
  cfgNodeID :: bytes
  cfgRaftAddr :: bytes
  cfgHTTPAddr :: bytes
  cfgDir :: bytes
  cfgBootstrap :: bool
  cfgPeers :: "peer list"
  cfgFsync :: bytes

definition parseFsync :: "bytes \<Rightarrow> bytes + bool" where
  "parseFsync v =
     (if v = [] \<or> v = ''always'' then Inr False
      else if v = ''everysec'' then Inr True
      else Inl v)"

definition peer_id_map :: "peer \<Rightarrow> (bytes \<rightharpoonup> bytes) \<Rightarrow> (bytes \<rightharpoonup> bytes)" where
  "peer_id_map p f =
     (if pHTTPAddr p = [] \<or> pID p = [] then f else f(pID p \<mapsto> normalizeHTTPAddr (pHTTPAddr p)))"

definition peer_addr_map :: "peer \<Rightarrow> (bytes \<rightharpoonup> bytes) \<Rightarrow> (bytes \<rightharpoonup> bytes)" where
  "peer_addr_map p f =
     (if pHTTPAddr p = [] \<or> pRaftAddr p = [] then f
      else f(pRaftAddr p \<mapsto> normalizeHTTPAddr (pHTTPAddr p)))"

text \<open>
  What \<open>Start\<close> opens, and the errors of the calls that open it, of libraries and of the log
  store. A resource is open after the call that returns it and until the code closes it;
  \<open>Raft.Shutdown\<close> closes the transport, and the transport the port.
\<close>

datatype resource = PortOpen | FilesOpen | RaftOpen

datatype start_error = MissingConfig | UnknownFsync bytes | StartFailed bytes

record start_calls =
  mkdir_error :: "bytes option"
  resolve_error :: "bytes option"
  advertisable :: bool
  listen_error :: "bytes option"
  filestore_error :: "bytes option"
  snapshots_error :: "bytes option"
  raft_error :: "bytes option"
  bootstrap_error :: "bytes option"
  cant_bootstrap :: bool

definition newMuxLayer :: "start_calls \<Rightarrow> bytes option" where
  "newMuxLayer I = (if \<not> advertisable I then Some ''local bind address is not advertisable'' else listen_error I)"

text \<open>The result, what is open, and whether log entries are fsynced lazily.\<close>

definition Start_manager ::
  "start_calls \<Rightarrow> cluster_config \<Rightarrow> (start_error + manager) \<times> resource set \<times> bool" where
  "Start_manager I cfg =
     (let m = no_manager\<lparr>enabled := cfgEnabled cfg, forward := cfgForward cfg\<rparr>;
          stop = (\<lambda>e res. (Inl (StartFailed e), res, False)) in
      if \<not> cfgEnabled cfg then (Inr m, {}, False)
      else if cfgNodeID cfg = [] \<or> cfgRaftAddr cfg = [] \<or> cfgDir cfg = [] then (Inl MissingConfig, {}, False)
      else
        (case parseFsync (cfgFsync cfg) of
           Inl v \<Rightarrow> (Inl (UnknownFsync v), {}, False)
         | Inr lazy \<Rightarrow>
             (case mkdir_error I of Some e \<Rightarrow> stop e {} | None \<Rightarrow>
             (case resolve_error I of Some e \<Rightarrow> stop e {} | None \<Rightarrow>
             (case newMuxLayer I of Some e \<Rightarrow> stop e {} | None \<Rightarrow>
             (let res = {PortOpen} in
             (case filestore_error I of Some e \<Rightarrow> stop e (res - {PortOpen}) | None \<Rightarrow>
             (let res = insert FilesOpen res in
             (case snapshots_error I of Some e \<Rightarrow> stop e (res - {PortOpen} - {FilesOpen}) | None \<Rightarrow>
             (case raft_error I of Some e \<Rightarrow> stop e (res - {PortOpen} - {FilesOpen}) | None \<Rightarrow>
             (let res = insert RaftOpen res in
              if cfgBootstrap cfg \<and> cfgPeers cfg \<noteq> [] \<and> bootstrap_error I \<noteq> None \<and> \<not> cant_bootstrap I
              then stop (the (bootstrap_error I)) (res - {RaftOpen, PortOpen} - {FilesOpen})
              else
                (Inr (m\<lparr>has_raft := True, nodeID := cfgNodeID cfg, raftAddr := cfgRaftAddr cfg,
                     httpAddr := normalizeHTTPAddr (cfgHTTPAddr cfg),
                     idToHTTP := fold peer_id_map (cfgPeers cfg) Map.empty,
                     raftToHTTP :=
                       (let f = fold peer_addr_map (cfgPeers cfg) Map.empty in
                        if cfgRaftAddr cfg \<noteq> [] \<and> cfgHTTPAddr cfg \<noteq> []
                        then f(cfgRaftAddr cfg \<mapsto> normalizeHTTPAddr (cfgHTTPAddr cfg)) else f)\<rparr>),
                 res, lazy))))))))))))"

definition Shutdown_manager :: "manager \<Rightarrow> resource set \<Rightarrow> manager \<times> resource set" where
  "Shutdown_manager m res =
     (if \<not> enabled m \<or> \<not> has_raft m then (m, res)
      else (m\<lparr>fwd := pool_close (fwd m)\<rparr>, res - {RaftOpen, PortOpen} - {FilesOpen}))"

end
