(* ===== verification/TcpApi.thy ===== *)
theory TcpApi
  imports Manager
begin

text \<open>
  \<open>internal/tcpapi/server.go\<close>: the line protocol. A connection is what its successive reads
  return and, as the program's side of it, the unread bytes of the reader, the unsent bytes of
  the writer, and a trace of what happened on it, oldest first.
\<close>

subsection \<open>A connection\<close>

text \<open>
  \<open>Recv\<close> is a read that returned, \<open>Reply\<close> a write to the buffered writer, \<open>Send\<close> a write to
  the socket that succeeded.
\<close>

datatype event = Recv bytes | Reply bytes | Send bytes

record tconn =
  unread :: bytes
  incoming :: "bytes list"
  pending :: bytes
  write_failed :: bool
  trace :: "event list"

text \<open>The buffered writer keeps 4096 bytes. Whether the socket takes the bytes is \<open>ok\<close> of the
  number of writes to it so far; a failed write is remembered and nothing more is written.\<close>

definition bufSize :: nat where "bufSize = 4096"

definition sends :: "event list \<Rightarrow> bytes list" where
  "sends es = concat (map (\<lambda>e. case e of Send b \<Rightarrow> [b] | _ \<Rightarrow> []) es)"

definition replies :: "event list \<Rightarrow> bytes list" where
  "replies es = concat (map (\<lambda>e. case e of Reply b \<Rightarrow> [b] | _ \<Rightarrow> []) es)"

definition send_bytes :: "(nat \<Rightarrow> bool) \<Rightarrow> bytes \<Rightarrow> tconn \<Rightarrow> tconn" where
  "send_bytes ok b c =
     (if ok (length (sends (trace c))) then c\<lparr>trace := trace c @ [Send b]\<rparr> else c\<lparr>write_failed := True\<rparr>)"

definition Flush :: "(nat \<Rightarrow> bool) \<Rightarrow> tconn \<Rightarrow> tconn" where
  "Flush ok c =
     (if write_failed c \<or> pending c = [] then c
      else (let c' = send_bytes ok (pending c) c in
            if write_failed c' then c' else c'\<lparr>pending := []\<rparr>))"

function drain :: "(nat \<Rightarrow> bool) \<Rightarrow> bytes \<Rightarrow> tconn \<Rightarrow> tconn" where
  "drain ok p c =
     (if length p \<le> bufSize then c\<lparr>pending := p\<rparr>
      else (let c' = send_bytes ok (take bufSize p) c in
            if write_failed c' then c'\<lparr>pending := p\<rparr> else drain ok (drop bufSize p) c'))"
  by pat_completeness auto
termination by (relation "measure (\<lambda>(ok, p, c). length p)") (auto simp: bufSize_def)

declare drain.simps [simp del]

definition write_bytes :: "(nat \<Rightarrow> bool) \<Rightarrow> bytes \<Rightarrow> tconn \<Rightarrow> tconn" where
  "write_bytes ok b c =
     (if write_failed c then c
      else drain ok (pending c @ b) (c\<lparr>trace := trace c @ [Reply b]\<rparr>))"

subsection \<open>Lines\<close>

text \<open>\<open>ReadBytes\<close>: the line with its newline, or none when the connection ends first.\<close>

fun read_bytes :: "bytes \<Rightarrow> bytes list \<Rightarrow> bytes option \<times> bytes \<times> bytes list \<times> event list" where
  "read_bytes buf inc =
     (case index_byte nl buf of
        Some i \<Rightarrow> (Some (take (Suc i) buf), drop (Suc i) buf, inc, [])
      | None \<Rightarrow>
          (case inc of
             [] \<Rightarrow> (None, [], [], [])
           | s # ss \<Rightarrow> (case read_bytes (buf @ s) ss of (r, b, i, es) \<Rightarrow> (r, b, i, Recv s # es))))"

declare read_bytes.simps [simp del]

definition readline :: "tconn \<Rightarrow> bytes option \<times> tconn" where
  "readline c =
     (case read_bytes (unread c) (incoming c) of
        (r, b, i, es) \<Rightarrow>
          (map_option trim_space r, c\<lparr>unread := b, incoming := i, trace := trace c @ es\<rparr>))"

definition hasBufferedLine :: "tconn \<Rightarrow> bool" where
  "hasBufferedLine c \<longleftrightarrow> unread c \<noteq> [] \<and> index_byte nl (unread c) \<noteq> None"

definition readlineFlush :: "(nat \<Rightarrow> bool) \<Rightarrow> tconn \<Rightarrow> bytes option \<times> tconn" where
  "readlineFlush ok c =
     (if \<not> hasBufferedLine c then
        (let c' = Flush ok c in if write_failed c' then (None, c') else readline c')
      else readline c)"

subsection \<open>Replies\<close>

text \<open>A bulk reply is written in parts, which the buffer joins.\<close>

definition writeBulk :: "(nat \<Rightarrow> bool) \<Rightarrow> bytes \<Rightarrow> tconn \<Rightarrow> tconn" where
  "writeBulk ok v c =
     write_bytes ok [nl] (write_bytes ok v (write_bytes ok [nl]
       (write_bytes ok (show_nat (length v)) (write_bytes ok ''$'' c))))"

definition writelines :: "(nat \<Rightarrow> bool) \<Rightarrow> bytes \<Rightarrow> tconn \<Rightarrow> tconn" where
  "writelines ok l c = write_bytes ok l c"

definition result_line :: "cluster_libs \<Rightarrow> cluster_error option \<Rightarrow> bytes" where
  "result_line K err =
     (case err of
        None \<Rightarrow> ''+OK'' @ [nl]
      | Some e \<Rightarrow>
          (case AsNotLeader e of
             Some a \<Rightarrow> ''-ERR not leader '' @ a @ [nl]
           | None \<Rightarrow> ''-ERR '' @ errText K e @ [nl]))"

definition writeResult_tcp :: "(nat \<Rightarrow> bool) \<Rightarrow> cluster_libs \<Rightarrow> cluster_error option \<Rightarrow> tconn \<Rightarrow> tconn" where
  "writeResult_tcp ok K err c = writelines ok (result_line K err) c"

subsection \<open>Commands\<close>

definition upper :: "char \<Rightarrow> char" where
  "upper c = (let n = of_char c :: nat in if 97 \<le> n \<and> n \<le> 122 then char_of (n - 32) else c)"

text \<open>\<open>bytes.EqualFold\<close> with a word whose letters fold to ASCII letters only.\<close>

definition EqualFold_PING :: "bytes \<Rightarrow> bool" where
  "EqualFold_PING l \<longleftrightarrow> map upper l = ''PING''"

text \<open>
  One command, with its first line. It yields whether the loop goes on, the connection and the
  node. A line that a command still needs is read from the connection.
\<close>

definition handle_command ::
  "libs \<Rightarrow> cluster_libs \<Rightarrow> outside \<Rightarrow> (nat \<Rightarrow> bool) \<Rightarrow> bytes \<Rightarrow> tconn \<Rightarrow> cnode \<Rightarrow> bool \<times> tconn \<times> cnode" where
  "handle_command L K X ok l c n =
     (let arg = drop 1 l;
          finish = (\<lambda>c n. (\<not> write_failed c, c, n));
          result = (\<lambda>c r. case r of (err, n') \<Rightarrow> finish (writeResult_tcp ok K err c) n') in
      if hd l = CHR ''='' then
        (case Get L arg (db_of n) of (v, st) \<Rightarrow> finish (writeBulk ok v c) (n\<lparr>db_of := st\<rparr>))
      else if hd l = CHR ''+'' then
        (if length l = 1 then finish (writelines ok (''-ERR the key path is required'' @ [nl]) c) n
         else
           (case readlineFlush ok c of
              (None, c1) \<Rightarrow> (False, c1, n)
            | (Some v, c1) \<Rightarrow> result c1 (ApplySetRaw L K X arg v n)))
      else if hd l = CHR ''-'' then
        (if length l = 1 then finish (writelines ok (''-ERR the key path is required'' @ [nl]) c) n
         else result c (ApplyDelete L K X arg n))
      else if hd l = CHR ''<'' then
        (if length l = 1 then finish (writelines ok (''-ERR the source key path is required'' @ [nl]) c) n
         else
           (case readlineFlush ok c of
              (None, c1) \<Rightarrow> (False, c1, n)
            | (Some t, c1) \<Rightarrow>
                if length t \<le> 1 \<or> hd t \<noteq> CHR ''>''
                then finish (writelines ok (''-ERR the target key path is required'' @ [nl]) c1) n
                else result c1 (ApplyClone L K X arg (drop 1 t) n)))
      else if hd l = CHR ''*'' then result c (ApplyVacuum L K X n)
      else if (hd l = CHR ''p'' \<or> hd l = CHR ''P'') \<and> EqualFold_PING l
      then finish (writelines ok (''+PONG'' @ [nl]) c) n
      else finish (writelines ok (''-ERR unknown command'' @ [nl]) c) n)"

subsection \<open>The loop\<close>

text \<open>What is left to read, which every round makes less.\<close>

definition left_to_read :: "tconn \<Rightarrow> nat" where
  "left_to_read c = length (unread c) + length (concat (incoming c))"

lemma read_bytes_left:
  "read_bytes buf inc = (r, b, i, es) \<Longrightarrow>
    length b + length (concat i) \<le> length buf + length (concat inc) \<and>
    (r \<noteq> None \<longrightarrow> length b + length (concat i) < length buf + length (concat inc))"
proof (induction inc arbitrary: buf r b i es)
  case Nil
  then show ?case
    using index_byte_Some [of nl buf]
    by (auto simp: read_bytes.simps [of buf] split: option.splits)
next
  case (Cons s ss)
  show ?case
  proof (cases "index_byte nl buf")
    case None
    then show ?thesis
      using Cons.prems Cons.IH [of "buf @ s"]
      by (auto simp: read_bytes.simps [of buf] split: prod.splits)
  next
    case (Some j)
    then show ?thesis using Cons.prems index_byte_Some [of nl buf j] by (auto simp: read_bytes.simps [of buf])
  qed
qed

lemma send_left [simp]: "left_to_read (send_bytes ok b c) = left_to_read c"
  by (simp add: send_bytes_def left_to_read_def)

lemma flush_left [simp]: "left_to_read (Flush ok c) = left_to_read c"
  by (simp add: Flush_def Let_def) (simp add: left_to_read_def send_bytes_def)

lemma drain_left: "left_to_read (drain ok p c) = left_to_read c"
proof (induction ok p c rule: drain.induct)
  case (1 ok p c)
  show ?case
  proof (cases "length p \<le> bufSize")
    case True
    then show ?thesis by (simp add: drain.simps [of ok p] left_to_read_def)
  next
    case False
    have "left_to_read (c'\<lparr>pending := p\<rparr>) = left_to_read c'" for c' by (simp add: left_to_read_def)
    then show ?thesis using False 1 [OF False refl] by (simp add: drain.simps [of ok p] Let_def)
  qed
qed

lemma write_left [simp]: "left_to_read (write_bytes ok b c) = left_to_read c"
  by (simp add: write_bytes_def drain_left) (simp add: left_to_read_def)

lemma replies_left [simp]:
  "left_to_read (writelines ok l c) = left_to_read c"
  "left_to_read (writeBulk ok v c) = left_to_read c"
  "left_to_read (writeResult_tcp ok K err c) = left_to_read c"
  by (simp_all add: writelines_def writeBulk_def writeResult_tcp_def)

lemma readline_left:
  "readline c = (r, c') \<Longrightarrow> left_to_read c' \<le> left_to_read c \<and> (r \<noteq> None \<longrightarrow> left_to_read c' < left_to_read c)"
  using read_bytes_left [of "unread c" "incoming c"]
  by (auto simp: readline_def left_to_read_def split: prod.splits)

lemma readlineFlush_left:
  assumes "readlineFlush ok c = (r, c')"
  shows "left_to_read c' \<le> left_to_read c \<and> (r \<noteq> None \<longrightarrow> left_to_read c' < left_to_read c)"
  using assms readline_left [of c r c'] readline_left [of "Flush ok c" r c'] flush_left [of ok c]
  by (auto simp: readlineFlush_def Let_def split: if_splits)

lemma handle_command_left:
  "handle_command L K X ok l c n = (go, c', n') \<Longrightarrow> left_to_read c' \<le> left_to_read c"
  using readlineFlush_left [of ok c]
  by (auto simp: handle_command_def Let_def split: if_splits prod.splits option.splits)

lemma line_left: "(Some l, c1) = readlineFlush ok c \<Longrightarrow> left_to_read c1 < left_to_read c"
  using readlineFlush_left [of ok c "Some l" c1] by simp

lemma round_left:
  "(go, c2, n') = handle_command L K X ok l c1 n \<Longrightarrow> readlineFlush ok c = (Some l, c1) \<Longrightarrow>
    left_to_read c2 < left_to_read c"
  using readlineFlush_left [of ok c "Some l" c1] handle_command_left [of L K X ok l c1 n go c2 n'] by simp

text \<open>
  The loop of \<open>handle\<close>: \<open>stops i\<close> says that the server is shutting down before round \<open>i\<close>,
  \<open>X i\<close> what lies around the command of that round.
\<close>

function handle_loop ::
  "libs \<Rightarrow> cluster_libs \<Rightarrow> (nat \<Rightarrow> outside) \<Rightarrow> (nat \<Rightarrow> bool) \<Rightarrow> (nat \<Rightarrow> bool) \<Rightarrow> nat \<Rightarrow> tconn \<Rightarrow> cnode \<Rightarrow>
    tconn \<times> cnode" where
  "handle_loop L K X ok stops i c n =
     (if stops i then (c, n)
      else
        (case readlineFlush ok c of
           (None, c1) \<Rightarrow> (c1, n)
         | (Some l, c1) \<Rightarrow>
             if l = [] then handle_loop L K X ok stops (Suc i) c1 n
             else
               (case handle_command L K (X i) ok l c1 n of
                  (go, c2, n') \<Rightarrow>
                    if go then handle_loop L K X ok stops (Suc i) c2 n' else (c2, n'))))"
  by pat_completeness auto
termination
  by (relation "measure (\<lambda>(L, K, X, ok, stops, i, c, n). left_to_read c)")
    (auto dest: readlineFlush_left intro: round_left line_left)

declare handle_loop.simps [simp del]

text \<open>\<open>handle\<close>: whatever ended the loop, what is unsent is sent.\<close>

definition new_tconn :: "bytes list \<Rightarrow> tconn" where
  "new_tconn inc = \<lparr>unread = [], incoming = inc, pending = [], write_failed = False, trace = []\<rparr>"

definition handle ::
  "libs \<Rightarrow> cluster_libs \<Rightarrow> (nat \<Rightarrow> outside) \<Rightarrow> (nat \<Rightarrow> bool) \<Rightarrow> (nat \<Rightarrow> bool) \<Rightarrow> bytes list \<Rightarrow> cnode \<Rightarrow>
    tconn \<times> cnode" where
  "handle L K X ok stops inc n =
     (case handle_loop L K X ok stops 0 (new_tconn inc) n of (c, n') \<Rightarrow> (Flush ok c, n'))"

end
