(* ===== verification/ClusterLaws.thy ===== *)
theory ClusterLaws
  imports Manager
begin

text \<open>
  Facts about the cluster: what a command does to the abstract document, how a store that was
  restored from a snapshot compares with the one it was taken from, what a connection of
  forwarded writes does, and what the pool of connections keeps.
\<close>

subsection \<open>Commands on the document\<close>

definition doc_write :: "bytes \<Rightarrow> doc \<Rightarrow> doc \<Rightarrow> db_error option \<times> doc" where
  "doc_write k v d =
     (case spec_set d (splitTreePath k) v of
        Inl e \<Rightarrow> (Some (PathError e), d)
      | Inr d' \<Rightarrow> (None, d'))"

definition doc_set :: "libs \<Rightarrow> bytes \<Rightarrow> go_value \<Rightarrow> doc \<Rightarrow> db_error option \<times> doc" where
  "doc_set L k v d =
     (case valueToNode L v of Inl e \<Rightarrow> (Some e, d) | Inr n \<Rightarrow> doc_write k (abs_node n) d)"

text \<open>A clone writes the value its text is read as; an error of the target is not reported.\<close>

definition doc_clone :: "libs \<Rightarrow> bytes \<Rightarrow> bytes \<Rightarrow> doc \<Rightarrow> doc" where
  "doc_clone L fk tk d =
     (case spec_get d (splitTreePath fk) of
        None \<Rightarrow> d
      | Some (DLeaf t) \<Rightarrow> snd (doc_write tk (DLeaf t) d)
      | Some s \<Rightarrow>
          if doc_text s = [] then d
          else snd (doc_write tk (abs_node (nodeFromRaw (gjsonParse L) (doc_text s))) d))"

definition doc_command :: "libs \<Rightarrow> command \<Rightarrow> doc \<Rightarrow> cluster_error option \<times> doc" where
  "doc_command L c d =
     (if cOp c = ''set'' then map_prod (map_option DbError) id (doc_set L (cKey c) (cValue c) d)
      else if cOp c = ''del'' then (None, spec_remove d (cKey c))
      else if cOp c = ''clone'' then (None, doc_clone L (cFromKey c) (cToKey c) d)
      else if cOp c = ''vacuum'' then (None, d)
      else (Some (UnknownOp (cOp c)), d))"

definition doc_entry :: "libs \<Rightarrow> cluster_libs \<Rightarrow> bytes \<Rightarrow> doc \<Rightarrow> cluster_error option \<times> doc" where
  "doc_entry L K b d =
     (case decodeCommand L K b of Inl e \<Rightarrow> (Some e, d) | Inr c \<Rightarrow> doc_command L c d)"

lemma setNode_write:
  assumes "store_ok st"
  shows "map_prod id document (setNode k v st) = doc_write k (abs_node v) (document st)"
proof -
  have "map_sum id abs_node (treeSetPath (Obj (configRoot st)) k v) =
      spec_set (document st) (splitTreePath k) (abs_node v)"
    unfolding treeSetPath_segs document_def
    by (rule abs_treeSet [OF splitTreePath_nonempty store_ok_wf [OF assms]])
  then show ?thesis
    by (cases rule: setNode_cases [of st k v]) (auto simp: doc_write_def document_def split: sum.splits)
qed

text \<open>Without a log file the operations are those on the document.\<close>

lemma plain_append: "\<not> aofEnabled st \<Longrightarrow> appendAOF r st = st"
  by (simp add: appendAOF_def)

lemma setNode_aof: "aofEnabled (snd (setNode k v st)) = aofEnabled st"
  by (cases rule: setNode_cases [of st k v]) auto

lemma Set_writable:
  assumes "store_ok st" "checkWritable st = None"
  shows "map_prod id document (Set L k v st) = doc_set L k v (document st) \<and>
    aofEnabled (snd (Set L k v st)) = aofEnabled st"
proof (cases "valueToNode L v")
  case (Inl e)
  then show ?thesis using assms(2) by (simp add: Set_def doc_set_def)
next
  case (Inr n)
  obtain r st' where s: "setNode k n st = (r, st')" by fastforce
  then have "(r, document st') = doc_write k (abs_node n) (document st)" "aofEnabled st' = aofEnabled st"
    using setNode_write [OF assms(1), of k n] setNode_aof [of k n st] by simp_all
  then show ?thesis
    using assms(2) Inr s by (cases r) (auto simp: Set_def doc_set_def appendAOF_def Let_def document_def)
qed

lemma Set_write:
  assumes "store_ok st" "\<not> aofEnabled st"
  shows "map_prod id document (Set L k v st) = doc_set L k v (document st) \<and>
    \<not> aofEnabled (snd (Set L k v st))"
  using Set_writable [OF assms(1), of L k v] assms(2) by (simp add: checkWritable_def)

lemma delonly_aof: "aofEnabled (delonly k st) = aofEnabled st"
  by (cases rule: delonly_result [of st k]) simp

lemma Del_write:
  assumes "store_ok st" "\<not> aofEnabled st"
  shows "fst (Del k st) = None \<and> document (snd (Del k st)) = spec_remove (document st) k \<and>
    \<not> aofEnabled (snd (Del k st))"
  using assms delonly_document [OF assms(1)]
  by (simp add: Del_def checkWritable_def plain_append delonly_aof)

lemma lookup_document:
  assumes "store_ok st"
  shows "spec_get (document st) (splitTreePath k) = map_option abs_node (treeLookupPath (Obj (configRoot st)) k)"
  unfolding treeLookupPath_segs document_def by (rule abs_treeLookup [OF store_ok_wf [OF assms]])

lemma tree_text_node: "tree_text n = doc_text (abs_node n)"
  by (rule tree_text_doc)

lemma cloneonly_write:
  assumes "store_ok st"
  shows "document (snd (cloneonly L fk tk st)) = doc_clone L fk tk (document st) \<and>
    aofEnabled (snd (cloneonly L fk tk st)) = aofEnabled st"
proof (cases "treeLookupPath (Obj (configRoot st)) fk")
  case None
  then show ?thesis using lookup_document [OF assms, of fk] by (simp add: cloneonly_def doc_clone_def)
next
  case (Some src)
  have wr: "document (snd (setNode tk n st)) = snd (doc_write tk (abs_node n) (document st))" for n
    using setNode_write [OF assms, of tk n] by (metis snd_map_prod)
  have cont: "document (snd (cloneonly L fk tk st)) =
      (if doc_text (abs_node src) = [] then document st
       else snd (doc_write tk (abs_node (nodeFromRaw (gjsonParse L) (doc_text (abs_node src)))) (document st))) \<and>
      aofEnabled (snd (cloneonly L fk tk st)) = aofEnabled st"
    if "\<And>t. src \<noteq> Leaf t"
    using Some that wr setNode_aof tree_text_node [of src]
    by (cases src) (auto simp: cloneonly_def setrawonly_def appendTree_def Let_def
        simp del: tree_text.simps abs_node.simps doc_text.simps split: prod.split option.split, (metis snd_conv)+)
  have "spec_get (document st) (splitTreePath fk) = Some (abs_node src)"
    using lookup_document [OF assms, of fk] Some by simp
  then show ?thesis
  proof (cases src)
    case (Leaf t)
    then show ?thesis
      using Some \<open>spec_get _ _ = _\<close> wr [of "Leaf t"] setNode_aof [of tk "Leaf t" st]
      by (auto simp: cloneonly_def doc_clone_def split: prod.split option.split)
  next
    case (Obj ob)
    then show ?thesis using cont \<open>spec_get _ _ = _\<close> by (simp add: doc_clone_def del: doc_text.simps)
  next
    case Nil
    have "nodeFromRaw (gjsonParse L) (doc_text DNull) = Leaf ''null''"
      by (simp add: nodeFromRaw_def is_digit_def canonicalNumberText_def scan_int_def)
    then show ?thesis using Nil cont \<open>spec_get _ _ = _\<close> by (simp add: doc_clone_def)
  next
    case (Arr xs)
    then show ?thesis using cont \<open>spec_get _ _ = _\<close> by (simp add: doc_clone_def del: doc_text.simps)
  qed
qed

lemma Clone_write:
  assumes "store_ok st" "\<not> aofEnabled st"
  shows "fst (Clone L fk tk st) = None \<and> document (snd (Clone L fk tk st)) = doc_clone L fk tk (document st) \<and>
    \<not> aofEnabled (snd (Clone L fk tk st))"
  using assms(2) cloneonly_write [OF assms(1), of L fk tk]
  by (auto simp: Clone_def checkWritable_def plain_append split: prod.split)

lemma applyLocal_write:
  assumes "store_ok st" "\<not> aofEnabled st"
  shows "map_prod id document (applyLocal L c st) = doc_command L c (document st) \<and>
    \<not> aofEnabled (snd (applyLocal L c st))"
proof -
  obtain r st' where s: "Set L (cKey c) (cValue c) st = (r, st')" by fastforce
  then have "doc_set L (cKey c) (cValue c) (document st) = (r, document st')" "\<not> aofEnabled st'"
    using Set_write [OF assms, of L "cKey c" "cValue c"] by simp_all
  moreover obtain r2 st2 where "Del (cKey c) st = (r2, st2)" by fastforce
  moreover obtain r3 st3 where "Clone L (cFromKey c) (cToKey c) st = (r3, st3)" by fastforce
  ultimately show ?thesis
    using s assms(2) Del_write [OF assms, of "cKey c"] Clone_write [OF assms, of L "cFromKey c" "cToKey c"]
    by (auto simp: applyLocal_def doc_command_def db_result_def Vacuum_def plain_append)
qed

lemma applyLocal_ok:
  assumes "store_ok st" "value_ok (cValue c)"
  shows "store_ok (snd (applyLocal L c st))"
  using Set_ok [OF assms] Del_ok [OF assms(1)] Clone_ok [OF assms(1)] assms(1)
  by (simp add: applyLocal_def db_result_def Vacuum_def)

subsection \<open>Replicas\<close>

text \<open>A decoder with \<open>UseNumber\<close> yields no float of its own.\<close>

definition decodes_values :: "cluster_libs \<Rightarrow> bool" where
  "decodes_values K \<longleftrightarrow> (\<forall>b c r. jsonDecodeCommand K b = CmdOk c r \<longrightarrow> value_ok (cValue c))"

definition replica :: "store \<Rightarrow> bool" where
  "replica st \<longleftrightarrow> store_ok st \<and> snapshot_ok st \<and> \<not> aofEnabled st"

fun run_log :: "libs \<Rightarrow> cluster_libs \<Rightarrow> bytes list \<Rightarrow> store \<Rightarrow> cluster_error option list \<times> store" where
  "run_log L K [] st = ([], st)"
| "run_log L K (b # bs) st =
     (case fsm_Apply L K b st of
        (r, st') \<Rightarrow> (case run_log L K bs st' of (rs, st'') \<Rightarrow> (r # rs, st'')))"

lemma snapshot_ok_applyLocal:
  "snapshot_ok st \<Longrightarrow> snapshot_ok (snd (applyLocal L c st))"
  using snapshot_ok_Set [of st L "cKey c" "cValue c"] snapshot_ok_Del [of st "cKey c"]
    snapshot_ok_Clone [of st L "cFromKey c" "cToKey c"]
  by (simp add: applyLocal_def db_result_def Vacuum_def)

lemma decoded_value: "decodes_values K \<Longrightarrow> decodeCommand L K b = Inr c \<Longrightarrow> value_ok (cValue c)"
  by (auto simp: decodes_values_def decodeCommand_def split: decoded_command.splits decoded.splits)

lemma fsm_Apply_replica:
  assumes "replica st" "decodes_values K"
  shows "map_prod id document (fsm_Apply L K b st) = doc_entry L K b (document st) \<and>
    replica (snd (fsm_Apply L K b st))"
proof (cases "decodeCommand L K b")
  case (Inl e)
  then show ?thesis using assms(1) by (simp add: fsm_Apply_def doc_entry_def)
next
  case (Inr c)
  then show ?thesis
    using assms(1) applyLocal_write [of st L c] applyLocal_ok [OF _ decoded_value [OF assms(2) Inr], of st]
      snapshot_ok_applyLocal [of st L c]
    by (auto simp: fsm_Apply_def doc_entry_def replica_def)
qed

interpretation fsm: document_machine "fsm_Apply L K" "doc_entry L K" "\<lambda>st. replica st \<and> decodes_values K"
  by unfold_locales (auto simp: fsm_Apply_replica)

lemma run_log_all: "run_log L K bs st = run_all (fsm_Apply L K) bs st"
  by (induction bs arbitrary: st) simp_all

text \<open>Restoring from a snapshot, when the libraries read the document's text as JSON.\<close>

definition reads_text :: "libs \<Rightarrow> doc \<Rightarrow> bool" where
  "reads_text L d \<longleftrightarrow> gjsonParse L (doc_text d) = doc_view d \<and> goUnmarshal L (doc_text d) = None"

lemma Replace_doc_text:
  assumes "store_ok a" and "reads_text L (document a)"
  obtains ob where "Replace L (doc_text (document a)) b =
      (None, b\<lparr>configRoot := ob, configSnapshot := doc_text (document a), configStale := False\<rparr>)"
    and "\<And>s x. document (b\<lparr>configRoot := ob, configSnapshot := s, configStale := x\<rparr>) = document a"
proof -
  obtain es where es: "document a = DObj es" by (simp add: document_def)
  have ok: "doc_ok (document a)" using assms(1) by (simp add: store_ok_def node_ok_def document_def)
  have parsed: "abs_node (parseTreeRaw (gjsonParse L) (doc_text (document a))) = document a"
    using parse_doc_view [OF ok] assms(2) by (simp add: parseTreeRaw_def reads_text_def)
  then obtain ob where ob: "parseTreeRaw (gjsonParse L) (doc_text (document a)) = Obj ob"
    using es by (cases "parseTreeRaw (gjsonParse L) (doc_text (document a))") auto
  show ?thesis
  proof (rule that)
    show "Replace L (doc_text (document a)) b =
        (None, b\<lparr>configRoot := ob, configSnapshot := doc_text (document a), configStale := False\<rparr>)"
      using assms(2) ob by (simp add: Replace_def reads_text_def)
    show "document (b\<lparr>configRoot := ob, configSnapshot := s, configStale := x\<rparr>) = document a" for s x
      using parsed ob by (simp add: document_def)
  qed
qed

lemma snapshot_restored:
  assumes "replica a" "reads_text L (document a)" "replica b"
  shows "fst (fsm_Restore L (fst (fsm_Snapshot L a)) b) = None \<and>
    replica (snd (fsm_Restore L (fst (fsm_Snapshot L a)) b)) \<and>
    document (snd (fsm_Restore L (fst (fsm_Snapshot L a)) b)) = document a \<and>
    replica (snd (fsm_Snapshot L a)) \<and> document (snd (fsm_Snapshot L a)) = document a"
proof -
  have a: "store_ok a" "snapshot_ok a" "\<not> aofEnabled a" using assms(1) by (simp_all add: replica_def)
  have tx: "fst (fsm_Snapshot L a) = doc_text (document a)"
    using snapshot_text [OF a(2)] by (simp add: fsm_Snapshot_def Get_def split: prod.split)
  obtain ob where r: "Replace L (doc_text (document a)) b =
        (None, b\<lparr>configRoot := ob, configSnapshot := doc_text (document a), configStale := False\<rparr>)"
    and doc: "\<And>s x. document (b\<lparr>configRoot := ob, configSnapshot := s, configStale := x\<rparr>) = document a"
    using Replace_doc_text [OF a(1) assms(2), of b] by blast
  let ?b = "b\<lparr>configRoot := ob, configSnapshot := doc_text (document a), configStale := False\<rparr>"
  have res: "fsm_Restore L (fst (fsm_Snapshot L a)) b = (None, ?b)" by (simp add: fsm_Restore_def tx r)
  have "store_ok ?b" using Replace_ok [of b L "doc_text (document a)"] assms(2,3) r
    by (simp add: replica_def)
  moreover have "snapshot_ok ?b" using doc by (simp add: snapshot_ok_def)
  moreover have "replica (snd (fsm_Snapshot L a))" "document (snd (fsm_Snapshot L a)) = document a"
    using a Get_keeps [of L "[]" a] snapshot_ok_Get [OF a(2), of L "[]"]
    by (simp_all add: replica_def fsm_Snapshot_def store_ok_def document_def Get_def snapshot_def Let_def
        split: prod.split)
  ultimately show ?thesis using res doc assms(3) by (simp add: replica_def)
qed

subsection \<open>Failures and starting\<close>

lemma applyLocal_failed: "applyLocal L c st = (Some e, st') \<Longrightarrow> st' = st"
  using Set_failed [of L "cKey c" "cValue c" st]
  by (cases "Set L (cKey c) (cValue c) st") (auto simp: applyLocal_def db_result_def Del_def Clone_def split: if_splits option.splits prod.splits)

lemma started_fields:
  assumes "Start_manager I cfg = (Inr m, res, lz)" and "cfgEnabled cfg"
  shows "res = {PortOpen, FilesOpen, RaftOpen} \<and> enabled m \<and> has_raft m \<and> nodeID m = cfgNodeID cfg \<and>
    raftAddr m = cfgRaftAddr cfg \<and> idToHTTP m = fold peer_id_map (cfgPeers cfg) Map.empty \<and>
    fwd m = new_pool \<and> parseFsync (cfgFsync cfg) = Inr lz"
  using assms
  by (auto simp: Start_manager_def Let_def no_manager_def split: if_splits sum.splits option.splits)

end
