(* ===== verification/ForwardLaws.thy ===== *)
theory ForwardLaws
  imports ClusterLaws
begin

text \<open>
  Facts about forwarding: what a connection of forwarded writes answers, how the follower reads
  the answer, and which connections the pool holds.
\<close>

subsection \<open>A connection of forwarded writes\<close>

text \<open>The requests of a connection one after the other, and the error of each.\<close>

fun forwarded ::
  "libs \<Rightarrow> cluster_libs \<Rightarrow> (nat \<Rightarrow> raft_lib) \<Rightarrow> manager \<Rightarrow> nat \<Rightarrow> bytes list \<Rightarrow> store \<Rightarrow>
    cluster_error option list \<times> store" where
  "forwarded L K R m i [] st = ([], st)"
| "forwarded L K R m i (b # bs) st =
     (case applyForwarded L K (R i) b m st of
        (err, st') \<Rightarrow> (case forwarded L K R m (Suc i) bs st' of (errs, st'') \<Rightarrow> (err # errs, st'')))"

definition frame_ok :: "bytes \<Rightarrow> bool" where
  "frame_ok b \<longleftrightarrow> length b \<le> maxForwardFrame"

lemma forward_frame_written [wire_simps]:
  "frame_ok b \<Longrightarrow> ReadFrame maxForwardFrame (WriteFrame b @ rest) = Inr (b, rest)"
  by (rule frame_written) (simp_all add: frame_ok_def maxForwardFrame_def)

lemma frame_nonempty: "WriteFrame b \<noteq> []"
  by (simp add: WriteFrame_def put_uvarint.simps [of "length b"])

lemma serve_frames_written:
  "list_all frame_ok bs \<Longrightarrow> length (concat (map WriteFrame bs)) \<le> fuel \<Longrightarrow>
    serve_frames L K R m i fuel (concat (map WriteFrame bs)) st =
      map_prod (\<lambda>errs. concat (map (forward_reply K) errs)) id (forwarded L K R m i bs st)"
proof (induction bs arbitrary: i fuel st)
  case Nil
  then show ?case by (cases fuel) (simp_all add: ReadFrame_def)
next
  case (Cons b bs)
  obtain k where "length (WriteFrame b) = Suc k" using frame_nonempty [of b] by (cases "WriteFrame b") simp_all
  then obtain f where f: "fuel = Suc f" "length (concat (map WriteFrame bs)) \<le> f"
    using Cons.prems(2) by (cases fuel) auto
  obtain err st' where a: "applyForwarded L K (R i) b m st = (err, st')" by fastforce
  show ?case
    using Cons.prems(1) f a Cons.IH [of f "Suc i" st']
    by (cases "forwarded L K R m (Suc i) bs st'") (simp add: forward_frame_written)
qed

lemma serveForward_written:
  "list_all frame_ok bs \<Longrightarrow>
    serveForward L K R m (forwardByte # concat (map WriteFrame bs)) st =
      map_prod (\<lambda>errs. concat (map (forward_reply K) errs)) id (forwarded L K R m 0 bs st)"
  by (simp add: serveForward_def serve_frames_written)

text \<open>What the follower makes of the leader's answer.\<close>

definition follower_sees :: "cluster_libs \<Rightarrow> cluster_error option \<Rightarrow> cluster_error option" where
  "follower_sees K err =
     (case err of
        None \<Rightarrow> None
      | Some e \<Rightarrow>
          (case AsNotLeader e of Some a \<Rightarrow> Some (NotLeader a) | None \<Rightarrow> Some (LeaderSaid (errText K e))))"

definition reply_ok :: "cluster_libs \<Rightarrow> cluster_error option \<Rightarrow> bool" where
  "reply_ok K err \<longleftrightarrow>
     (case err of
        None \<Rightarrow> True
      | Some e \<Rightarrow> frame_ok (case AsNotLeader e of Some a \<Rightarrow> a | None \<Rightarrow> errText K e))"

lemma frame_alone: "frame_ok b \<Longrightarrow> ReadFrame maxForwardFrame (WriteFrame b) = Inr (b, [])"
  using forward_frame_written [of b "[]"] by simp

lemma roundTrip_reply:
  "reply_ok K err \<Longrightarrow> write_error x = None \<Longrightarrow> arrived x = forward_reply K err @ rest \<Longrightarrow>
    roundTrip x = (True, follower_sees K err)"
  using forward_frame_written [of "[]" rest]
  by (auto simp: roundTrip_def forward_reply_def follower_sees_def reply_ok_def forward_frame_written frame_ok_def
      split: option.splits)

lemma follower_sees_supported: "follower_sees K err \<noteq> Some ForwardUnsupported"
  by (simp add: follower_sees_def split: option.split)

subsection \<open>A write sent to the leader\<close>

text \<open>A follower that knows its leader and may use the leader's Raft port.\<close>

definition forwards :: "outside \<Rightarrow> manager \<Rightarrow> bytes \<Rightarrow> bool" where
  "forwards X m addr \<longleftrightarrow>
     enabled m \<and> has_raft m \<and> forward m \<and> raftState (raft_of X) \<noteq> Leader \<and>
     fst (leaderWithID (raft_of X) 0) = addr \<and> addr \<noteq> [] \<and>
     \<not> isUnsupported (now_before (net_of X)) addr (fwd m)"

lemma apply_forwards:
  assumes "forwards X (mgr n) addr" and "jsonCommand K c = Some b"
    and "forwardTCP (net_of X) addr b (fwd (mgr n)) = (err, p)" and "err \<noteq> Some ForwardUnsupported"
  shows "apply_command L K X c n = (err, n\<lparr>mgr := (mgr n)\<lparr>fwd := p\<rparr>\<rparr>)"
  using assms
  by (auto simp: forwards_def apply_command_def forwardToLeader_def forwardTo_def Let_def split: prod.split)

lemma forwardTCP_pooled:
  assumes "\<not> isUnsupported (now_before N) addr p" and "idle_at addr p = cs @ [fc]"
    and "roundTrip (exchange N fc b) = (sent, err)"
  shows "forwardTCP N addr b p =
    (let p2 = meanwhile N 0 (p\<lparr>idle := AList.update addr cs (idle p)\<rparr>) in
     if sent then (err, pool_put addr fc p2) else forward_dialled N addr b (close_conn fc p2))"
  using assms by (simp add: forwardTCP_def pool_get_def Let_def)

lemma forwardTCP_fresh:
  assumes "\<not> isUnsupported (now_before N) addr p" and "idle_at addr p = []"
  shows "forwardTCP N addr b p = forward_dialled N addr b p"
  using assms by (simp add: forwardTCP_def pool_get_def)

text \<open>What the leader makes of a request it can decode.\<close>

lemma applyForwarded_leader:
  assumes "decodeCommand L K b = Inr c" and "cOp c \<in> {''set'', ''del'', ''clone'', ''vacuum''}"
    and "raftState R = Leader"
  shows "applyForwarded L K R b m st = raft_Apply L K R b st"
  using assms by (simp add: applyForwarded_def)

lemma raft_Apply_done:
  assumes "decodeCommand L K b = Inr c" and "futureError R b = None"
  shows "raft_Apply L K R b st = (None, snd (applyLocal L c (otherEntries R st)))"
  using assms by (simp add: raft_Apply_def fsm_Apply_def)

subsection \<open>The pool\<close>

text \<open>
  Writers and the pool: \<open>busy\<close> are the connections writers hold. Each step is one of the pool's
  methods, under its lock, or the dialling of a new connection, which no one has seen before.
\<close>

type_synonym pool_state = "forwardPool \<times> nat set"

definition idle_conns :: "forwardPool \<Rightarrow> nat list" where
  "idle_conns p = concat (map snd (idle p))"

inductive pool_step :: "pool_state \<Rightarrow> pool_state \<Rightarrow> bool" where
  take_idle: "pool_get addr p = (Some fc, p') \<Longrightarrow> pool_step (p, busy) (p', insert fc busy)"
| dial_new: "fc \<notin> busy \<Longrightarrow> fc \<notin> set (idle_conns p) \<Longrightarrow> fc \<notin> set (shut p) \<Longrightarrow> pool_step (p, busy) (p, insert fc busy)"
| give_back: "fc \<in> busy \<Longrightarrow> pool_step (p, busy) (pool_put addr fc p, busy - {fc})"
| give_up: "fc \<in> busy \<Longrightarrow> pool_step (p, busy) (close_conn fc p, busy - {fc})"
| mark: "pool_step (p, busy) (markUnsupported now addr p, busy)"
| shut_down: "pool_step (p, busy) (pool_close p, busy)"

definition pool_inv :: "pool_state \<Rightarrow> bool" where
  "pool_inv s \<longleftrightarrow>
     (case s of (p, busy) \<Rightarrow>
        distinct (map fst (idle p)) \<and> distinct (idle_conns p @ shut p) \<and>
        busy \<inter> (set (idle_conns p) \<union> set (shut p)) = {} \<and>
        (\<forall>cs \<in> set (map snd (idle p)). length cs \<le> maxIdleForward) \<and>
        (pool_closed p \<longrightarrow> idle_conns p = []))"

lemma pool_inv_new: "pool_inv (new_pool, {})"
  by (simp add: pool_inv_def new_pool_def idle_conns_def)

text \<open>Changing the list of one address.\<close>

lemma update_split:
  assumes "distinct (map fst xs)" and "map_of xs a = Some cs"
  obtains us vs where "xs = us @ (a, cs) # vs" "\<And>v. AList.update a v xs = us @ (a, v) # vs"
    "a \<notin> fst ` set us"
proof -
  from assms have "\<exists>us vs. xs = us @ (a, cs) # vs \<and> (\<forall>v. AList.update a v xs = us @ (a, v) # vs) \<and> a \<notin> fst ` set us"
  proof (induction xs)
    case (Cons x xs)
    show ?case
    proof (cases "fst x = a")
      case True
      then show ?thesis using Cons.prems by (intro exI [of _ "[]"] exI [of _ xs]) (cases x, auto)
    next
      case False
      then have "map_of xs a = Some cs" "distinct (map fst xs)" using Cons.prems by (cases x, auto)+
      then obtain us vs where "xs = us @ (a, cs) # vs" "\<forall>v. AList.update a v xs = us @ (a, v) # vs" "a \<notin> fst ` set us"
        using Cons.IH by blast
      with False show ?thesis by (intro exI [of _ "x # us"] exI [of _ vs]) (cases x, auto)
    qed
  qed simp
  then show thesis using that by blast
qed

lemma update_absent: "map_of xs a = None \<Longrightarrow> AList.update a v xs = xs @ [(a, v)]"
  by (induction xs) (auto split: if_splits)

lemma pool_get_conns:
  assumes "distinct (map fst (idle p))" and "pool_get addr p = (Some fc, p')"
  obtains cs us vs where "idle_conns p = us @ cs @ fc # vs" "idle_conns p' = us @ cs @ vs"
    "shut p' = shut p" "pool_closed p' = pool_closed p" "distinct (map fst (idle p'))"
    "\<And>ds. ds \<in> set (map snd (idle p')) \<Longrightarrow> \<exists>es \<in> set (map snd (idle p)). length ds \<le> length es"
proof -
  obtain cs0 where m: "map_of (idle p) addr = Some cs0" "cs0 \<noteq> []" "fc = last cs0"
    "p' = p\<lparr>idle := AList.update addr (butlast cs0) (idle p)\<rparr>"
    using assms(2) by (auto simp: pool_get_def idle_at_def Let_def split: if_splits option.splits)
  obtain us vs where s: "idle p = us @ (addr, cs0) # vs"
    "\<And>v. AList.update addr v (idle p) = us @ (addr, v) # vs" "addr \<notin> fst ` set us"
    using update_split [OF assms(1) m(1)] by blast
  have cs0: "cs0 = butlast cs0 @ [fc]" using m(2,3) by simp
  show thesis
  proof (rule that [of "concat (map snd us)" "butlast cs0" "concat (map snd vs)"])
    show "idle_conns p = concat (map snd us) @ butlast cs0 @ fc # concat (map snd vs)"
      using s(1) cs0 by (simp add: idle_conns_def)
    show "idle_conns p' = concat (map snd us) @ butlast cs0 @ concat (map snd vs)"
      using s(2) m(4) by (simp add: idle_conns_def)
    show "distinct (map fst (idle p'))" using m(4) assms(1) by (simp add: distinct_update)
    show "\<exists>es \<in> set (map snd (idle p)). length ds \<le> length es" if "ds \<in> set (map snd (idle p'))" for ds
      using that s m(4) by (auto intro: bexI [of _ cs0])
  qed (simp_all add: m(4))
qed

lemma pool_put_conns:
  assumes "distinct (map fst (idle p))" and "\<not> pool_closed p" and "length (idle_at addr p) < maxIdleForward"
  obtains us vs where "idle_conns p = us @ vs" "idle_conns (pool_put addr fc p) = us @ fc # vs"
    "shut (pool_put addr fc p) = shut p" "pool_closed (pool_put addr fc p) = pool_closed p"
    "distinct (map fst (idle (pool_put addr fc p)))"
    "\<And>ds. ds \<in> set (map snd (idle (pool_put addr fc p))) \<Longrightarrow>
      ds \<in> set (map snd (idle p)) \<or> length ds \<le> maxIdleForward"
proof -
  have p': "pool_put addr fc p = p\<lparr>idle := AList.update addr (idle_at addr p @ [fc]) (idle p)\<rparr>"
    using assms(2,3) by (simp add: pool_put_def)
  show thesis
  proof (cases "map_of (idle p) addr")
    case None
    then have "AList.update addr v (idle p) = idle p @ [(addr, v)]" for v by (rule update_absent)
    moreover have "addr \<notin> fst ` set (idle p)" using None by (simp add: map_of_eq_None_iff)
    ultimately show thesis
      using None assms(1) by (intro that [of "idle_conns p" "[]"])
        (auto simp: p' idle_conns_def idle_at_def maxIdleForward_def)
  next
    case (Some cs)
    obtain us vs where s: "idle p = us @ (addr, cs) # vs"
      "\<And>v. AList.update addr v (idle p) = us @ (addr, v) # vs" "addr \<notin> fst ` set us"
      using update_split [OF assms(1) Some] by blast
    show thesis
      using assms(1,3) Some s(1) s(2) [of "cs @ [fc]"]
      by (intro that [of "concat (map snd us) @ cs" "concat (map snd vs)"])
        (auto simp: p' idle_conns_def idle_at_def)
  qed
qed

end
