(* ===== verification/ClusterProps.thy ===== *)
theory ClusterProps
  imports ForwardLaws
begin

text \<open>
  The properties of the cluster: forwarded writes, replicas, errors under Raft, the pool of
  connections, starting, and finding the leader.
\<close>

subsection \<open>Forwarded writes\<close>

lemma forwarded_snoc:
  "forwarded L K R m i (bs @ [b]) st =
     (case forwarded L K R m i bs st of
        (errs, st1) \<Rightarrow>
          (case applyForwarded L K (R (i + length bs)) b m st1 of (err, st2) \<Rightarrow> (errs @ [err], st2)))"
  by (induction bs arbitrary: i st) (auto split: prod.split)

text \<open>The bytes a connection has carried to the leader after some requests.\<close>

definition carried :: "bytes list \<Rightarrow> bytes" where
  "carried bs = forwardByte # concat (map WriteFrame bs)"

lemma serveForward_carried:
  "list_all frame_ok bs \<Longrightarrow>
    serveForward L K R m (carried bs) st =
      map_prod (\<lambda>errs. concat (map (forward_reply K) errs)) id (forwarded L K R m 0 bs st)"
  unfolding carried_def by (rule serveForward_written)

lemma serveForward_next:
  assumes "list_all frame_ok bs" "frame_ok b" and "serveForward L K R m (carried bs) st = (out, st1)"
    and "applyForwarded L K (R (length bs)) b m st1 = (err, st2)"
  shows "serveForward L K R m (carried (bs @ [b])) st = (out @ forward_reply K err, st2)"
proof -
  obtain errs st' where f: "forwarded L K R m 0 bs st = (errs, st')" by fastforce
  then have "out = concat (map (forward_reply K) errs)" "st1 = st'"
    using assms(1,3) by (simp_all add: serveForward_carried)
  then show ?thesis using f assms(1,2,4) by (simp add: serveForward_carried forwarded_snoc)
qed

text \<open>Which connection a write gets.\<close>

definition uses_conn :: "network \<Rightarrow> bytes \<Rightarrow> forwardPool \<Rightarrow> nat \<Rightarrow> bool" where
  "uses_conn N addr p fc \<longleftrightarrow>
     (if idle_at addr p = [] then dial N = Inr fc else last (idle_at addr p) = fc)"

lemma forwardTCP_answered:
  assumes "\<not> isUnsupported (now_before N) addr p" "uses_conn N addr p fc"
    and "roundTrip (exchange N fc b) = (True, err)"
  shows "fst (forwardTCP N addr b p) = err"
proof (cases "idle_at addr p = []")
  case True
  then show ?thesis using assms by (simp add: forwardTCP_fresh forward_dialled_def uses_conn_def Let_def)
next
  case False
  then have "idle_at addr p = butlast (idle_at addr p) @ [fc]"
    using assms(2) append_butlast_last_id [OF False] by (simp add: uses_conn_def)
  from forwardTCP_pooled [OF assms(1) this assms(3)] show ?thesis by (simp add: Let_def)
qed

subsection \<open>A small cluster for the examples\<close>

definition append_cmd :: command where
  "append_cmd = no_command\<lparr>cOp := ''set'', cKey := ''a.-1'', cValue := GBool True\<rparr>"

text \<open>A codec that knows one command, and libraries that read the empty object.\<close>

definition cluster_codec :: cluster_libs where
  "cluster_codec = \<lparr>jsonCommand = (\<lambda>_. Some ''+''), jsonDecodeCommand = (\<lambda>_. CmdOk append_cmd []),
     jsonValue = (\<lambda>_. None), jsonLeader = (\<lambda>_. None), errText = (\<lambda>_. [])\<rparr>"

definition cluster_sample_libs :: libs where
  "cluster_sample_libs = \<lparr>gjsonParse = (\<lambda>s. if s = ''{}'' then doc_view (DObj []) else GOther s), gjsonGet = (\<lambda>_ _. []),
     goDecode = (\<lambda>_. DecEOF), goUnmarshal = (\<lambda>_. None)\<rparr>"

definition sample_raft :: "raft_state \<Rightarrow> raft_lib" where
  "sample_raft s = \<lparr>raftState = s, leaderWithID = (\<lambda>_. (''l:1'', ''l'')), futureError = (\<lambda>_. None),
     otherEntries = (\<lambda>st. st)\<rparr>"

definition list_store :: store where
  "list_store = init_store\<lparr>aofEnabled := False, configRoot := obj_put ''a'' (Arr []) newTreeObj, configStale := True\<rparr>"

definition sample_manager :: manager where
  "sample_manager = no_manager\<lparr>enabled := True, forward := True, has_raft := True,
     fwd := new_pool\<lparr>idle := [(''l:1'', [7])]\<rparr>\<rparr>"

definition sample_node :: cnode where
  "sample_node = \<lparr>mgr = sample_manager, db_of = init_store, localWriteHook = False, hooked = []\<rparr>"

definition sample_outside :: "(nat \<Rightarrow> bytes \<Rightarrow> conn_io) \<Rightarrow> outside" where
  "sample_outside ex = \<lparr>raft_of = sample_raft Follower,
     net_of = \<lparr>now_before = 0, now_after = 0, dial = Inr 8, exchange = ex, meanwhile = (\<lambda>_ p. p)\<rparr>,
     http_of = (\<lambda>_. Inl [])\<rparr>"

lemma sample_forwards: "forwards (sample_outside ex) (mgr sample_node) ''l:1''"
  by (simp add: forwards_def sample_outside_def sample_node_def sample_manager_def sample_raft_def
      isUnsupported_def new_pool_def)

lemma cluster_codec_simps:
  "jsonCommand cluster_codec c = Some ''+''" "decodeCommand cluster_sample_libs cluster_codec b = Inr append_cmd"
  "cOp append_cmd \<in> {''set'', ''del'', ''clone'', ''vacuum''}" "frame_ok ''+''"
  by (simp_all add: cluster_codec_def decodeCommand_def cluster_sample_libs_def append_cmd_def frame_ok_def
      maxForwardFrame_def)

lemma list_store_document: "document list_store = DObj [(''a'', ''\"a\"'', DArr [])]"
proof -
  have "obj_put ''a'' (Arr []) newTreeObj = TreeObj [''a''] [''\"a\"''] [Arr []] (Map.empty(''a'' \<mapsto> 0))"
    by (simp add: obj_put_def obj_set_def newTreeObj_def stringifyJSON_def)
  then show ?thesis by (simp add: document_def list_store_def obj_entries_def)
qed

lemma list_store_ok: "store_ok list_store" "\<not> aofEnabled list_store"
proof -
  have "doc_ok (document list_store)" unfolding list_store_document by simp
  moreover have "wf_node (Obj (configRoot list_store))"
    using wf_put_node [OF wf_new, of "Arr []" "''a''"] by (simp add: list_store_def)
  ultimately show "store_ok list_store" by (simp add: store_ok_def node_ok_def document_def)
qed (simp add: list_store_def)

lemma append_step:
  "snd (doc_command cluster_sample_libs append_cmd (DObj [(''a'', ''\"a\"'', DArr xs)])) =
     DObj [(''a'', ''\"a\"'', DArr (xs @ [DLeaf ''true'']))]"
  by (simp add: doc_command_def append_cmd_def doc_set_def doc_write_def valueToNode_def splitTreePath_def
      entry_def old_value_def put_entry_def)

lemma appended_once:
  "document (snd (applyLocal cluster_sample_libs append_cmd list_store)) = DObj [(''a'', ''\"a\"'', DArr [DLeaf ''true''])]"
  "store_ok (snd (applyLocal cluster_sample_libs append_cmd list_store))"
  "\<not> aofEnabled (snd (applyLocal cluster_sample_libs append_cmd list_store))"
  using applyLocal_write [OF list_store_ok, of cluster_sample_libs append_cmd] append_step [of "[]"]
    applyLocal_ok [OF list_store_ok(1), of append_cmd cluster_sample_libs]
  by (auto simp: list_store_document append_cmd_def value_ok_def) (metis snd_map_prod)

subsection \<open>Forwarding\<close>



subsection \<open>A reply that is lost\<close>

text \<open>When the leader has applied a forwarded write but its reply misses the deadline, the
  follower sends the write again over a new connection, the leader applies it again, and the
  client is told it succeeded: a write that is not idempotent is applied twice.\<close>

theorem lost_reply_applies_twice:
  assumes "forwards X (mgr n) addr" and "jsonCommand K c = Some b" and "decodeCommand L K b = Inr c"
    and "cOp c \<in> {''set'', ''del'', ''clone'', ''vacuum''}" and "frame_ok b"
    and "idle_at addr (fwd (mgr n)) = cs @ [fc]" and "dial (net_of X) = Inr fc'"
    and "exchange (net_of X) fc b = \<lparr>write_error = None, arrived = [], ended = NetTimeout\<rparr>"
    and "exchange (net_of X) fc' b = \<lparr>write_error = None, arrived = fst (serveForward L K Rb ml (carried [b]) mid), ended = en\<rparr>"
    and "snd (serveForward L K Ra ml (carried [b]) st) = mid"
    and "raftState (Ra 0) = Leader" "futureError (Ra 0) b = None" "otherEntries (Ra 0) = (\<lambda>st. st)"
    and "raftState (Rb 0) = Leader" "futureError (Rb 0) b = None" "otherEntries (Rb 0) = (\<lambda>st. st)"
  shows "fst (apply_command L K X c n) = None \<and>
    snd (serveForward L K Rb ml (carried [b]) mid) = snd (applyLocal L c (snd (applyLocal L c st)))"
proof -
  let ?N = "net_of X" and ?p = "fwd (mgr n)"
  have served: "serveForward L K R m (carried [b]) s = (forward_reply K None, snd (applyLocal L c s))"
    if "raftState (R 0) = Leader" "futureError (R 0) b = None" "otherEntries (R 0) = (\<lambda>st. st)" for R m s
    using serveForward_carried [of "[b]" L K R m s] assms(5) applyForwarded_leader [OF assms(3,4) that(1), of m s]
      raft_Apply_done [OF assms(3) that(2), of s] that(3)
    by simp
  have mid: "mid = snd (applyLocal L c st)" using assms(10-13) served [of Ra ml st] by simp
  have "roundTrip (exchange ?N fc b) = (False, Some (NetFailed NetTimeout))"
    by (simp add: roundTrip_def assms(8))
  moreover have "\<not> isUnsupported (now_before ?N) addr ?p" using assms(1) by (simp add: forwards_def)
  ultimately have tcp: "forwardTCP ?N addr b ?p = forward_dialled ?N addr b
      (close_conn fc (meanwhile ?N 0 (?p\<lparr>idle := AList.update addr cs (idle ?p)\<rparr>)))"
    using forwardTCP_pooled [OF _ assms(6)] by (simp add: Let_def)
  have "reply_ok K None" by (simp add: reply_ok_def)
  then have "roundTrip (exchange ?N fc' b) = (True, follower_sees K None)"
    by (rule roundTrip_reply [of K None _ "[]"]) (simp_all add: assms(9) served [where R = Rb, OF assms(14-16)])
  then have "fst (forward_dialled ?N addr b p) = None" for p
    by (simp add: forward_dialled_def assms(7) follower_sees_def Let_def)
  then obtain p where "forwardTCP ?N addr b ?p = (None, p)"
    using tcp by (cases "forwardTCP ?N addr b ?p") (metis fst_conv)
  from apply_forwards [OF assms(1,2) this] have "fst (apply_command L K X c n) = None" by simp
  then show ?thesis using served [where R = Rb, OF assms(14-16)] mid by simp
qed

theorem lost_reply_applies_twice_witness:
  "document (snd (serveForward cluster_sample_libs cluster_codec (\<lambda>_. sample_raft Leader) no_manager (carried [''+''])
     (snd (serveForward cluster_sample_libs cluster_codec (\<lambda>_. sample_raft Leader) no_manager (carried [''+'']) list_store)))) =
   DObj [(''a'', ''\"a\"'', DArr [DLeaf ''true'', DLeaf ''true''])]"
proof -
  let ?st1 = "snd (serveForward cluster_sample_libs cluster_codec (\<lambda>_. sample_raft Leader) no_manager (carried [''+'']) list_store)"
  let ?ex = "\<lambda>fc b. if fc = 7 then \<lparr>write_error = None, arrived = [], ended = NetTimeout\<rparr>
    else \<lparr>write_error = None, arrived = fst (serveForward cluster_sample_libs cluster_codec (\<lambda>_. sample_raft Leader) no_manager (carried [''+'']) ?st1),
      ended = NetEOF\<rparr>"
  have "snd (serveForward cluster_sample_libs cluster_codec (\<lambda>_. sample_raft Leader) no_manager (carried [''+'']) ?st1) =
      snd (applyLocal cluster_sample_libs append_cmd (snd (applyLocal cluster_sample_libs append_cmd list_store)))"
    using lost_reply_applies_twice [OF sample_forwards [of ?ex] cluster_codec_simps, where cs = "[]" and
        fc = 7 and fc' = 8 and Rb = "\<lambda>_. sample_raft Leader" and ml = no_manager and mid = ?st1 and en = NetEOF and
        Ra = "\<lambda>_. sample_raft Leader" and st = list_store]
    by (simp add: idle_at_def sample_node_def sample_manager_def sample_outside_def sample_raft_def)
  moreover have "document (snd (applyLocal cluster_sample_libs append_cmd (snd (applyLocal cluster_sample_libs append_cmd list_store)))) =
      DObj [(''a'', ''\"a\"'', DArr [DLeaf ''true'', DLeaf ''true''])]"
    using applyLocal_write [OF appended_once(2,3), of cluster_sample_libs append_cmd] append_step [of "[DLeaf ''true'']"]
    unfolding appended_once(1) by (metis append.simps snd_map_prod)
  ultimately show ?thesis by simp
qed

subsection \<open>Replicas\<close>

text \<open>C12. A replica restored from a snapshot of another's document agrees with it from then on:
  any further entries of the log give both the same responses and the same document, the
  document they would also have given without the snapshot.\<close>

theorem restored_replica_agrees:
  assumes "replica a" and "reads_text L (document a)" and "replica b" and "decodes_values K"
    and "fsm_Snapshot L a = (buf, a')" and "fsm_Restore L buf b = (err, b')"
  shows "err = None \<and> fst (run_log L K es b') = fst (run_log L K es a') \<and>
    document (snd (run_log L K es b')) = document (snd (run_log L K es a')) \<and>
    document (snd (run_log L K es a')) = document (snd (run_log L K es a))"
proof -
  have r: "err = None" "replica b'" "document b' = document a" "replica a'" "document a' = document a"
    using snapshot_restored [OF assms(1-3)] assms(5,6) by simp_all
  have agree: "fst (run_log L K es s) = fst (run_log L K es s') \<and>
      document (snd (run_log L K es s)) = document (snd (run_log L K es s'))"
    if "replica s" "replica s'" "document s = document s'" for s s'
    using fsm.run_agree [where a = s and b = s' and K = K and L = L and xs = es] that assms(4)
    by (simp add: run_log_all)
  show ?thesis using agree [OF r(2,4)] agree [OF r(4) assms(1)] r by simp
qed

lemma list_store_replica: "replica list_store"
  using list_store_ok by (simp add: replica_def snapshot_ok_def list_store_def)

lemma empty_replica: "replica (init_store\<lparr>aofEnabled := False\<rparr>)"
  using store_ok_init snapshot_ok_init
  by (simp add: replica_def store_ok_def snapshot_ok_def document_def)

theorem restored_replica_agrees_witness:
  "document (snd (run_log cluster_sample_libs cluster_codec [''x'']
     (snd (fsm_Restore cluster_sample_libs (fst (fsm_Snapshot cluster_sample_libs (init_store\<lparr>aofEnabled := False\<rparr>))) list_store)))) =
   document (snd (run_log cluster_sample_libs cluster_codec [''x''] (init_store\<lparr>aofEnabled := False\<rparr>)))"
proof -
  have "document (init_store\<lparr>aofEnabled := False\<rparr>) = DObj []"
    using document_init by (simp add: document_def)
  then have "reads_text cluster_sample_libs (document (init_store\<lparr>aofEnabled := False\<rparr>))"
    by (simp add: reads_text_def cluster_sample_libs_def)
  moreover have "decodes_values cluster_codec"
    by (simp add: decodes_values_def cluster_codec_def append_cmd_def value_ok_def)
  ultimately show ?thesis
    using restored_replica_agrees [OF empty_replica _ list_store_replica] by (metis prod.collapse)
qed

subsection \<open>Errors under Raft\<close>

text \<open>A write that the document cannot take is refused with its error by a node without Raft;
  a leader reports success for it, because it asks the future for its error and not for the
  response of the state machine, and the document is as it was.\<close>

theorem raft_hides_error:
  assumes "enabled (mgr n)" "has_raft (mgr n)" "raftState (raft_of X) = Leader"
    and "jsonCommand K c = Some b" "decodeCommand L K b = Inr c" "futureError (raft_of X) b = None"
    and "otherEntries (raft_of X) = (\<lambda>st. st)" and "fst (applyLocal L c (db_of n)) = Some e"
  shows "apply_command L K X c n = (None, n) \<and>
    apply_command L K X c (n\<lparr>mgr := (mgr n)\<lparr>enabled := False\<rparr>\<rparr>) = (Some e, n\<lparr>mgr := (mgr n)\<lparr>enabled := False\<rparr>\<rparr>)"
proof -
  have a: "applyLocal L c (db_of n) = (Some e, db_of n)"
    using assms(8) applyLocal_failed by (metis prod.collapse)
  then have "raft_Apply L K (raft_of X) b (db_of n) = (None, db_of n)"
    using raft_Apply_done [OF assms(5,6), of "db_of n"] assms(7) by simp
  then show ?thesis using assms(1-4) a by (simp add: apply_command_def Let_def)
qed

theorem raft_hides_error_witness:
  "fst (apply_command cluster_sample_libs (cluster_codec\<lparr>jsonDecodeCommand := (\<lambda>_. CmdOk (no_command\<lparr>cOp := ''mark''\<rparr>) [])\<rparr>)
     ((sample_outside (\<lambda>_ _. \<lparr>write_error = None, arrived = [], ended = NetEOF\<rparr>))\<lparr>raft_of := sample_raft Leader\<rparr>)
     (no_command\<lparr>cOp := ''mark''\<rparr>) sample_node) = None"
  by (subst raft_hides_error [where b = "''+''" and e = "UnknownOp ''mark''", THEN conjunct1])
    (simp_all add: sample_node_def sample_manager_def sample_raft_def cluster_codec_def decodeCommand_def
      cluster_sample_libs_def applyLocal_def no_command_def sample_outside_def)

subsection \<open>The pool\<close>

text \<open>The connections that writers, the pool or the list of closed ones hold.\<close>

definition all_conns :: "pool_state \<Rightarrow> nat set" where
  "all_conns s = (case s of (p, busy) \<Rightarrow> busy \<union> set (idle_conns p) \<union> set (shut p))"

lemma pool_put_shut:
  "\<not> (\<not> pool_closed p \<and> length (idle_at addr p) < maxIdleForward) \<Longrightarrow> pool_put addr fc p = close_conn fc p"
  by (auto simp: pool_put_def)

lemma pool_step_inv:
  assumes "pool_step s s'" and "pool_inv s"
  shows "pool_inv s' \<and> all_conns s \<subseteq> all_conns s'"
  using assms
proof (cases rule: pool_step.cases)
  case (take_idle addr p fc p' busy)
  then have inv: "pool_inv (p, busy)" using assms(2) by simp
  then have "distinct (map fst (idle p))" by (simp add: pool_inv_def)
  from pool_get_conns [OF this take_idle(3)] obtain cs us vs where
    g: "idle_conns p = us @ cs @ fc # vs" "idle_conns p' = us @ cs @ vs" "shut p' = shut p"
      "pool_closed p' = pool_closed p" "distinct (map fst (idle p'))"
      "\<And>ds. ds \<in> set (map snd (idle p')) \<Longrightarrow> \<exists>es \<in> set (map snd (idle p)). length ds \<le> length es" by metis
  have "\<forall>cs \<in> set (map snd (idle p')). length cs \<le> maxIdleForward"
    using g(6) inv by (fastforce simp: pool_inv_def)
  then show ?thesis using inv g(1-5) unfolding take_idle(1,2)
    by (auto simp: pool_inv_def all_conns_def)
next
  case (dial_new fc busy p)
  then show ?thesis using assms(2) by (auto simp: pool_inv_def all_conns_def)
next
  case (give_back fc busy p addr)
  then have inv: "pool_inv (p, busy)" using assms(2) by simp
  show ?thesis
  proof (cases "\<not> pool_closed p \<and> length (idle_at addr p) < maxIdleForward")
    case True
    then obtain us vs where
      g: "idle_conns p = us @ vs" "idle_conns (pool_put addr fc p) = us @ fc # vs"
        "shut (pool_put addr fc p) = shut p" "pool_closed (pool_put addr fc p) = pool_closed p"
        "distinct (map fst (idle (pool_put addr fc p)))"
        "\<And>ds. ds \<in> set (map snd (idle (pool_put addr fc p))) \<Longrightarrow>
          ds \<in> set (map snd (idle p)) \<or> length ds \<le> maxIdleForward"
      using pool_put_conns [of p addr fc] inv by (simp add: pool_inv_def) blast
    have "\<forall>cs \<in> set (map snd (idle (pool_put addr fc p))). length cs \<le> maxIdleForward"
      using g(6) inv by (fastforce simp: pool_inv_def)
    then show ?thesis using inv g(1-5) True give_back(3) unfolding give_back(1,2)
      by (auto simp: pool_inv_def all_conns_def)
  next
    case False
    then show ?thesis using inv give_back(3) unfolding give_back(1,2) pool_put_shut [OF False]
      by (auto simp: pool_inv_def all_conns_def close_conn_def idle_conns_def)
  qed
next
  case (give_up fc busy p)
  then show ?thesis using assms(2) by (auto simp: pool_inv_def all_conns_def close_conn_def idle_conns_def)
next
  case (mark p busy now addr)
  then show ?thesis using assms(2)
    by (auto simp: pool_inv_def all_conns_def markUnsupported_def idle_conns_def)
next
  case (shut_down p busy)
  then show ?thesis using assms(2)
    by (auto simp: pool_inv_def all_conns_def pool_close_def idle_conns_def)
qed

lemma pool_steps_inv:
  "pool_step\<^sup>*\<^sup>* s s' \<Longrightarrow> pool_inv s \<Longrightarrow> pool_inv s' \<and> all_conns s \<subseteq> all_conns s'"
  by (induction rule: rtranclp_induct) (use pool_step_inv in blast)+

text \<open>C25. However writers take, give back and give up connections, and whenever the pool is closed,
  at most four connections to one leader are idle, no connection is used by two, and none is
  lost: it is held by a writer, idle, or has been closed. After the pool was closed every
  connection is closed once its writer is through.\<close>

theorem connections_accounted:
  assumes "pool_step\<^sup>*\<^sup>* (new_pool, {}) (q, held)" and "pool_step\<^sup>*\<^sup>* (q, held) (p, busy)"
  shows "length (idle_at addr p) \<le> 4 \<and> distinct (idle_conns p @ shut p) \<and>
    busy \<inter> set (idle_conns p) = {} \<and> busy \<inter> set (shut p) = {} \<and>
    held \<subseteq> busy \<union> set (idle_conns p) \<union> set (shut p) \<and>
    (pool_closed p \<and> busy = {} \<longrightarrow> held \<subseteq> set (shut p))"
proof -
  have "pool_inv (q, held)" using pool_steps_inv [OF assms(1) pool_inv_new] by blast
  then have inv: "pool_inv (p, busy)" "all_conns (q, held) \<subseteq> all_conns (p, busy)"
    using pool_steps_inv [OF assms(2)] by blast+
  have "length (idle_at addr p) \<le> 4"
  proof (cases "map_of (idle p) addr")
    case (Some cs)
    then have "cs \<in> set (map snd (idle p))" by (force dest: map_of_SomeD)
    with inv(1) Some show ?thesis by (auto simp: pool_inv_def idle_at_def maxIdleForward_def)
  qed (simp add: idle_at_def)
  then show ?thesis using inv by (auto simp: pool_inv_def all_conns_def)
qed

theorem connections_accounted_witness:
  "\<exists>p. pool_step\<^sup>*\<^sup>* (new_pool, {}) (p, {}) \<and> idle_at ''l:1'' p = [3] \<and> length (idle_at ''l:1'' p) \<le> 4"
proof -
  let ?p = "pool_put ''l:1'' 3 new_pool"
  have "pool_step (new_pool, {}) (new_pool, {3})"
    by (rule dial_new) (simp_all add: new_pool_def idle_conns_def)
  moreover have "pool_step (new_pool, {3}) (?p, {3} - {3})" by (rule give_back) simp
  ultimately have "pool_step\<^sup>*\<^sup>* (new_pool, {}) (?p, {})" by simp
  moreover have "idle_at ''l:1'' ?p = [3]"
    by (simp add: pool_put_def new_pool_def idle_at_def maxIdleForward_def)
  moreover have "length (idle_at ''l:1'' ?p) \<le> 4"
    using connections_accounted [OF \<open>pool_step\<^sup>*\<^sup>* (new_pool, {}) (?p, {})\<close> rtranclp.rtrancl_refl] by blast
  ultimately show ?thesis by blast
qed

subsection \<open>Starting\<close>

text \<open>A start that fails, at whichever call, leaves neither the Raft port nor the log store nor
  Raft open, and stopping a manager that was started closes all of them.\<close>

theorem start_and_stop_release:
  "case Start_manager I cfg of
     (Inl e, res, lz) \<Rightarrow> res = {}
   | (Inr m, res, lz) \<Rightarrow> snd (Shutdown_manager m res) = {} \<and> idle_conns (fwd (fst (Shutdown_manager m res))) = []"
proof -
  have failed: "res = {}" if "Start_manager I cfg = (Inl e, res, lz)" for e res lz
    using that by (auto simp: Start_manager_def Let_def split: if_splits sum.splits option.splits)
  have off: "res = {} \<and> \<not> enabled m \<and> fwd m = new_pool"
    if "Start_manager I cfg = (Inr m, res, lz)" "\<not> cfgEnabled cfg" for m res lz
    using that by (auto simp: Start_manager_def no_manager_def)
  show ?thesis
  proof (cases "Start_manager I cfg")
    case (fields r res lz)
    show ?thesis
    proof (cases r)
      case (Inl e)
      then show ?thesis using fields failed by simp
    next
      case (Inr m)
      then show ?thesis
        using fields off [of m res lz] started_fields [of I cfg m res lz]
        by (cases "cfgEnabled cfg") (auto simp: Shutdown_manager_def idle_conns_def pool_close_def new_pool_def)
    qed
  qed
qed

lemma fold_peer_id:
  "p \<in> set ps \<Longrightarrow> pHTTPAddr p \<noteq> [] \<Longrightarrow> pID p \<noteq> [] \<Longrightarrow>
    (\<forall>q \<in> set ps. pID q = pID p \<longrightarrow> pHTTPAddr q = pHTTPAddr p) \<Longrightarrow>
    fold peer_id_map ps f (pID p) = Some (normalizeHTTPAddr (pHTTPAddr p))"
proof (induction ps rule: rev_induct)
  case Nil
  then show ?case by (metis empty_iff empty_set)
next
  case (snoc q ps)
  show ?case
  proof (cases "pID q = pID p")
    case True
    have "pHTTPAddr q = pHTTPAddr p" using snoc.prems(4) True by auto
    then show ?thesis using snoc.prems(2,3) True by (simp add: peer_id_map_def)
  next
    case False
    then have "p \<in> set ps" using snoc.prems(1) by auto
    then have "fold peer_id_map ps f (pID p) = Some (normalizeHTTPAddr (pHTTPAddr p))"
      by (rule snoc.IH [OF _ snoc.prems(2,3)]) (use snoc.prems(4) in auto)
    moreover have "peer_id_map q g (pID p) = g (pID p)" for g using False by (simp add: peer_id_map_def)
    ultimately show ?thesis by simp
  qed
qed

text \<open>A follower tells its clients the address that the configuration gives for the leader's ID,
  under whatever address the transport reports the leader.\<close>

theorem leader_found_by_id:
  assumes "Start_manager I cfg = (Inr m, res, lz)" and "cfgEnabled cfg" and "p \<in> set (cfgPeers cfg)"
    and "pHTTPAddr p \<noteq> []" "pID p \<noteq> []" and "\<forall>q \<in> set (cfgPeers cfg). pID q = pID p \<longrightarrow> pHTTPAddr q = pHTTPAddr p"
    and "leaderWithID R i = (addr, pID p)" "addr \<noteq> []" "addr \<noteq> cfgRaftAddr cfg" "pID p \<noteq> cfgNodeID cfg"
  shows "leaderHTTPAddr R i m = normalizeHTTPAddr (pHTTPAddr p)"
  using started_fields [OF assms(1,2)] fold_peer_id [OF assms(3-6), of Map.empty] assms(7-10)
  by (simp add: leaderHTTPAddr_def)

definition sample_calls :: start_calls where
  "sample_calls = \<lparr>mkdir_error = None, resolve_error = None, advertisable = True, listen_error = None,
     filestore_error = None, snapshots_error = None, raft_error = None, bootstrap_error = None, cant_bootstrap = False\<rparr>"

definition sample_config :: cluster_config where
  "sample_config = \<lparr>cfgEnabled = True, cfgForward = True, cfgNodeID = ''n1'', cfgRaftAddr = ''h1:7000'', cfgHTTPAddr = [],
     cfgDir = ''/data'', cfgBootstrap = False, cfgPeers = [\<lparr>pID = ''n2'', pRaftAddr = ''h2:7000'', pHTTPAddr = ''http://h2''\<rparr>],
     cfgFsync = []\<rparr>"

theorem leader_found_by_id_witness:
  "\<exists>m res lz. Start_manager sample_calls sample_config = (Inr m, res, lz) \<and>
     leaderHTTPAddr (sample_raft Follower\<lparr>leaderWithID := (\<lambda>_. (''10.0.0.2:7000'', ''n2''))\<rparr>) 0 m = normalizeHTTPAddr ''http://h2''"
proof -
  have "\<exists>m res lz. Start_manager sample_calls sample_config = (Inr m, res, lz)"
    by (simp add: Start_manager_def sample_calls_def sample_config_def newMuxLayer_def parseFsync_def Let_def)
      (intro exI [of _ False], simp)
  then obtain m res lz where s: "Start_manager sample_calls sample_config = (Inr m, res, lz)" by blast
  have "leaderHTTPAddr (sample_raft Follower\<lparr>leaderWithID := (\<lambda>_. (''10.0.0.2:7000'', ''n2''))\<rparr>) 0 m =
      normalizeHTTPAddr (pHTTPAddr \<lparr>pID = ''n2'', pRaftAddr = ''h2:7000'', pHTTPAddr = ''http://h2''\<rparr>)"
    by (rule leader_found_by_id [OF s, where addr = "''10.0.0.2:7000''"]) (simp_all add: sample_config_def)
  with s show ?thesis by simp
qed

end
