(* ===== verification/TcpProps.thy ===== *)
theory TcpProps
  imports TcpApi ClusterProps
begin

text \<open>
  The properties of the line protocol: the replies to commands that arrive in whatever pieces,
  and when replies are sent.
\<close>

subsection \<open>Traces\<close>

lemma trace_parts [simp]:
  "sends [] = []" "replies [] = []"
  "sends (as @ bs) = sends as @ sends bs" "replies (as @ bs) = replies as @ replies bs"
  "sends [Send b] = [b]" "sends [Reply b] = []" "sends [Recv b] = []"
  "replies [Send b] = []" "replies [Reply b] = [b]" "replies [Recv b] = []"
  "sends (Recv b # es) = sends es" "replies (Recv b # es) = replies es"
  by (simp_all add: sends_def replies_def)

text \<open>At every read, what had been replied had been sent.\<close>

definition prompt :: "event list \<Rightarrow> bool" where
  "prompt es \<longleftrightarrow> (\<forall>as s bs. es = as @ Recv s # bs \<longrightarrow> concat (replies as) = concat (sends as))"

lemma prompt_nil [simp]: "prompt []"
  by (simp add: prompt_def)

lemma prompt_snoc:
  "prompt (es @ [e]) \<longleftrightarrow> prompt es \<and> (\<forall>s. e = Recv s \<longrightarrow> concat (replies es) = concat (sends es))"
proof -
  have "es @ [e] = as @ Recv s # bs \<longleftrightarrow> (bs = [] \<and> as = es \<and> e = Recv s) \<or> (\<exists>cs. bs = cs @ [e] \<and> es = as @ Recv s # cs)"
    for as s bs
    by (cases bs rule: rev_cases) auto
  then show ?thesis by (auto simp: prompt_def)
qed

lemma prompt_recvs:
  "list_all (\<lambda>e. \<exists>s. e = Recv s) rs \<Longrightarrow> prompt es \<Longrightarrow> concat (replies es) = concat (sends es) \<Longrightarrow>
    prompt (es @ rs) \<and> sends (es @ rs) = sends es \<and> replies (es @ rs) = replies es"
proof (induction rs rule: rev_induct)
  case (snoc r rs)
  then obtain s where "r = Recv s" by auto
  with snoc show ?case by (simp add: prompt_snoc flip: append_assoc)
qed simp

text \<open>What was replied is what was sent and what is pending, while writing works.\<close>

definition conn_ok :: "tconn \<Rightarrow> bool" where
  "conn_ok c \<longleftrightarrow> prompt (trace c) \<and>
     (\<not> write_failed c \<longrightarrow> concat (replies (trace c)) = concat (sends (trace c)) @ pending c)"

lemma conn_ok_new: "conn_ok (new_tconn inc)"
  by (simp add: conn_ok_def new_tconn_def)

lemma Flush_ok: "conn_ok c \<Longrightarrow> conn_ok (Flush ok c) \<and> (write_failed (Flush ok c) \<or> pending (Flush ok c) = [])"
  by (auto simp: Flush_def send_bytes_def Let_def conn_ok_def prompt_snoc)

lemma drain_ok:
  "prompt (trace c) \<Longrightarrow> \<not> write_failed c \<Longrightarrow> concat (replies (trace c)) = concat (sends (trace c)) @ p \<Longrightarrow>
    conn_ok (drain ok p c)"
proof (induction ok p c rule: drain.induct)
  case (1 ok p c)
  show ?case
  proof (cases "length p \<le> bufSize")
    case True
    then show ?thesis using 1(2-) by (simp add: drain.simps [of ok p] conn_ok_def)
  next
    case False
    let ?c = "send_bytes ok (take bufSize p) c"
    show ?thesis
    proof (cases "write_failed ?c")
      case True
      then show ?thesis using False 1(2,3)
        by (simp add: drain.simps [of ok p] conn_ok_def) (auto simp: send_bytes_def)
    next
      case w: False
      then have "trace ?c = trace c @ [Send (take bufSize p)]" "\<not> write_failed ?c"
        by (auto simp: send_bytes_def split: if_splits)
      then show ?thesis using False w 1(1) [OF False refl w] 1(2-4)
        by (simp add: drain.simps [of ok p] prompt_snoc)
    qed
  qed
qed

lemma write_ok: "conn_ok c \<Longrightarrow> conn_ok (write_bytes ok b c)"
  using drain_ok [of "c\<lparr>trace := trace c @ [Reply b]\<rparr>" "pending c @ b" ok]
  by (cases "write_failed c") (simp_all add: write_bytes_def conn_ok_def prompt_snoc)

lemma replies_ok:
  "conn_ok c \<Longrightarrow> conn_ok (writelines ok l c) \<and> conn_ok (writeBulk ok v c) \<and> conn_ok (writeResult_tcp ok K err c)"
  by (simp add: writelines_def writeBulk_def writeResult_tcp_def write_ok)

lemma read_bytes_recvs:
  "read_bytes buf inc = (r, b, i, es) \<Longrightarrow> list_all (\<lambda>e. \<exists>s. e = Recv s) es \<and> (index_byte nl buf \<noteq> None \<longrightarrow> es = [])"
proof (induction inc arbitrary: buf r b i es)
  case Nil
  then show ?case by (auto simp: read_bytes.simps [of buf] split: option.splits)
next
  case (Cons s ss)
  then show ?case by (fastforce simp: read_bytes.simps [of buf] split: option.splits prod.splits)
qed

lemma readlineFlush_ok:
  assumes "conn_ok c" and "readlineFlush ok c = (r, c')"
  shows "conn_ok c'"
proof -
  have line: "conn_ok c2"
    if "conn_ok c1" "readline c1 = (r, c2)" "hasBufferedLine c1 \<or> \<not> write_failed c1 \<and> pending c1 = []" for c1 c2
  proof -
    obtain l b i es where rb: "read_bytes (unread c1) (incoming c1) = (l, b, i, es)" by (metis prod_cases4)
    then have c2: "c2 = c1\<lparr>unread := b, incoming := i, trace := trace c1 @ es\<rparr>"
      using that(2) by (auto simp: readline_def)
    show ?thesis
    proof (cases "hasBufferedLine c1")
      case True
      then have "es = []" using read_bytes_recvs [OF rb] by (simp add: hasBufferedLine_def)
      then show ?thesis using that(1) by (simp add: c2 conn_ok_def)
    next
      case False
      then have p: "\<not> write_failed c1" "pending c1 = []" using that(3) by auto
      then have "prompt (trace c1)" "concat (replies (trace c1)) = concat (sends (trace c1))"
        using that(1) by (simp_all add: conn_ok_def)
      then show ?thesis
        using prompt_recvs [of es "trace c1"] read_bytes_recvs [OF rb] p by (simp add: c2 conn_ok_def)
    qed
  qed
  show ?thesis
  proof (cases "hasBufferedLine c")
    case True
    then show ?thesis using assms line by (simp add: readlineFlush_def)
  next
    case False
    then show ?thesis using assms(2) line [of "Flush ok c" c'] Flush_ok [OF assms(1), of ok]
      by (auto simp: readlineFlush_def Let_def split: if_splits)
  qed
qed

lemma handle_command_ok:
  "handle_command L K X ok l c n = (go, c', n') \<Longrightarrow> conn_ok c \<Longrightarrow> conn_ok c'"
  using readlineFlush_ok [of c ok] replies_ok [of c ok] replies_ok
  by (auto simp: handle_command_def Let_def split: if_splits prod.splits option.splits)

lemma handle_loop_ok:
  "conn_ok c \<Longrightarrow> conn_ok (fst (handle_loop L K X ok stops i c n))"
proof (induction L K X ok stops i c n rule: handle_loop.induct)
  case (1 L K X ok stops i c n)
  obtain r c1 where r: "readlineFlush ok c = (r, c1)" by fastforce
  then have c1: "conn_ok c1" using readlineFlush_ok 1(3) by blast
  show ?case
  proof (cases "stops i \<or> r = None")
    case True
    then show ?thesis using 1(3) c1 r by (auto simp: handle_loop.simps [of L K X ok stops i])
  next
    case False
    then obtain l where l: "\<not> stops i" "r = Some l" by auto
    obtain go c2 n' where h: "handle_command L K (X i) ok l c1 n = (go, c2, n')" by (metis prod_cases3)
    then have "conn_ok c2" using handle_command_ok c1 by blast
    then show ?thesis
      using 1(1) [OF l(1) r [symmetric] l(2) _ c1] 1(2) [OF l(1) r [symmetric] l(2) _ h [symmetric] refl] l r h
      by (simp add: handle_loop.simps [of L K X ok stops i])
  qed
qed

text \<open>C15. However the commands of a client arrive, whenever the server reads from the connection,
  where it may have to wait, every reply it has written before has been sent: a client that
  waits for an answer is never waited for. When the connection ends, all replies have been sent,
  unless a write to the socket failed.\<close>

theorem replies_sent_before_reading:
  assumes "handle L K X ok stops inc n = (c, n')"
  shows "(trace c = as @ Recv s # bs \<longrightarrow> concat (replies as) = concat (sends as)) \<and>
    (write_failed c \<or> concat (replies (trace c)) = concat (sends (trace c)))"
proof -
  let ?c = "fst (handle_loop L K X ok stops 0 (new_tconn inc) n)"
  have "conn_ok ?c" by (rule handle_loop_ok [OF conn_ok_new])
  moreover have "c = Flush ok ?c" using assms by (auto simp: handle_def split: prod.splits)
  ultimately have "conn_ok c" "write_failed c \<or> pending c = []" using Flush_ok by blast+
  then show ?thesis by (auto simp: conn_ok_def prompt_def)
qed

definition quiet :: outside where
  "quiet = sample_outside (\<lambda>_ _. \<lparr>write_error = None, arrived = [], ended = NetEOF\<rparr>)"

theorem replies_sent_before_reading_witness:
  "let c = fst (handle cluster_sample_libs cluster_codec (\<lambda>_. quiet) (\<lambda>_. True) (\<lambda>_. False) [''PI'', ''NG'' @ [nl]] sample_node)
   in write_failed c \<or> concat (replies (trace c)) = concat (sends (trace c))"
proof -
  obtain c n where "handle cluster_sample_libs cluster_codec (\<lambda>_. quiet) (\<lambda>_. True) (\<lambda>_. False) [''PI'', ''NG'' @ [nl]] sample_node = (c, n)"
    by fastforce
  from this replies_sent_before_reading [OF this, of "[]" "[]" "[]"] show ?thesis by simp
qed

subsection \<open>The replies to a client\<close>

text \<open>The commands of the protocol, as a client writes them.\<close>

datatype tcp_cmd = TGet bytes | TSet bytes bytes | TDel bytes | TClone bytes bytes | TVacuum | TPing

fun tcp_text :: "tcp_cmd \<Rightarrow> bytes" where
  "tcp_text (TGet k) = ''='' @ k @ [nl]"
| "tcp_text (TSet k v) = ''+'' @ k @ [nl] @ v @ [nl]"
| "tcp_text (TDel k) = ''-'' @ k @ [nl]"
| "tcp_text (TClone fk tk) = ''<'' @ fk @ [nl] @ ''>'' @ tk @ [nl]"
| "tcp_text TVacuum = ''*'' @ [nl]"
| "tcp_text TPing = ''PING'' @ [nl]"

text \<open>A key on a line ends in a byte that is not trimmed.\<close>

definition line_key :: "bytes \<Rightarrow> bool" where
  "line_key k \<longleftrightarrow> nl \<notin> set k \<and> (k = [] \<or> printable (last k))"

fun tcp_ok :: "tcp_cmd \<Rightarrow> bool" where
  "tcp_ok (TGet k) \<longleftrightarrow> line_key k"
| "tcp_ok (TSet k v) \<longleftrightarrow> line_key k \<and> k \<noteq> [] \<and> nl \<notin> set v"
| "tcp_ok (TDel k) \<longleftrightarrow> line_key k \<and> k \<noteq> []"
| "tcp_ok (TClone fk tk) \<longleftrightarrow> line_key fk \<and> fk \<noteq> [] \<and> line_key tk \<and> tk \<noteq> []"
| "tcp_ok TVacuum \<longleftrightarrow> True"
| "tcp_ok TPing \<longleftrightarrow> True"

text \<open>What each command is answered and does.\<close>

definition answer :: "cluster_libs \<Rightarrow> cluster_error option \<times> cnode \<Rightarrow> bytes \<times> cnode" where
  "answer K r = map_prod (result_line K) id r"

fun tcp_effect :: "libs \<Rightarrow> cluster_libs \<Rightarrow> outside \<Rightarrow> tcp_cmd \<Rightarrow> cnode \<Rightarrow> bytes \<times> cnode" where
  "tcp_effect L K X (TGet k) n =
     (case Get L k (db_of n) of (v, st) \<Rightarrow> (''$'' @ show_nat (length v) @ [nl] @ v @ [nl], n\<lparr>db_of := st\<rparr>))"
| "tcp_effect L K X (TSet k v) n = answer K (ApplySetRaw L K X k (trim_space (v @ [nl])) n)"
| "tcp_effect L K X (TDel k) n = answer K (ApplyDelete L K X k n)"
| "tcp_effect L K X (TClone fk tk) n = answer K (ApplyClone L K X fk tk n)"
| "tcp_effect L K X TVacuum n = answer K (ApplyVacuum L K X n)"
| "tcp_effect L K X TPing n = (''+PONG'' @ [nl], n)"

fun tcp_session ::
  "libs \<Rightarrow> cluster_libs \<Rightarrow> (nat \<Rightarrow> outside) \<Rightarrow> nat \<Rightarrow> tcp_cmd list \<Rightarrow> cnode \<Rightarrow> bytes list \<times> cnode" where
  "tcp_session L K X i [] n = ([], n)"
| "tcp_session L K X i (x # xs) n =
     (case tcp_effect L K (X i) x n of
        (r, n') \<Rightarrow> (case tcp_session L K X (Suc i) xs n' of (rs, n'') \<Rightarrow> (r # rs, n'')))"

text \<open>What is still to be read, and all that was replied.\<close>

definition stream :: "tconn \<Rightarrow> bytes" where
  "stream c = unread c @ concat (incoming c)"

definition replied :: "tconn \<Rightarrow> bytes" where
  "replied c = concat (replies (trace c))"

abbreviation works :: "nat \<Rightarrow> bool" where
  "works \<equiv> \<lambda>_. True"

lemma send_works: "send_bytes works b c = c\<lparr>trace := trace c @ [Send b]\<rparr>"
  by (simp add: send_bytes_def)

lemma Flush_works:
  "\<not> write_failed c \<Longrightarrow> \<not> write_failed (Flush works c) \<and> stream (Flush works c) = stream c \<and>
    replied (Flush works c) = replied c"
  by (simp add: Flush_def send_works stream_def replied_def Let_def)

lemma drain_works:
  "\<not> write_failed c \<Longrightarrow> \<not> write_failed (drain works p c) \<and> stream (drain works p c) = stream c \<and>
    replied (drain works p c) = replied c"
proof (induction "works" p c rule: drain.induct)
  case (1 p c)
  show ?case
  proof (cases "length p \<le> bufSize")
    case True
    then show ?thesis using 1(2) by (simp add: drain.simps [of works p] stream_def replied_def)
  next
    case False
    then show ?thesis using 1(1) [OF False refl] 1(2)
      by (simp add: drain.simps [of works p] send_works Let_def stream_def replied_def)
  qed
qed

lemma write_works:
  "\<not> write_failed c \<Longrightarrow> \<not> write_failed (write_bytes works b c) \<and> stream (write_bytes works b c) = stream c \<and>
    replied (write_bytes works b c) = replied c @ b"
  using drain_works [of "c\<lparr>trace := trace c @ [Reply b]\<rparr>" "pending c @ b"]
  by (simp add: write_bytes_def stream_def replied_def)

lemma split_at_first: "a @ x # b = c @ x # d \<Longrightarrow> x \<notin> set a \<Longrightarrow> x \<notin> set c \<Longrightarrow> a = c \<and> b = d"
proof (induction a arbitrary: c)
  case Nil
  then show ?case by (cases c) auto
next
  case (Cons y a)
  then show ?case by (cases c) auto
qed

lemma read_bytes_line:
  "buf @ concat inc = line @ nl # rest \<Longrightarrow> nl \<notin> set line \<Longrightarrow>
    \<exists>b i es. read_bytes buf inc = (Some (line @ [nl]), b, i, es) \<and> b @ concat i = rest \<and> replies es = []"
proof (induction inc arbitrary: buf)
  case Nil
  then show ?case by (simp add: read_bytes.simps [of "line @ nl # rest" "[]"] index_byte_append)
next
  case (Cons s ss)
  show ?case
  proof (cases "index_byte nl buf")
    case None
    then show ?thesis using Cons.IH [of "buf @ s"] Cons.prems by (auto simp: read_bytes.simps [of buf])
  next
    case (Some j)
    have j: "j < length buf" "buf ! j = nl" "nl \<notin> set (take j buf)" using index_byte_Some [OF Some] by simp_all
    have "(take j buf @ nl # drop (Suc j) buf) @ concat (s # ss) = line @ nl # rest"
      using Cons.prems(1) index_byte_split [OF Some] by argo
    then have "take j buf @ nl # (drop (Suc j) buf @ concat (s # ss)) = line @ nl # rest"
      by (simp only: append_assoc append_Cons)
    then have "take j buf = line \<and> drop (Suc j) buf @ concat (s # ss) = rest"
      using j(3) Cons.prems(2) by (rule split_at_first)
    moreover have "take (Suc j) buf = take j buf @ [nl]" using j(1,2) by (simp add: take_Suc_conv_app_nth)
    ultimately have "take (Suc j) buf = line @ [nl]" "drop (Suc j) buf @ concat (s # ss) = rest" by simp_all
    then show ?thesis using Some by (simp add: read_bytes.simps [of buf])
  qed
qed

lemma readline_works:
  assumes "stream c = line @ nl # rest" and "nl \<notin> set line" and "\<not> write_failed c"
  obtains c' where "readlineFlush works c = (Some (trim_space (line @ [nl])), c')"
    "stream c' = rest" "replied c' = replied c" "\<not> write_failed c'"
proof -
  define d where "d = (if hasBufferedLine c then c else Flush works c)"
  have d: "stream d = line @ nl # rest" "replied d = replied c" "\<not> write_failed d"
    using Flush_works [OF assms(3)] assms(1,3) by (simp_all add: d_def)
  then obtain b i es where "read_bytes (unread d) (incoming d) = (Some (line @ [nl]), b, i, es)"
    "b @ concat i = rest" "replies es = []"
    using read_bytes_line [of "unread d" "incoming d" line rest] assms(2) by (auto simp: stream_def)
  moreover have "readlineFlush works c = readline d"
    using Flush_works [OF assms(3)] by (simp add: readlineFlush_def d_def Let_def)
  ultimately show thesis
    using d by (intro that [of "d\<lparr>unread := b, incoming := i, trace := trace d @ es\<rparr>"])
      (simp_all add: readline_def stream_def replied_def)
qed

lemma readline_end:
  assumes "stream c = []" and "\<not> write_failed c"
  obtains c' where "readlineFlush works c = (None, c')" "replied c' = replied c" "\<not> write_failed c'"
proof -
  have e: "fst (read_bytes [] inc) = None \<and> replies (snd (snd (snd (read_bytes [] inc)))) = []"
    if "concat inc = []" for inc
    using that by (induction inc) (auto simp: read_bytes.simps split: prod.split)
  have "\<not> hasBufferedLine c" using assms(1) by (simp add: hasBufferedLine_def stream_def)
  moreover have "stream (Flush works c) = []" using Flush_works [OF assms(2)] assms(1) by simp
  moreover have "\<not> write_failed (Flush works c)" "replied (Flush works c) = replied c"
    using Flush_works [OF assms(2)] by simp_all
  ultimately show thesis
    using e [of "incoming (Flush works c)"]
    by (intro that [of "snd (readline (Flush works c))"])
      (auto simp: readlineFlush_def readline_def Let_def stream_def replied_def split: prod.split)
qed

lemma reply_works:
  "\<not> write_failed c \<Longrightarrow> \<not> write_failed (writelines works l c) \<and> stream (writelines works l c) = stream c \<and>
    replied (writelines works l c) = replied c @ l"
  "\<not> write_failed c \<Longrightarrow> \<not> write_failed (writeBulk works v c) \<and> stream (writeBulk works v c) = stream c \<and>
    replied (writeBulk works v c) = replied c @ ''$'' @ show_nat (length v) @ [nl] @ v @ [nl]"
  by (simp_all add: writelines_def writeBulk_def write_works)

lemma line_trim: "printable x \<Longrightarrow> k = [] \<or> printable (last k) \<Longrightarrow> trim_space ((x # k) @ [nl]) = x # k"
  by (rule trim_line) auto

text \<open>Finishing a command with an answer.\<close>

lemma answer_works:
  assumes "\<not> write_failed c"
  shows "\<exists>c2. (case r of (err, n') \<Rightarrow>
      (\<not> write_failed (writeResult_tcp works K err c), writeResult_tcp works K err c, n')) = (True, c2, snd (answer K r)) \<and>
    stream c2 = stream c \<and> replied c2 = replied c @ fst (answer K r) \<and> \<not> write_failed c2"
  using reply_works(1) [OF assms] by (cases r) (simp add: writeResult_tcp_def answer_def)

lemma first_line:
  assumes "stream c = (x # k) @ nl # rest" and "nl \<notin> set (x # k)" "printable x" "k = [] \<or> printable (last k)"
    and "\<not> write_failed c"
  obtains c' where "readlineFlush works c = (Some (x # k), c')" "stream c' = rest" "replied c' = replied c"
    "\<not> write_failed c'"
  using readline_works [OF assms(1,2,5)] line_trim [OF assms(3,4)] by metis

lemma command_round:
  assumes "tcp_ok x" and "stream c = tcp_text x @ rest" and "\<not> write_failed c"
  shows "\<exists>l c1 c2. readlineFlush works c = (Some l, c1) \<and> l \<noteq> [] \<and>
    handle_command L K X works l c1 n = (True, c2, snd (tcp_effect L K X x n)) \<and>
    stream c2 = rest \<and> replied c2 = replied c @ fst (tcp_effect L K X x n) \<and> \<not> write_failed c2"
proof (cases x)
  case (TGet k)
  then obtain c1 where c1: "readlineFlush works c = (Some (CHR ''='' # k), c1)" "stream c1 = rest"
    "replied c1 = replied c" "\<not> write_failed c1"
    using first_line [of c "CHR ''=''" k rest] assms by (auto simp: line_key_def printable_def)
  then show ?thesis using TGet reply_works(2) [OF c1(4)]
    by (auto simp: handle_command_def Let_def split: prod.split)
next
  case (TSet k v)
  then obtain c1 where c1: "readlineFlush works c = (Some (CHR ''+'' # k), c1)" "stream c1 = v @ nl # rest"
    "replied c1 = replied c" "\<not> write_failed c1"
    using first_line [of c "CHR ''+''" k "v @ nl # rest"] assms by (auto simp: line_key_def printable_def)
  obtain c2 where c2: "readlineFlush works c1 = (Some (trim_space (v @ [nl])), c2)" "stream c2 = rest"
    "replied c2 = replied c1" "\<not> write_failed c2"
    using readline_works [OF c1(2) _ c1(4)] assms(1) TSet by auto
  show ?thesis using TSet assms(1) c1 c2 answer_works [OF c2(4), of K "ApplySetRaw L K X k (trim_space (v @ [nl])) n"]
    by (auto simp: handle_command_def Let_def)
next
  case (TDel k)
  then obtain c1 where c1: "readlineFlush works c = (Some (CHR ''-'' # k), c1)" "stream c1 = rest"
    "replied c1 = replied c" "\<not> write_failed c1"
    using first_line [of c "CHR ''-''" k rest] assms by (auto simp: line_key_def printable_def)
  then show ?thesis using TDel assms(1) answer_works [OF c1(4), of K "ApplyDelete L K X k n"]
    by (auto simp: handle_command_def Let_def)
next
  case (TClone fk tk)
  then obtain c1 where c1: "readlineFlush works c = (Some (CHR ''<'' # fk), c1)" "stream c1 = (CHR ''>'' # tk) @ nl # rest"
    "replied c1 = replied c" "\<not> write_failed c1"
    using first_line [of c "CHR ''<''" fk "(CHR ''>'' # tk) @ nl # rest"] assms
    by (auto simp: line_key_def printable_def)
  obtain c2 where c2: "readlineFlush works c1 = (Some (CHR ''>'' # tk), c2)" "stream c2 = rest"
    "replied c2 = replied c1" "\<not> write_failed c2"
    using first_line [OF c1(2) _ _ _ c1(4)] assms(1) TClone by (auto simp: line_key_def printable_def)
  show ?thesis using TClone assms(1) c1 c2 answer_works [OF c2(4), of K "ApplyClone L K X fk tk n"]
    by (auto simp: handle_command_def Let_def Suc_le_eq)
next
  case TVacuum
  then obtain c1 where c1: "readlineFlush works c = (Some ''*'', c1)" "stream c1 = rest"
    "replied c1 = replied c" "\<not> write_failed c1"
    using first_line [of c "CHR ''*''" "[]" rest] assms by (auto simp: printable_def)
  then show ?thesis using TVacuum answer_works [OF c1(4), of K "ApplyVacuum L K X n"]
    by (auto simp: handle_command_def Let_def)
next
  case TPing
  then obtain c1 where c1: "readlineFlush works c = (Some ''PING'', c1)" "stream c1 = rest"
    "replied c1 = replied c" "\<not> write_failed c1"
    using first_line [of c "CHR ''P''" "''ING''" rest] assms by (auto simp: printable_def)
  then show ?thesis using TPing reply_works(1) [OF c1(4)]
    by (auto simp: handle_command_def Let_def EqualFold_PING_def upper_def)
qed

lemma session_works:
  "list_all tcp_ok xs \<Longrightarrow> stream c = concat (map tcp_text xs) \<Longrightarrow> \<not> write_failed c \<Longrightarrow>
    \<not> write_failed (fst (handle_loop L K X works (\<lambda>_. False) i c n)) \<and>
    replied (fst (handle_loop L K X works (\<lambda>_. False) i c n)) = replied c @ concat (fst (tcp_session L K X i xs n)) \<and>
    snd (handle_loop L K X works (\<lambda>_. False) i c n) = snd (tcp_session L K X i xs n)"
proof (induction xs arbitrary: i c n)
  case Nil
  then obtain c' where "readlineFlush works c = (None, c')" "replied c' = replied c" "\<not> write_failed c'"
    by (auto elim: readline_end)
  then show ?case by (simp add: handle_loop.simps [of L K X works _ i])
next
  case (Cons x xs)
  then obtain l c1 c2 where r: "readlineFlush works c = (Some l, c1)" "l \<noteq> []"
    "handle_command L K (X i) works l c1 n = (True, c2, snd (tcp_effect L K (X i) x n))"
    "stream c2 = concat (map tcp_text xs)" "replied c2 = replied c @ fst (tcp_effect L K (X i) x n)" "\<not> write_failed c2"
    using command_round [of x c "concat (map tcp_text xs)" L K "X i" n] by auto
  have "handle_loop L K X works (\<lambda>_. False) i c n =
      handle_loop L K X works (\<lambda>_. False) (Suc i) c2 (snd (tcp_effect L K (X i) x n))"
    using r(1-3) by (simp add: handle_loop.simps [of L K X works "\<lambda>_. False" i])
  then show ?case
    using Cons.IH [OF _ r(4,6), of "Suc i"] Cons.prems(1) r(5)
    by (cases "tcp_effect L K (X i) x n"; cases "tcp_session L K X (Suc i) xs (snd (tcp_effect L K (X i) x n))") simp
qed

text \<open>C14. Whatever pieces the commands of a client arrive in, several at once or one in many, the
  bytes it gets are the answers to its commands, one for each and in their order, and the node
  is left as the commands leave it one after the other.\<close>

theorem session_replies:
  assumes "list_all tcp_ok xs" and "concat inc = concat (map tcp_text xs)"
    and "handle L K X works (\<lambda>_. False) inc n = (c, n')"
  shows "concat (sends (trace c)) = concat (fst (tcp_session L K X 0 xs n)) \<and> n' = snd (tcp_session L K X 0 xs n)"
proof -
  let ?r = "handle_loop L K X works (\<lambda>_. False) 0 (new_tconn inc) n"
  have "stream (new_tconn inc) = concat (map tcp_text xs)" "\<not> write_failed (new_tconn inc)" "replied (new_tconn inc) = []"
    using assms(2) by (simp_all add: stream_def new_tconn_def replied_def)
  then have s: "\<not> write_failed (fst ?r)" "replied (fst ?r) = concat (fst (tcp_session L K X 0 xs n))" "snd ?r = snd (tcp_session L K X 0 xs n)"
    using session_works [OF assms(1), of "new_tconn inc" L K X 0 n] by simp_all
  have c: "c = Flush works (fst ?r)" "n' = snd ?r" using assms(3) by (auto simp: handle_def split: prod.splits)
  have ok: "conn_ok (fst ?r)" by (rule handle_loop_ok [OF conn_ok_new])
  show ?thesis using s c ok by (simp add: Flush_def send_works Let_def conn_ok_def replied_def)
qed

theorem session_replies_witness:
  "concat (sends (trace (fst (handle cluster_sample_libs cluster_codec (\<lambda>_. quiet) (\<lambda>_. True) (\<lambda>_. False)
     [''PI'', ''NG'' @ [nl]] sample_node)))) = ''+PONG'' @ [nl]"
proof -
  obtain c n where "handle cluster_sample_libs cluster_codec (\<lambda>_. quiet) works (\<lambda>_. False) [''PI'', ''NG'' @ [nl]] sample_node = (c, n)"
    by fastforce
  from this session_replies [OF _ _ this, of "[TPing]"] show ?thesis by simp
qed

end
