(* ===== verification/TcpLines.thy ===== *)
theory TcpLines
  imports TcpProps StoreProps
begin

text \<open>
  What a client can send cannot break the log: whatever bytes arrive on a connection of the line
  protocol, in whatever pieces, every record that is queued keeps to its own lines.
\<close>

subsection \<open>Lines\<close>

lemma trim_left_suffix: "\<exists>t. s = t @ trim_left s"
proof -
  have one: "\<exists>t. u = t @ strip_one has_prefix trim_prefix u" for u
    by (auto simp: strip_one_def trim_prefix_def has_prefix_iff split: option.split)
  have "\<exists>t. s = t @ (strip_one has_prefix trim_prefix ^^ n) s" for n
  proof (induction n)
    case (Suc n)
    then show ?case using one [of "(strip_one has_prefix trim_prefix ^^ n) s"]
      by (metis append.assoc comp_apply funpow.simps(2))
  qed simp
  then show ?thesis by (simp add: trim_left_def)
qed

lemma trim_right_end: "trim_right s \<noteq> t @ [nl]"
  using strip_newline [of t] strip_trimmed(2) [of s] by (metis append_self_conv not_Cons_self2)

lemma trimmed_line: "one_line l \<Longrightarrow> one_line (trim_space (l @ [nl]))"
proof -
  assume l: "one_line l"
  let ?t = "trim_space (l @ [nl])"
  obtain u where u: "l @ [nl] = u @ trim_left (l @ [nl])" using trim_left_suffix by blast
  obtain v where v: "trim_left (l @ [nl]) = ?t @ v"
    using trim_right_prefix [of "trim_left (l @ [nl])"] by (auto simp: trim_space_def)
  have split: "l @ [nl] = (u @ ?t) @ v" using u v by (metis append.assoc)
  show "one_line ?t"
  proof (cases v rule: rev_cases)
    case Nil
    then have "?t = [] \<or> (\<exists>t. ?t = t @ [nl])"
      using split by (cases ?t rule: rev_cases) (auto dest: arg_cong [where f = "last"])
    then show ?thesis using trim_right_end unfolding trim_space_def by fastforce
  next
    case (snoc w x)
    have "l @ [nl] = ((u @ ?t) @ w) @ [x]" using split unfolding snoc by (simp only: append_assoc)
    then have "l = (u @ ?t) @ w" unfolding append1_eq_conv by (rule conjunct1)
    then show ?thesis using l by (metis one_line_append)
  qed
qed

lemma read_bytes_one_line:
  "read_bytes buf inc = (Some l, b, i, es) \<Longrightarrow> \<exists>k. l = k @ [nl] \<and> one_line k"
proof (induction inc arbitrary: buf es)
  case Nil
  then show ?case using index_byte_Some [of nl buf]
    by (auto simp: read_bytes.simps [of buf] one_line_def take_Suc_conv_app_nth split: option.splits)
next
  case (Cons s ss)
  then show ?case using index_byte_Some [of nl buf]
    by (auto simp: read_bytes.simps [of buf] one_line_def take_Suc_conv_app_nth split: option.splits prod.splits)
qed

lemma readlineFlush_line: "readlineFlush ok c = (Some l, c') \<Longrightarrow> one_line l"
  using read_bytes_one_line trimmed_line
  by (fastforce simp: readlineFlush_def readline_def Let_def split: if_splits prod.splits)

subsection \<open>Commands\<close>

text \<open>A node on its own, whose document is well formed and whose records keep to their lines.\<close>

definition standalone :: "cnode \<Rightarrow> bool" where
  "standalone n \<longleftrightarrow> \<not> enabled (mgr n) \<or> \<not> has_raft (mgr n)"

definition node_lines :: "cnode \<Rightarrow> bool" where
  "node_lines n \<longleftrightarrow> standalone n \<and> store_ok (db_of n) \<and> store_lines (db_of n)"

lemma notify_keeps [simp]: "db_of (notifyLocalWrite K c n) = db_of n" "mgr (notifyLocalWrite K c n) = mgr n"
  by (simp_all add: notifyLocalWrite_def call_hook_def split: option.split)

lemma apply_local_store:
  assumes "standalone n"
  shows "db_of (snd (apply_command L K X c n)) = snd (applyLocal L c (db_of n)) \<and>
    mgr (snd (apply_command L K X c n)) = mgr n"
  using assms by (auto simp: apply_command_def standalone_def Let_def split: prod.split option.split)

lemma apply_raw_store:
  assumes "standalone n"
  shows "db_of (snd (ApplySetRaw L K X k raw n)) = snd (SetRaw L k raw (db_of n)) \<and>
    mgr (snd (ApplySetRaw L K X k raw n)) = mgr n"
  using assms
  by (cases "SetRaw L k raw (db_of n)")
    (auto simp: ApplySetRaw_def standalone_def call_hook_def db_result_def Let_def split: option.split)

lemma standalone_keeps: "mgr n' = mgr n \<Longrightarrow> standalone n' = standalone n"
  by (simp add: standalone_def)

lemma vacuum_lines: "store_lines st \<Longrightarrow> store_lines (Vacuum st)"
  by (simp add: Vacuum_def append_lines)

lemma applies_keep_lines:
  assumes P: "parser_keeps_lines (gjsonParse L)" and n: "node_lines n" and k: "one_line k"
  shows "node_lines (snd (ApplySetRaw L K X k raw n))" "node_lines (snd (ApplyDelete L K X k n))"
    "node_lines (snd (ApplyClone L K X fk k n))" "node_lines (snd (ApplyVacuum L K X n))"
proof -
  have st: "standalone n" "store_ok (db_of n)" "store_lines (db_of n)" using n by (simp_all add: node_lines_def)
  show "node_lines (snd (ApplySetRaw L K X k raw n))"
    using st apply_raw_store [OF st(1), of L K X k raw] standalone_keeps SetRaw_ok [OF st(2)] SetRaw_lines [OF P st(2,3) k]
    by (metis node_lines_def)
  have c: "node_lines (snd (apply_command L K X c n))"
    if "store_ok (snd (applyLocal L c (db_of n)))" "store_lines (snd (applyLocal L c (db_of n)))" for c
    using st(1) that apply_local_store [OF st(1), of L K X c] standalone_keeps by (metis node_lines_def)
  show "node_lines (snd (ApplyDelete L K X k n))"
    unfolding ApplyDelete_def using Del_ok [OF st(2)] Del_lines [OF st(2,3) k]
    by (intro c) (simp_all add: applyLocal_def no_command_def db_result_def)
  show "node_lines (snd (ApplyClone L K X fk k n))"
    unfolding ApplyClone_def using Clone_ok [OF st(2)] Clone_lines [OF P st(2,3) k]
    by (intro c) (simp_all add: applyLocal_def no_command_def db_result_def)
  show "node_lines (snd (ApplyVacuum L K X n))"
    unfolding ApplyVacuum_def using st vacuum_lines
    by (intro c) (simp_all add: applyLocal_def no_command_def Vacuum_def)
qed

lemma drop_line: "one_line l \<Longrightarrow> one_line (drop i l)"
  by (auto simp: one_line_def dest: in_set_dropD)

lemma get_lines: "node_lines n \<Longrightarrow> Get L k (db_of n) = (v, st) \<Longrightarrow> node_lines (n\<lparr>db_of := st\<rparr>)"
proof -
  assume n: "node_lines n" and g: "Get L k (db_of n) = (v, st)"
  have "persists st = persists (db_of n)"
    using g by (auto simp: Get_def snapshot_def Let_def split: if_splits option.splits node.splits prod.splits)
  then show "node_lines (n\<lparr>db_of := st\<rparr>)"
    using n g Get_keeps [of L k "db_of n"]
    by (simp add: node_lines_def standalone_def store_ok_def store_lines_def document_def)
qed

lemma handle_command_lines:
  assumes "parser_keeps_lines (gjsonParse L)" "node_lines n" "one_line l"
    and "handle_command L K X ok l c n = (go, c', n')"
  shows "node_lines n'"
proof -
  note keep = applies_keep_lines [OF assms(1,2), of _ K X]
  have arg: "one_line (drop 1 l)" by (rule drop_line [OF assms(3)])
  have tk: "one_line (drop 1 t)" if "readlineFlush ok c = (Some t, c1)" for t c1
    by (rule drop_line [OF readlineFlush_line [OF that]])
  show ?thesis
    using assms(2,4) keep [OF arg] tk keep(3) get_lines [OF assms(2)]
    by (auto simp: handle_command_def Let_def simp del: drop_Suc_Cons split: if_splits prod.splits option.splits)
      (metis snd_conv)+
qed

lemma handle_loop_lines:
  assumes P: "parser_keeps_lines (gjsonParse L)"
  shows "node_lines n \<Longrightarrow> node_lines (snd (handle_loop L K X ok stops i c n))"
  using P
proof (induction L K X ok stops i c n rule: handle_loop.induct)
  case (1 L K X ok stops i c n)
  obtain r c1 where r: "readlineFlush ok c = (r, c1)" by fastforce
  show ?case
  proof (cases "stops i \<or> r = None")
    case True
    then show ?thesis using 1(3) r by (auto simp: handle_loop.simps [of L K X ok stops i])
  next
    case False
    then obtain l where l: "\<not> stops i" "r = Some l" by auto
    obtain go c2 n' where h: "handle_command L K (X i) ok l c1 n = (go, c2, n')" by (metis prod_cases3)
    have "one_line l" using readlineFlush_line r l(2) by blast
    then have "node_lines n'" using handle_command_lines [OF 1(4,3) _ h] by blast
    then show ?thesis
      using 1(1) [OF l(1) r [symmetric] l(2) _ 1(3,4)] 1(2) [OF l(1) r [symmetric] l(2) _ h [symmetric] refl _ _ 1(4)] l r h
      by (simp add: handle_loop.simps [of L K X ok stops i])
  qed
qed

text \<open>C16. Whatever bytes a client sends over the line protocol to a node on its own, in whatever
  pieces, and wherever the connection breaks: afterwards every record queued for the log keeps to
  its own lines, and no text of the document holds a newline, so that no client can put a record of
  its own making into the log or spoil one of another's.\<close>

theorem no_client_breaks_the_log:
  assumes "parser_keeps_lines (gjsonParse L)" and "standalone n"
    and "store_ok (db_of n)" "lines_of (document (db_of n))" "list_all row_lines (persists (db_of n))"
    and "handle L K X ok stops inc n = (c, n')"
  shows "list_all row_lines (persists (db_of n')) \<and> nl \<notin> set (doc_text (document (db_of n')))"
proof -
  have "node_lines n" using assms(2-5) by (simp add: node_lines_def store_lines_def)
  then have "node_lines n'"
    using handle_loop_lines [OF assms(1), of n K X ok stops 0 "new_tconn inc"] assms(6)
    by (auto simp: handle_def split: prod.splits)
  then show ?thesis using doc_text_line by (auto simp: node_lines_def store_lines_def one_line_def)
qed

definition tcp_sample_node :: cnode where
  "tcp_sample_node = \<lparr>mgr = no_manager, db_of = init_store, localWriteHook = False, hooked = []\<rparr>"

theorem no_client_breaks_the_log_witness:
  "list_all row_lines (persists (db_of (snd (handle sample_libs cluster_codec (\<lambda>_. quiet) (\<lambda>_. True) (\<lambda>_. False)
     [''+k'' @ [nl] @ ''tr'', ''ue'' @ [nl] @ ''-k'' @ [nl]] tcp_sample_node))))"
proof -
  obtain c n where h: "handle sample_libs cluster_codec (\<lambda>_. quiet) (\<lambda>_. True) (\<lambda>_. False)
     [''+k'' @ [nl] @ ''tr'', ''ue'' @ [nl] @ ''-k'' @ [nl]] tcp_sample_node = (c, n)" by fastforce
  have "standalone tcp_sample_node" by (simp add: tcp_sample_node_def standalone_def no_manager_def)
  moreover have "db_of tcp_sample_node = init_store" by (simp add: tcp_sample_node_def)
  ultimately show ?thesis
    using no_client_breaks_the_log [OF sample_lines(1) _ _ _ _ h] h store_ok_init init_lines
    by (simp add: store_lines_def)
qed

end
