(* ===== verification/TcpServer.thy ===== *)
theory TcpServer
  imports TcpApi
begin

text \<open>
  The server of \<open>internal/tcpapi/server.go\<close> as a state machine: \<open>Listen\<close> accepting connections,
  one goroutine for each of them, and \<open>Shutdown\<close>, all running side by side. What a goroutine
  does with its connection is \<open>handle\<close> of theory \<open>TcpApi\<close>; here it is where its loop stands, and
  the flag it tests is the \<open>stops\<close> of \<open>handle_loop\<close>.
\<close>

subsection \<open>The server\<close>

text \<open>
  Where \<open>Listen\<close> stands: not called; listening, before \<open>p.listener\<close> is set; at the test of its
  loop; in \<open>AcceptTCP\<close>; in \<open>wg.Wait\<close>; in its deferred function, before and after \<open>p.listener\<close>
  is cleared; returned. The flag of the last ones says whether it returns an error.
\<close>

datatype listen_pc = NotListening | Opened | AtLoop | Accepting | Waiting | Clearing bool | ClosingSocket bool | Returned bool

text \<open>\<open>Shutdown\<close>: not called, between setting the flag and taking the lock, done.\<close>

datatype shutdown_pc = NotShut | FlagSet | ShutDone

text \<open>A goroutine: at the test of its loop, in a command or waiting for one, out of the loop, its
  connection closed, and past \<open>wg.Done\<close>.\<close>

datatype handler_pc = Testing | Serving | Leaving | ConnClosed | Ended

record tcp_server =
  exit_flag :: bool
  has_listener :: bool
  socket_open :: bool
  wg_count :: nat
  listen_at :: listen_pc
  shut_at :: shutdown_pc
  handlers :: "handler_pc list"

definition New_server :: tcp_server where
  "New_server = \<lparr>exit_flag = False, has_listener = False, socket_open = False, wg_count = 0,
     listen_at = NotListening, shut_at = NotShut, handlers = []\<rparr>"

subsection \<open>Steps\<close>

inductive listen_step :: "tcp_server \<Rightarrow> tcp_server \<Rightarrow> bool" where
  listening: "listen_at s = NotListening \<Longrightarrow> listen_step s (s\<lparr>listen_at := Opened, socket_open := True\<rparr>)"
| not_listening: "listen_at s = NotListening \<Longrightarrow> listen_step s (s\<lparr>listen_at := Returned True\<rparr>)"
| published: "listen_at s = Opened \<Longrightarrow> listen_step s (s\<lparr>listen_at := AtLoop, has_listener := True\<rparr>)"
| go_on: "listen_at s = AtLoop \<Longrightarrow> \<not> exit_flag s \<Longrightarrow> listen_step s (s\<lparr>listen_at := Accepting\<rparr>)"
| leave: "listen_at s = AtLoop \<Longrightarrow> exit_flag s \<Longrightarrow> listen_step s (s\<lparr>listen_at := Waiting\<rparr>)"
| accepted: "listen_at s = Accepting \<Longrightarrow> socket_open s \<Longrightarrow>
    listen_step s (s\<lparr>listen_at := AtLoop, wg_count := wg_count s + 1, handlers := handlers s @ [Testing]\<rparr>)"
| accept_stopped: "listen_at s = Accepting \<Longrightarrow> exit_flag s \<Longrightarrow> listen_step s (s\<lparr>listen_at := Waiting\<rparr>)"
| accept_failed: "listen_at s = Accepting \<Longrightarrow> \<not> exit_flag s \<Longrightarrow> listen_step s (s\<lparr>listen_at := Clearing True\<rparr>)"
| waited: "listen_at s = Waiting \<Longrightarrow> wg_count s = 0 \<Longrightarrow> listen_step s (s\<lparr>listen_at := Clearing False\<rparr>)"
| cleared: "listen_at s = Clearing e \<Longrightarrow> listen_step s (s\<lparr>listen_at := ClosingSocket e, has_listener := False\<rparr>)"
| socket_closed: "listen_at s = ClosingSocket e \<Longrightarrow> listen_step s (s\<lparr>listen_at := Returned e, socket_open := False\<rparr>)"

inductive shutdown_step :: "tcp_server \<Rightarrow> tcp_server \<Rightarrow> bool" where
  flagged: "shut_at s = NotShut \<Longrightarrow> shutdown_step s (s\<lparr>exit_flag := True, shut_at := FlagSet\<rparr>)"
| shut: "shut_at s = FlagSet \<Longrightarrow>
    shutdown_step s (s\<lparr>socket_open := (if has_listener s then False else socket_open s), shut_at := ShutDone\<rparr>)"

text \<open>
  The goroutine of one connection. A command can be followed by another; it can also end the
  loop, when the connection fails or is at its end. A goroutine that waits for a command stays
  there until the client sends one or closes.
\<close>

inductive handler_step :: "tcp_server \<Rightarrow> tcp_server \<Rightarrow> bool" where
  serve: "i < length (handlers s) \<Longrightarrow> handlers s ! i = Testing \<Longrightarrow> \<not> exit_flag s \<Longrightarrow>
    handler_step s (s\<lparr>handlers := (handlers s)[i := Serving]\<rparr>)"
| stop: "i < length (handlers s) \<Longrightarrow> handlers s ! i = Testing \<Longrightarrow> exit_flag s \<Longrightarrow>
    handler_step s (s\<lparr>handlers := (handlers s)[i := Leaving]\<rparr>)"
| served: "i < length (handlers s) \<Longrightarrow> handlers s ! i = Serving \<Longrightarrow>
    handler_step s (s\<lparr>handlers := (handlers s)[i := Testing]\<rparr>)"
| broke: "i < length (handlers s) \<Longrightarrow> handlers s ! i = Serving \<Longrightarrow>
    handler_step s (s\<lparr>handlers := (handlers s)[i := Leaving]\<rparr>)"
| conn_closed: "i < length (handlers s) \<Longrightarrow> handlers s ! i = Leaving \<Longrightarrow>
    handler_step s (s\<lparr>handlers := (handlers s)[i := ConnClosed]\<rparr>)"
| wg_done: "i < length (handlers s) \<Longrightarrow> handlers s ! i = ConnClosed \<Longrightarrow>
    handler_step s (s\<lparr>handlers := (handlers s)[i := Ended], wg_count := wg_count s - 1\<rparr>)"

definition server_step :: "tcp_server \<Rightarrow> tcp_server \<Rightarrow> bool" where
  "server_step s s' \<longleftrightarrow> listen_step s s' \<or> shutdown_step s s' \<or> handler_step s s'"

lemmas server_step_cases = listen_step.cases shutdown_step.cases handler_step.cases
lemmas server_step_intros = listen_step.intros shutdown_step.intros handler_step.intros

subsection \<open>The invariant\<close>

definition running :: "handler_pc list \<Rightarrow> nat" where
  "running hs = length (filter (\<lambda>h. h \<noteq> Ended) hs)"

text \<open>
  The count is that of the goroutines not past \<open>wg.Done\<close>; the listener is known between the
  first and the last step of the loop; the flag is set by \<open>Shutdown\<close> alone, and once that is
  done the socket of a known listener is closed.
\<close>

definition server_inv :: "tcp_server \<Rightarrow> bool" where
  "server_inv s \<longleftrightarrow>
     wg_count s = running (handlers s) \<and>
     (has_listener s \<longleftrightarrow> (case listen_at s of NotListening \<Rightarrow> False | Opened \<Rightarrow> False | ClosingSocket _ \<Rightarrow> False
        | Returned _ \<Rightarrow> False | _ \<Rightarrow> True)) \<and>
     (listen_at s = NotListening \<or> (\<exists>e. listen_at s = Returned e) \<longrightarrow> \<not> socket_open s) \<and>
     (exit_flag s \<longleftrightarrow> shut_at s \<noteq> NotShut) \<and>
     (shut_at s = ShutDone \<longrightarrow> listen_at s = Accepting \<longrightarrow> \<not> socket_open s) \<and>
     (listen_at s \<in> {Clearing False, ClosingSocket False, Returned False} \<longrightarrow> running (handlers s) = 0) \<and>
     (listen_at s = Waiting \<longrightarrow> exit_flag s)"

lemma handler_split:
  assumes "i < length hs"
  obtains a b where "hs = a @ hs ! i # b" and "\<And>h. hs[i := h] = a @ h # b"
  using that [of "take i hs" "drop (Suc i) hs"] id_take_nth_drop [OF assms] upd_conv_take_nth_drop [OF assms]
  by metis

lemma running_update:
  assumes "i < length hs" and "hs ! i \<noteq> Ended"
  shows "0 < running hs" and "running (hs[i := h]) = (if h = Ended then running hs - 1 else running hs)"
proof -
  obtain a b where hs: "hs = a @ hs ! i # b" and upd: "\<And>h. hs[i := h] = a @ h # b"
    using handler_split [OF assms(1)] by blast
  have "running hs = running (a @ hs ! i # b)" using hs by simp
  then show "0 < running hs" "running (hs[i := h]) = (if h = Ended then running hs - 1 else running hs)"
    using assms(2) by (simp_all add: running_def upd)
qed

lemma running_append [simp]: "running (hs @ [h]) = running hs + (if h = Ended then 0 else 1)"
  by (simp add: running_def)

lemma running_zero: "running hs = 0 \<longleftrightarrow> set hs \<subseteq> {Ended}"
  by (auto simp: running_def filter_empty_conv)

lemma listen_inv: "listen_step s s' \<Longrightarrow> server_inv s \<Longrightarrow> server_inv s'"
  by (induction rule: listen_step.induct) (auto simp: server_inv_def)

lemma shutdown_inv: "shutdown_step s s' \<Longrightarrow> server_inv s \<Longrightarrow> server_inv s'"
  by (induction rule: shutdown_step.induct) (auto simp: server_inv_def split: listen_pc.splits)

lemma handler_inv: "handler_step s s' \<Longrightarrow> server_inv s \<Longrightarrow> server_inv s'"
  by (induction rule: handler_step.induct) (auto simp: server_inv_def running_update)

lemma reachable_inv: "server_step\<^sup>*\<^sup>* New_server s \<Longrightarrow> server_inv s"
proof (induction rule: rtranclp_induct)
  case base
  show ?case by (simp add: server_inv_def New_server_def running_def)
next
  case (step s s')
  then show ?case unfolding server_step_def using listen_inv shutdown_inv handler_inv by blast
qed

subsection \<open>Shutting down\<close>

text \<open>How many more steps can be taken once \<open>Shutdown\<close> is done.\<close>

fun handler_left :: "handler_pc \<Rightarrow> nat" where
  "handler_left Serving = 4"
| "handler_left Testing = 3"
| "handler_left Leaving = 2"
| "handler_left ConnClosed = 1"
| "handler_left Ended = 0"

fun listen_left :: "listen_pc \<Rightarrow> nat" where
  "listen_left NotListening = 6"
| "listen_left Opened = 5"
| "listen_left AtLoop = 4"
| "listen_left Accepting = 4"
| "listen_left Waiting = 3"
| "listen_left (Clearing _) = 2"
| "listen_left (ClosingSocket _) = 1"
| "listen_left (Returned _) = 0"

definition steps_left :: "tcp_server \<Rightarrow> nat" where
  "steps_left s = listen_left (listen_at s) + sum_list (map handler_left (handlers s))"

lemma sum_left_update:
  assumes "i < length hs" and "handler_left h < handler_left (hs ! i)"
  shows "sum_list (map handler_left (hs[i := h])) < sum_list (map handler_left hs)"
proof -
  obtain a b where "hs = a @ hs ! i # b" and "\<And>h. hs[i := h] = a @ h # b"
    using handler_split [OF assms(1)] by blast
  then have "sum_list (map handler_left hs) = sum_list (map handler_left (a @ hs ! i # b))"
    "hs[i := h] = a @ h # b" by simp_all
  then show ?thesis using assms(2) by simp
qed

lemma listen_left_bound: "listen_left l \<le> 6"
  by (cases l) simp_all

lemma steps_left_bound: "steps_left s \<le> 4 * length (handlers s) + 6"
proof -
  have "sum_list (map handler_left hs) \<le> 4 * length hs" for hs
  proof (induction hs)
    case (Cons h hs)
    then show ?case by (cases h) simp_all
  qed simp
  then show ?thesis using listen_left_bound [of "listen_at s"] by (simp add: steps_left_def add.commute add_mono)
qed

lemma listen_counts_down:
  "listen_step s s' \<Longrightarrow> exit_flag s \<Longrightarrow> listen_at s = Accepting \<longrightarrow> \<not> socket_open s \<Longrightarrow>
    listen_left (listen_at s') < listen_left (listen_at s) \<and> shut_at s' = shut_at s \<and> handlers s' = handlers s"
  by (induction rule: listen_step.induct) simp_all

lemma handlers_count_down:
  "handler_step s s' \<Longrightarrow> exit_flag s \<Longrightarrow>
    sum_list (map handler_left (handlers s')) < sum_list (map handler_left (handlers s)) \<and>
    listen_at s' = listen_at s \<and> shut_at s' = shut_at s \<and> length (handlers s') = length (handlers s)"
  by (induction rule: handler_step.induct) (simp_all add: sum_left_update)

lemma shut_step:
  assumes "server_step s s'" and "server_inv s" and "shut_at s = ShutDone"
  shows "steps_left s' < steps_left s \<and> shut_at s' = ShutDone \<and> length (handlers s') = length (handlers s)"
proof -
  have "exit_flag s" "listen_at s = Accepting \<longrightarrow> \<not> socket_open s" "\<not> shutdown_step s s'"
    using assms(2,3) by (auto simp: server_inv_def elim: shutdown_step.cases)
  then show ?thesis using assms(1,3) listen_counts_down [of s s'] handlers_count_down [of s s']
    by (auto simp: server_step_def steps_left_def)
qed

lemma stuck_server:
  assumes "\<And>t. \<not> server_step s t" and "server_inv s" and "exit_flag s"
  shows "(\<exists>e. listen_at s = Returned e) \<and> running (handlers s) = 0 \<and> \<not> socket_open s"
proof -
  have no: "\<not> listen_step s t" "\<not> handler_step s t" for t using assms(1) by (auto simp: server_step_def)
  have "handlers s ! i = Ended" if i: "i < length (handlers s)" for i
  proof (cases "handlers s ! i")
    case Testing
    then show ?thesis using handler_step.stop [OF i] assms(3) no(2) by blast
  next
    case Serving
    then show ?thesis using handler_step.served [OF i] no(2) by blast
  next
    case Leaving
    then show ?thesis using handler_step.conn_closed [OF i] no(2) by blast
  next
    case ConnClosed
    then show ?thesis using handler_step.wg_done [OF i] no(2) by blast
  qed
  then have r: "running (handlers s) = 0" unfolding running_zero by (metis in_set_conv_nth insertCI subsetI)
  have "\<exists>e. listen_at s = Returned e"
    using listen_step.intros [of s] no(1) assms(2,3) r by (cases "listen_at s") (auto simp: server_inv_def)
  then show ?thesis using r assms(2) by (auto simp: server_inv_def)
qed


text \<open>A server with one connection, on which a command is waited for when \<open>Shutdown\<close> is called.\<close>

definition at_shutdown :: tcp_server where
  "at_shutdown = \<lparr>exit_flag = True, has_listener = True, socket_open = False, wg_count = 1,
     listen_at = Accepting, shut_at = ShutDone, handlers = [Serving]\<rparr>"

definition drained :: tcp_server where
  "drained = \<lparr>exit_flag = True, has_listener = False, socket_open = False, wg_count = 0,
     listen_at = Returned False, shut_at = ShutDone, handlers = [Ended]\<rparr>"

lemma server_stepI: "listen_step s s' \<Longrightarrow> server_step s s'" "shutdown_step s s' \<Longrightarrow> server_step s s'"
    "handler_step s s' \<Longrightarrow> server_step s s'"
  by (simp_all add: server_step_def)

lemma at_shutdown_reached: "server_step\<^sup>*\<^sup>* New_server at_shutdown"
proof -
  let ?s = "\<lambda>l so hl w hs. \<lparr>exit_flag = False, has_listener = hl, socket_open = so, wg_count = w, listen_at = l,
    shut_at = NotShut, handlers = hs\<rparr>"
  have "server_step New_server (?s Opened True False 0 [])"
    using server_stepI(1) [OF listening [of New_server]] by (simp add: New_server_def)
  moreover have "server_step (?s Opened True False 0 []) (?s AtLoop True True 0 [])"
    using server_stepI(1) [OF published [of "?s Opened True False 0 []"]] by simp
  moreover have "server_step (?s AtLoop True True w hs) (?s Accepting True True w hs)" for w hs
    using server_stepI(1) [OF go_on [of "?s AtLoop True True w hs"]] by simp
  moreover have "server_step (?s Accepting True True 0 []) (?s AtLoop True True 1 [Testing])"
    using server_stepI(1) [OF accepted [of "?s Accepting True True 0 []"]] by simp
  moreover have "server_step (?s Accepting True True 1 [Testing]) (?s Accepting True True 1 [Serving])"
    using server_stepI(3) [OF serve [of 0 "?s Accepting True True 1 [Testing]"]] by simp
  moreover have "server_step (?s Accepting True True 1 [Serving])
      ((?s Accepting True True 1 [Serving])\<lparr>exit_flag := True, shut_at := FlagSet\<rparr>)"
    using server_stepI(2) [OF flagged [of "?s Accepting True True 1 [Serving]"]] by simp
  moreover have "server_step ((?s Accepting True True 1 [Serving])\<lparr>exit_flag := True, shut_at := FlagSet\<rparr>) at_shutdown"
    using server_stepI(2) [OF shut [of "(?s Accepting True True 1 [Serving])\<lparr>exit_flag := True, shut_at := FlagSet\<rparr>"]]
    by (simp add: at_shutdown_def)
  ultimately show ?thesis by (meson converse_rtranclp_into_rtranclp rtranclp.rtrancl_refl)
qed

lemma drains: "(server_step ^^ 8) at_shutdown drained"
proof -
  let ?s = "\<lambda>l hl w h. \<lparr>exit_flag = True, has_listener = hl, socket_open = False, wg_count = w, listen_at = l,
    shut_at = ShutDone, handlers = [h]\<rparr>"
  have "server_step at_shutdown (?s Accepting True 1 Testing)"
    using server_stepI(3) [OF served [of 0 at_shutdown]] by (simp add: at_shutdown_def)
  moreover have "server_step (?s Accepting True 1 Testing) (?s Waiting True 1 Testing)"
    using server_stepI(1) [OF accept_stopped [of "?s Accepting True 1 Testing"]] by simp
  moreover have "server_step (?s Waiting True 1 Testing) (?s Waiting True 1 Leaving)"
    using server_stepI(3) [OF stop [of 0 "?s Waiting True 1 Testing"]] by simp
  moreover have "server_step (?s Waiting True 1 Leaving) (?s Waiting True 1 ConnClosed)"
    using server_stepI(3) [OF conn_closed [of 0 "?s Waiting True 1 Leaving"]] by simp
  moreover have "server_step (?s Waiting True 1 ConnClosed) (?s Waiting True 0 Ended)"
    using server_stepI(3) [OF wg_done [of 0 "?s Waiting True 1 ConnClosed"]] by simp
  moreover have "server_step (?s Waiting True 0 Ended) (?s (Clearing False) True 0 Ended)"
    using server_stepI(1) [OF waited [of "?s Waiting True 0 Ended"]] by simp
  moreover have "server_step (?s (Clearing False) True 0 Ended) (?s (ClosingSocket False) False 0 Ended)"
    using server_stepI(1) [OF cleared [of "?s (Clearing False) True 0 Ended" False]] by simp
  moreover have "server_step (?s (ClosingSocket False) False 0 Ended) drained"
    using server_stepI(1) [OF socket_closed [of "?s (ClosingSocket False) False 0 Ended" False]] by (simp add: drained_def)
  ultimately show ?thesis by (auto simp: eval_nat_numeral intro!: relcomppI)
qed


end
