(* ===== verification/PeersProto.thy ===== *)
theory PeersProto
  imports StoreLaws Wire "HOL-Library.AList" "HOL-Library.Multiset"
begin

text \<open>
  \<open>internal/peers/proto.go\<close>: the operations a node sends to its peers, their encoding, the
  peer's side of a batch and of a connection, and the sender's side up to the bytes it writes
  and reads. A stream is what is left of it to read, ending where the other side closed it.
\<close>

subsection \<open>Queued operations\<close>

text \<open>\<open>syncOp\<close> of \<open>sync.go\<close>, and \<open>op\<close> as the protocol carries it.\<close>

record syncOp =
  Method :: bytes
  Path :: bytes
  Body :: bytes
  ContentType :: bytes

record op =
  okind :: char
  okey :: bytes
  oto :: bytes
  oraw :: bytes
  queuedAs :: syncOp

definition no_syncOp :: syncOp where
  "no_syncOp = \<lparr>Method = [], Path = [], Body = [], ContentType = []\<rparr>"

definition no_op :: op where
  "no_op = \<lparr>okind = CHR 0x00, okey = [], oto = [], oraw = [], queuedAs = no_syncOp\<rparr>"

abbreviation opSet :: char where "opSet \<equiv> CHR ''s''"
abbreviation opDel :: char where "opDel \<equiv> CHR ''d''"
abbreviation opClone :: char where "opClone \<equiv> CHR ''c''"
abbreviation opVacuum :: char where "opVacuum \<equiv> CHR ''v''"
abbreviation reqBatch :: char where "reqBatch \<equiv> CHR ''B''"
abbreviation reqDocument :: char where "reqDocument \<equiv> CHR ''G''"

definition hello :: bytes where
  "hello = ''SCP1'' @ [CHR 0x0D, nl]"

definition maxBatchOps :: nat where "maxBatchOps = 256"
definition maxBatchBytes :: nat where "maxBatchBytes = 2 ^ 20"
definition maxValue :: nat where "maxValue = 64 * 2 ^ 20"
definition maxDocument :: nat where "maxDocument = 2 ^ 30"

datatype proto_error =
    BadClonePath bytes
  | UnknownQueuedOp bytes bytes
  | UnknownOp char
  | UnknownRequest char
  | CountOver nat int
  | ReadFailed read_error

definition toOp :: "syncOp \<Rightarrow> proto_error + op" where
  "toOp s =
     (let base = no_op\<lparr>queuedAs := s\<rparr> in
      if Method s = ''PUT'' \<and> has_prefix (Path s) ''/db/'' then
        Inr (base\<lparr>okind := opSet, okey := trim_prefix (Path s) ''/db/'', oraw := Body s\<rparr>)
      else if Method s = ''DELETE'' \<and> has_prefix (Path s) ''/db/'' then
        Inr (base\<lparr>okind := opDel, okey := trim_prefix (Path s) ''/db/''\<rparr>)
      else if Method s = ''POST'' \<and> has_prefix (Path s) ''/clone/'' then
        (case cut_byte (CHR ''/'') (trim_prefix (Path s) ''/clone/'') of
           (from, tk, ok) \<Rightarrow>
             if \<not> ok \<or> CHR ''/'' \<in> set tk then Inl (BadClonePath (Path s))
             else Inr (base\<lparr>okind := opClone, okey := from, oto := tk\<rparr>))
      else if Method s = ''POST'' \<and> Path s = ''/vacuum'' then Inr (base\<lparr>okind := opVacuum\<rparr>)
      else Inl (UnknownQueuedOp (Method s) (Path s)))"

subsection \<open>Encoding\<close>

definition writeOp :: "op \<Rightarrow> bytes" where
  "writeOp x =
     okind x #
       (if okind x = opSet then WriteFrame (okey x) @ WriteFrame (oraw x)
        else if okind x = opDel then WriteFrame (okey x)
        else if okind x = opClone then WriteFrame (okey x) @ WriteFrame (oto x)
        else [])"

definition readString :: "bytes \<Rightarrow> proto_error + bytes \<times> bytes" where
  "readString r = (case ReadFrame maxValue r of Inl e \<Rightarrow> Inl (ReadFailed e) | Inr x \<Rightarrow> Inr x)"

definition readOp :: "bytes \<Rightarrow> proto_error + op \<times> bytes" where
  "readOp r =
     (case r of
        [] \<Rightarrow> Inl (ReadFailed EOF)
      | kind # r1 \<Rightarrow>
          let x = no_op\<lparr>okind := kind\<rparr> in
          if kind = opSet then
            (case readString r1 of
               Inl e \<Rightarrow> Inl e
             | Inr (k, r2) \<Rightarrow>
                 (case readString r2 of
                    Inl e \<Rightarrow> Inl e
                  | Inr (v, r3) \<Rightarrow> Inr (x\<lparr>okey := k, oraw := v\<rparr>, r3)))
          else if kind = opDel then
            (case readString r1 of Inl e \<Rightarrow> Inl e | Inr (k, r2) \<Rightarrow> Inr (x\<lparr>okey := k\<rparr>, r2))
          else if kind = opClone then
            (case readString r1 of
               Inl e \<Rightarrow> Inl e
             | Inr (k, r2) \<Rightarrow>
                 (case readString r2 of
                    Inl e \<Rightarrow> Inl e
                  | Inr (v, r3) \<Rightarrow> Inr (x\<lparr>okey := k, oto := v\<rparr>, r3)))
          else if kind = opVacuum then Inr (x, r1)
          else Inl (UnknownOp kind))"

definition writeUvarint :: "nat \<Rightarrow> bytes" where
  "writeUvarint n = put_uvarint n"

text \<open>
  The limit is an \<open>int\<close> that \<open>uint64\<close> converts: a limit of -1, for the index of a
  rejected operation among none, would let everything pass, and the conversion back to
  \<open>int\<close> could then give a negative number. Neither is reached, since there are as many
  indices as the count before them allowed.
\<close>

definition readCount :: "int \<Rightarrow> bytes \<Rightarrow> proto_error + int \<times> bytes" where
  "readCount limit r =
     (case read_uvarint 0 0 r of
        Inl e \<Rightarrow> Inl (ReadFailed e)
      | Inr (n, r') \<Rightarrow>
          if nat (limit mod 2 ^ 64) < n then Inl (CountOver n limit)
          else Inr (if n < 2 ^ 63 then int n else int n - 2 ^ 64, r'))"

subsection \<open>The peer\<close>

text \<open>\<open>rejected\<close> is a map from indices to messages, in the order its entries were made.\<close>

record batchResult =
  applied_ops :: nat
  rejected :: "(nat \<times> bytes) list"
  stopped :: bytes

definition applyOp :: "libs \<Rightarrow> op \<Rightarrow> store \<Rightarrow> db_error option \<times> store" where
  "applyOp L x st =
     (if okind x = opSet then SetRaw L (okey x) (oraw x) st
      else if okind x = opDel then Del (okey x) st
      else if okind x = opClone then Clone L (okey x) (oto x) st
      else if okind x = opVacuum then (None, Vacuum st)
      else (None, st))"

text \<open>
  The rest of a batch from index \<open>i\<close> on. \<open>late i\<close> says the clock has passed the budget
  there, \<open>env i\<close> is what the writer and other requests did to the store before operation
  \<open>i\<close>, and \<open>msg\<close> is the text of an error.
\<close>

fun applyBatch_from ::
  "libs \<Rightarrow> (db_error \<Rightarrow> bytes) \<Rightarrow> (nat \<Rightarrow> bool) \<Rightarrow> (nat \<Rightarrow> store \<Rightarrow> store) \<Rightarrow>
    nat \<Rightarrow> op list \<Rightarrow> batchResult \<Rightarrow> store \<Rightarrow> batchResult \<times> store" where
  "applyBatch_from L msg late env i [] res st = (res, st)"
| "applyBatch_from L msg late env i (x # xs) res st =
     (if 0 < i \<and> late i then (res, st)
      else
        (case applyOp L x (env i st) of
           (err, st') \<Rightarrow>
             if err = Some ErrWritesRefused
             then (res\<lparr>stopped := msg ErrWritesRefused\<rparr>, st')
             else
               let res1 = (case err of
                             None \<Rightarrow> res
                           | Some e \<Rightarrow> res\<lparr>rejected := rejected res @ [(i, msg e)]\<rparr>)
               in applyBatch_from L msg late env (Suc i) xs (res1\<lparr>applied_ops := Suc i\<rparr>) st'))"

definition applyBatch ::
  "libs \<Rightarrow> (db_error \<Rightarrow> bytes) \<Rightarrow> (nat \<Rightarrow> bool) \<Rightarrow> (nat \<Rightarrow> store \<Rightarrow> store) \<Rightarrow>
    op list \<Rightarrow> store \<Rightarrow> batchResult \<times> store" where
  "applyBatch L msg late env ops st =
     applyBatch_from L msg late env 0 ops \<lparr>applied_ops = 0, rejected = [], stopped = []\<rparr> st"

fun readOps :: "nat \<Rightarrow> bytes \<Rightarrow> proto_error + op list \<times> bytes" where
  "readOps 0 r = Inr ([], r)"
| "readOps (Suc n) r =
     (case readOp r of
        Inl e \<Rightarrow> Inl e
      | Inr (x, r') \<Rightarrow>
          (case readOps n r' of Inl e \<Rightarrow> Inl e | Inr (xs, r'') \<Rightarrow> Inr (x # xs, r'')))"

text \<open>\<open>visit\<close> is the order in which the loop over the map visits its entries.\<close>

definition writeResult :: "((nat \<times> bytes) list \<Rightarrow> (nat \<times> bytes) list) \<Rightarrow> batchResult \<Rightarrow> bytes" where
  "writeResult visit res =
     writeUvarint (applied_ops res) @ writeUvarint (length (rejected res)) @
     concat (map (\<lambda>(i, m). writeUvarint i @ WriteFrame m) (visit (rejected res))) @
     WriteFrame (stopped res)"

text \<open>What runs beside the handler of one batch, and what Go leaves open.\<close>

record surroundings =
  err_text :: "db_error \<Rightarrow> bytes"
  late_at :: "nat \<Rightarrow> bool"
  others :: "nat \<Rightarrow> store \<Rightarrow> store"
  map_order :: "(nat \<times> bytes) list \<Rightarrow> (nat \<times> bytes) list"

definition serveBatch ::
  "libs \<Rightarrow> surroundings \<Rightarrow> bytes \<Rightarrow> store \<Rightarrow> proto_error + bytes \<times> bytes \<times> store" where
  "serveBatch L S r st =
     (case readCount (int maxBatchOps) r of
        Inl e \<Rightarrow> Inl e
      | Inr (n, r1) \<Rightarrow>
          (case readOps (nat n) r1 of
             Inl e \<Rightarrow> Inl e
           | Inr (ops, r2) \<Rightarrow>
               (case applyBatch L (err_text S) (late_at S) (others S) ops st of
                  (res, st') \<Rightarrow> Inr (writeResult (map_order S) res, r2, st'))))"

text \<open>One request of a connection: the reply, what is left to read, and the store.\<close>

definition serve_request ::
  "libs \<Rightarrow> surroundings \<Rightarrow> bytes \<Rightarrow> store \<Rightarrow> proto_error + bytes \<times> bytes \<times> store" where
  "serve_request L S r st =
     (case r of
        [] \<Rightarrow> Inl (ReadFailed EOF)
      | kind # r1 \<Rightarrow>
          if kind = reqBatch then serveBatch L S r1 st
          else if kind = reqDocument then
            (case Get L [] st of (doc, st') \<Rightarrow> Inr (WriteFrame doc, r1, st'))
          else Inl (UnknownRequest kind))"

text \<open>
  The loop of a connection, as what it wrote and the store it left. Every request takes at
  least its first byte, so one round per byte is enough. A request whose batch was cut off
  has read but not applied it.
\<close>

fun serve_loop :: "libs \<Rightarrow> (nat \<Rightarrow> surroundings) \<Rightarrow> nat \<Rightarrow> nat \<Rightarrow> bytes \<Rightarrow> store \<Rightarrow> bytes \<times> store" where
  "serve_loop L S k 0 r st = ([], st)"
| "serve_loop L S k (Suc fuel) r st =
     (case serve_request L (S k) r st of
        Inl e \<Rightarrow> ([], st)
      | Inr (reply, r', st') \<Rightarrow>
          (case serve_loop L S (Suc k) fuel r' st' of (out, st'') \<Rightarrow> (reply @ out, st'')))"

definition serveTCP :: "libs \<Rightarrow> (nat \<Rightarrow> surroundings) \<Rightarrow> bytes \<Rightarrow> store \<Rightarrow> bytes \<times> store" where
  "serveTCP L S r st =
     (if has_prefix r hello
      then (case serve_loop L S 0 (Suc (length r)) (drop (length hello) r) st of
              (out, st') \<Rightarrow> (hello @ out, st'))
      else ([], st))"

subsection \<open>The sender\<close>

definition tcpAddr :: "bytes \<Rightarrow> bytes \<times> bool" where
  "tcpAddr addr =
     (if has_prefix addr ''https://'' then ([], False)
      else (trim_suffix (trim_prefix addr ''http://'') ''/'', True))"

definition batch_request :: "op list \<Rightarrow> bytes" where
  "batch_request ops = reqBatch # writeUvarint (length ops) @ concat (map writeOp ops)"

fun readRejected :: "int \<Rightarrow> nat \<Rightarrow> bytes \<Rightarrow> (nat \<times> bytes) list \<Rightarrow> proto_error + (nat \<times> bytes) list \<times> bytes"
where
  "readRejected d 0 r rej = Inr (rej, r)"
| "readRejected d (Suc n) r rej =
     (case readCount (d - 1) r of
        Inl e \<Rightarrow> Inl e
      | Inr (i, r1) \<Rightarrow>
          (case ReadFrame maxValue r1 of
             Inl e \<Rightarrow> Inl (ReadFailed e)
           | Inr (m, r2) \<Rightarrow> readRejected d n r2 (AList.update (nat i) m rej)))"

definition read_reply :: "nat \<Rightarrow> bytes \<Rightarrow> proto_error + batchResult \<times> bytes" where
  "read_reply nops r =
     (case readCount (int nops) r of
        Inl e \<Rightarrow> Inl e
      | Inr (d, r1) \<Rightarrow>
          (case readCount d r1 of
             Inl e \<Rightarrow> Inl e
           | Inr (nrej, r2) \<Rightarrow>
               (case readRejected d (nat nrej) r2 [] of
                  Inl e \<Rightarrow> Inl e
                | Inr (rej, r3) \<Rightarrow>
                    (case ReadFrame maxValue r3 of
                       Inl e \<Rightarrow> Inl (ReadFailed e)
                     | Inr (s, r4) \<Rightarrow>
                         Inr (\<lparr>applied_ops = nat d, rejected = rej, stopped = s\<rparr>, r4)))))"

text \<open>
  \<open>sendBatch\<close> against a peer given as the function from what it is sent to what it answers.
\<close>

definition sendBatch :: "(bytes \<Rightarrow> bytes) \<Rightarrow> op list \<Rightarrow> proto_error + batchResult" where
  "sendBatch peer ops =
     (case read_reply (length ops) (peer (batch_request ops)) of
        Inl e \<Rightarrow> Inl e
      | Inr (res, _) \<Rightarrow> Inr res)"

definition document_request :: "(bytes \<Rightarrow> bytes) \<Rightarrow> proto_error + bytes" where
  "document_request peer =
     (case ReadFrame maxDocument (peer [reqDocument]) of
        Inl e \<Rightarrow> Inl (ReadFailed e)
      | Inr (b, _) \<Rightarrow> Inr b)"

end
