(* ===== verification/PeersQueue.thy ===== *)
theory PeersQueue
  imports PeersProto
begin

text \<open>
  \<open>internal/peers/sync.go\<close>: the queue a node keeps for each peer, and the file that holds it
  through a restart. \<open>E\<close> records add an operation, \<open>A\<close> records take the first one off; a
  checkpoint rewrites the file from the queue. Methods that hold \<open>w.mu\<close> are one step;
  \<open>syncTo\<close> releases it around its fsync and is two.
\<close>

subsection \<open>The worker\<close>

text \<open>
  JSON of a queued operation, by the goccy/go-json library; \<open>None\<close> is its error.
\<close>

record codec =
  encode :: "syncOp \<Rightarrow> bytes option"
  decode :: "bytes \<Rightarrow> syncOp option"

text \<open>
  A file as a crash may leave it: its content and how many bytes of it an fsync covered. Its
  number stands for the inode.
\<close>

record wal_file =
  inode :: nat
  content :: bytes
  fsynced :: nat

text \<open>
  \<open>workerState\<close>. \<open>walFile\<close> is the inode of the open file. \<open>at_path\<close> is the file the path
  names; \<open>replaced\<close> are files it may still name after a crash, because the directory was not
  fsynced since the rename that replaced them; \<open>fresh\<close> numbers new files. \<open>fsyncing\<close> is
  the fsync \<open>syncTo\<close> has started: the file, the sequence number it is for, its caller's number
  and the length of the file when it started. \<open>history\<close> and \<open>acked\<close> are no part of the
  program: every operation ever queued, the ones loaded at the start first, and how many were
  taken off; \<open>base\<close> is how many were loaded.
\<close>

record worker =
  pending :: "syncOp list"
  walFile :: "nat option"
  writes :: int
  seqno :: nat
  needCheckpoint :: bool
  synced :: nat
  at_path :: wal_file
  replaced :: "wal_file list"
  fresh :: nat
  fsyncing :: "(nat \<times> nat \<times> nat \<times> nat) option"
  history :: "syncOp list"
  acked :: nat
  base :: nat

text \<open>
  Results of the system calls of one operation. A write that fails may have written a part:
  \<open>Some k\<close> is a failure after \<open>k\<close> bytes.
\<close>

record wal_io =
  ensure_mkdir_ok :: bool
  ensure_open_ok :: bool
  record_write :: "nat option"
  mkdir_ok :: bool
  tmp_open_ok :: bool
  tmp_write_ok :: bool
  tmp_sync_ok :: bool
  tmp_close_ok :: bool
  rename_ok :: bool
  dir_sync_ok :: bool
  reopen_mkdir_ok :: bool
  reopen_ok :: bool

datatype wal_error = MkdirFailed | OpenFailed | WriteFailed | SyncFailed | CloseFailed
  | RenameFailed | DirSyncFailed | EncodeFailed | DecodeFailed bytes | InvalidRecord bytes

definition walCheckpointEvery :: int where
  "walCheckpointEvery = 512"

definition E_record :: "bytes \<Rightarrow> bytes" where
  "E_record b = ''E '' @ b @ [nl]"

definition A_record :: bytes where
  "A_record = ''A'' @ [nl]"

subsection \<open>Writing\<close>

definition ensureWALFileLocked :: "bool \<Rightarrow> bool \<Rightarrow> worker \<Rightarrow> wal_error option \<times> worker" where
  "ensureWALFileLocked mk op w =
     (if walFile w \<noteq> None then (None, w)
      else if \<not> mk then (Some MkdirFailed, w)
      else if \<not> op then (Some OpenFailed, w)
      else (None, w\<lparr>walFile := Some (inode (at_path w))\<rparr>))"

definition reclaimableLocked :: "worker \<Rightarrow> bool" where
  "reclaimableLocked w \<longleftrightarrow>
     (let dead = writes w - int (length (pending w))
      in walCheckpointEvery \<le> dead \<and> int (length (pending w)) \<le> dead)"

definition markSynced :: "nat \<Rightarrow> worker \<Rightarrow> worker" where
  "markSynced n w = (if n \<le> synced w then w else w\<lparr>synced := n\<rparr>)"

fun encode_all :: "codec \<Rightarrow> syncOp list \<Rightarrow> bytes option" where
  "encode_all C [] = Some []"
| "encode_all C (x # xs) =
     (case encode C x of
        None \<Rightarrow> None
      | Some b \<Rightarrow> map_option (\<lambda>r. E_record b @ r) (encode_all C xs))"

text \<open>
  \<open>checkpointLocked\<close> without its deferred function. After the rename the path names the new
  file; until the directory is fsynced a crash may bring the old one back.
\<close>

definition checkpoint_body :: "codec \<Rightarrow> wal_io \<Rightarrow> worker \<Rightarrow> wal_error option \<times> worker" where
  "checkpoint_body C io w0 =
     (let w = w0\<lparr>walFile := None\<rparr> in
      if \<not> mkdir_ok io then (Some MkdirFailed, w)
      else
        (case encode_all C (pending w) of
           None \<Rightarrow> (Some EncodeFailed, w)
         | Some buf \<Rightarrow>
             if \<not> tmp_open_ok io then (Some OpenFailed, w)
             else if \<not> tmp_write_ok io then (Some WriteFailed, w)
             else if \<not> tmp_sync_ok io then (Some SyncFailed, w)
             else if \<not> tmp_close_ok io then (Some CloseFailed, w)
             else if \<not> rename_ok io then (Some RenameFailed, w)
             else
               let w1 = w\<lparr>at_path := \<lparr>inode = fresh w, content = buf, fsynced = length buf\<rparr>,
                          replaced := at_path w # replaced w, fresh := Suc (fresh w)\<rparr> in
               if \<not> dir_sync_ok io then (Some DirSyncFailed, w1)
               else
                 let w2 = markSynced (seqno w1) (w1\<lparr>replaced := [], writes := int (length (pending w1))\<rparr>)
                 in ensureWALFileLocked (reopen_mkdir_ok io) (reopen_ok io) w2))"

definition checkpointLocked :: "codec \<Rightarrow> wal_io \<Rightarrow> worker \<Rightarrow> wal_error option \<times> worker" where
  "checkpointLocked C io w =
     (case checkpoint_body C io w of (err, w') \<Rightarrow> (err, w'\<lparr>needCheckpoint := err \<noteq> None\<rparr>))"

definition append_bytes :: "bytes \<Rightarrow> worker \<Rightarrow> worker" where
  "append_bytes b w = w\<lparr>at_path := (at_path w)\<lparr>content := content (at_path w) @ b\<rparr>\<rparr>"

definition appendLocked :: "codec \<Rightarrow> wal_io \<Rightarrow> bytes \<Rightarrow> nat \<Rightarrow> worker \<Rightarrow> wal_error option \<times> worker" where
  "appendLocked C io rec n w =
     (if needCheckpoint w then checkpointLocked C io w
      else
        (case ensureWALFileLocked (ensure_mkdir_ok io) (ensure_open_ok io) w of
           (Some e, w1) \<Rightarrow> (Some e, w1\<lparr>needCheckpoint := True\<rparr>)
         | (None, w1) \<Rightarrow>
             (case record_write io of
                Some k \<Rightarrow> (Some WriteFailed, (append_bytes (take k rec) w1)\<lparr>needCheckpoint := True\<rparr>)
              | None \<Rightarrow>
                  let w2 = (append_bytes rec w1)\<lparr>writes := writes w1 + int n\<rparr> in
                  if reclaimableLocked w2 then checkpointLocked C io w2 else (None, w2))))"

text \<open>\<open>enqueue\<close>: the record's number, or the error.\<close>

definition enqueue :: "codec \<Rightarrow> wal_io \<Rightarrow> syncOp \<Rightarrow> worker \<Rightarrow> (wal_error + nat) \<times> worker" where
  "enqueue C io x w =
     (case encode C x of
        None \<Rightarrow> (Inl EncodeFailed, w)
      | Some b \<Rightarrow>
          let w1 = w\<lparr>pending := pending w @ [x], seqno := Suc (seqno w), history := history w @ [x]\<rparr> in
          (case appendLocked C io (E_record b) 1 w1 of
             (Some e, w2) \<Rightarrow> (Inl e, w2)
           | (None, w2) \<Rightarrow> (Inr (seqno w2), w2)))"

definition ackN :: "codec \<Rightarrow> wal_io \<Rightarrow> nat \<Rightarrow> worker \<Rightarrow> wal_error option \<times> worker" where
  "ackN C io n0 w =
     (let n = min n0 (length (pending w)) in
      if n = 0 then (None, w)
      else appendLocked C io (concat (replicate n A_record)) n
             (w\<lparr>pending := drop n (pending w), acked := acked w + n\<rparr>))"

text \<open>
  \<open>syncTo\<close> up to the fsync: \<open>Some\<close> result when it returns before it. Then the fsync's end;
  a file that has been closed meanwhile is no longer the worker's, whatever its fsync says.
\<close>

definition syncTo_begin ::
  "codec \<Rightarrow> wal_io \<Rightarrow> nat \<Rightarrow> worker \<Rightarrow> wal_error option option \<times> worker" where
  "syncTo_begin C io n w =
     (if n \<le> synced w then (Some None, w)
      else
        (case (needCheckpoint w, walFile w) of
           (False, Some f) \<Rightarrow>
             (None, w\<lparr>fsyncing := Some (f, seqno w, n, length (content (at_path w)))\<rparr>)
         | _ \<Rightarrow> (case checkpointLocked C io w of (err, w') \<Rightarrow> (Some err, w'))))"

definition raise_fsynced :: "nat \<Rightarrow> nat \<Rightarrow> wal_file \<Rightarrow> wal_file" where
  "raise_fsynced f len x = (if inode x = f then x\<lparr>fsynced := max (fsynced x) len\<rparr> else x)"

definition syncTo_end :: "codec \<Rightarrow> wal_io \<Rightarrow> bool \<Rightarrow> worker \<Rightarrow> wal_error option \<times> worker" where
  "syncTo_end C io ok w =
     (case fsyncing w of
        None \<Rightarrow> (None, w)
      | Some (f, target, n, len) \<Rightarrow>
          let w1 = w\<lparr>fsyncing := None\<rparr> in
          if ok then
            (None, markSynced target
              (w1\<lparr>at_path := raise_fsynced f len (at_path w1), replaced := map (raise_fsynced f len) (replaced w1)\<rparr>))
          else if n \<le> synced w1 \<or> walFile w1 \<noteq> Some f then (None, w1)
          else checkpointLocked C io w1)"

text \<open>What \<open>syncAll\<close> does to one worker under its lock.\<close>

definition syncAll_worker :: "codec \<Rightarrow> wal_io \<Rightarrow> worker \<Rightarrow> wal_error option \<times> worker" where
  "syncAll_worker C io w = (if needCheckpoint w then checkpointLocked C io w else (None, w))"

subsection \<open>Loading\<close>

text \<open>
  The loop of \<open>loadWAL\<close>: the queue and the number of records so far. A last line without a
  newline is not read.
\<close>

function load_loop :: "codec \<Rightarrow> bytes \<Rightarrow> syncOp list \<Rightarrow> nat \<Rightarrow> wal_error option \<times> syncOp list \<times> nat" where
  "load_loop C bs q n =
     (case index_byte nl bs of
        None \<Rightarrow> (None, q, n)
      | Some i \<Rightarrow>
          let line = trim_space (take (Suc i) bs); r = drop (Suc i) bs in
          if line = [] then load_loop C r q n
          else if has_prefix line ''E '' then
            (case decode C (drop 2 line) of
               None \<Rightarrow> (Some (DecodeFailed (drop 2 line)), q, Suc n)
             | Some x \<Rightarrow> load_loop C r (q @ [x]) (Suc n))
          else if line = ''A'' then load_loop C r (tl q) (Suc n)
          else (Some (InvalidRecord line), q, Suc n))"
  by pat_completeness auto
termination
  by (relation "measure (\<lambda>(C, bs, q, n). length bs)") (auto dest: index_byte_Some)

declare load_loop.simps [simp del]

definition new_worker :: "bytes \<Rightarrow> worker" where
  "new_worker file =
     \<lparr>pending = [], walFile = None, writes = 0, seqno = 0, needCheckpoint = False, synced = 0,
      at_path = \<lparr>inode = 0, content = file, fsynced = length file\<rparr>, replaced = [], fresh = 1,
      fsyncing = None, history = [], acked = 0, base = 0\<rparr>"

text \<open>
  \<open>loadWAL\<close> on what a crash or a shutdown left at the path; a missing file is an empty one.
  The worker runs whatever it returns.
\<close>

definition loadWAL :: "codec \<Rightarrow> wal_io \<Rightarrow> bytes \<Rightarrow> wal_error option \<times> worker" where
  "loadWAL C io file =
     (case load_loop C file [] 0 of
        (err, q, n) \<Rightarrow>
          let w = (new_worker file)\<lparr>pending := q, history := q, base := length q\<rparr> in
          if err \<noteq> None then (err, w)
          else
            (case ensureWALFileLocked (ensure_mkdir_ok io) (ensure_open_ok io) (w\<lparr>writes := int n\<rparr>) of
               (Some e, w1) \<Rightarrow> (Some e, w1)
             | (None, w1) \<Rightarrow>
                 if reclaimableLocked w1 then checkpointLocked C io w1 else (None, w1)))"

subsection \<open>Steps\<close>

inductive wal_step :: "codec \<Rightarrow> worker \<Rightarrow> worker \<Rightarrow> bool" for C where
  enqueue: "wal_step C w (snd (enqueue C io x w))"
| ack: "wal_step C w (snd (ackN C io n w))"
| sync_begin: "fsyncing w = None \<Longrightarrow> wal_step C w (snd (syncTo_begin C io n w))"
| sync_end: "wal_step C w (snd (syncTo_end C io ok w))"
| tick: "wal_step C w (snd (syncAll_worker C io w))"

abbreviation wal_steps :: "codec \<Rightarrow> worker \<Rightarrow> worker \<Rightarrow> bool" where
  "wal_steps C \<equiv> (wal_step C)\<^sup>*\<^sup>*"

text \<open>What a crash may leave at the path: a file it may name, with all that was fsynced.\<close>

definition crash_leaves :: "worker \<Rightarrow> bytes \<Rightarrow> bool" where
  "crash_leaves w file \<longleftrightarrow>
     (\<exists>x \<in> set (at_path w # replaced w). \<exists>n. fsynced x \<le> n \<and> n \<le> length (content x) \<and> file = take n (content x))"

subsection \<open>Sending\<close>

text \<open>\<open>peekBatch\<close>: the loop counts from \<open>i\<close>, with \<open>sz\<close> bytes of bodies so far.\<close>

fun peek_loop :: "nat \<Rightarrow> nat \<Rightarrow> syncOp list \<Rightarrow> nat option" where
  "peek_loop i sz [] = None"
| "peek_loop i sz (s # ss) =
     (let sz' = sz + length (Body s) in
      if i = maxBatchOps \<or> (0 < i \<and> maxBatchBytes < sz') then Some i
      else peek_loop (Suc i) sz' ss)"

definition peekBatch :: "worker \<Rightarrow> syncOp list" where
  "peekBatch w =
     (case peek_loop 0 0 (pending w) of None \<Rightarrow> pending w | Some i \<Rightarrow> take i (pending w))"

text \<open>A request over HTTP: its status code, or a failure to get one.\<close>

datatype http_result = HttpStatus nat | HttpFailed

definition isRejected :: "nat \<Rightarrow> bool" where
  "isRejected code \<longleftrightarrow> 400 \<le> code \<and> code < 500 \<and> code \<noteq> 408 \<and> code \<noteq> 429"

definition http_ok :: "http_result \<Rightarrow> bool" where
  "http_ok r = (case r of HttpStatus code \<Rightarrow> 200 \<le> code \<and> code < 300 | HttpFailed \<Rightarrow> False)"

text \<open>\<open>sendHTTP\<close>: how many operations the peer took, one or none.\<close>

definition sendHTTP :: "http_result \<Rightarrow> nat" where
  "sendHTTP r =
     (if http_ok r then 1
      else (case r of HttpStatus code \<Rightarrow> if isRejected code then 1 else 0 | HttpFailed \<Rightarrow> 0))"

fun convert_ops :: "syncOp list \<Rightarrow> op list" where
  "convert_ops [] = []"
| "convert_ops (s # ss) = (case toOp s of Inl _ \<Rightarrow> [] | Inr x \<Rightarrow> x # convert_ops ss)"

datatype dial_result = Dialled | DialUnsupported | DialFailed

text \<open>
  One attempt at a batch, with what the clock, the connection and the peer answer:
  \<open>http_now\<close> says the peer is still sent HTTP, \<open>has_conn\<close> that a connection is open. It
  yields how many operations the peer took, whether a connection is open, and whether the
  peer is sent HTTP for a while from now on.
\<close>

definition send ::
  "bool \<Rightarrow> bool \<Rightarrow> dial_result \<Rightarrow> http_result \<Rightarrow> (bytes \<Rightarrow> bytes) \<Rightarrow> syncOp list \<Rightarrow> nat \<times> bool \<times> bool" where
  "send http_now has_conn dial http peer batch =
     (if http_now then (sendHTTP http, has_conn, False)
      else if (case batch of [] \<Rightarrow> False | s # _ \<Rightarrow> (case toOp s of Inl _ \<Rightarrow> True | Inr _ \<Rightarrow> False))
      then (1, has_conn, False)
      else if \<not> has_conn \<and> dial = DialUnsupported then (sendHTTP http, False, True)
      else if \<not> has_conn \<and> dial = DialFailed then (0, False, False)
      else
        (case sendBatch peer (convert_ops batch) of
           Inl _ \<Rightarrow> (0, False, False)
         | Inr res \<Rightarrow> (applied_ops res, True, False)))"

text \<open>\<open>backoff\<close> in nanoseconds; \<open>base << attempt\<close> is a shift of a 64-bit integer.\<close>

definition backoff :: "64 word \<Rightarrow> 64 word \<Rightarrow> int \<Rightarrow> 64 word" where
  "backoff start limit attempt =
     (if attempt \<le> 0 then start
      else if 16 < attempt then limit
      else
        let d = push_bit (nat attempt) start in
        if sint d < sint limit then d else limit)"

text \<open>The operations a local write is sent to the peers as, and the name of a queue file.\<close>

definition SyncSetRaw :: "bytes \<Rightarrow> bytes \<Rightarrow> syncOp" where
  "SyncSetRaw k raw = \<lparr>Method = ''PUT'', Path = ''/db/'' @ k, Body = raw, ContentType = ''application/json''\<rparr>"

definition SyncDelete :: "bytes \<Rightarrow> syncOp" where
  "SyncDelete k = \<lparr>Method = ''DELETE'', Path = ''/db/'' @ k, Body = [], ContentType = []\<rparr>"

definition SyncClone :: "bytes \<Rightarrow> bytes \<Rightarrow> syncOp" where
  "SyncClone a b = \<lparr>Method = ''POST'', Path = ''/clone/'' @ a @ ''/'' @ b, Body = [], ContentType = []\<rparr>"

definition SyncVacuum :: syncOp where
  "SyncVacuum = \<lparr>Method = ''POST'', Path = ''/vacuum'', Body = [], ContentType = []\<rparr>"

end
