(* ===== verification/Replication.thy ===== *)
theory Replication
  imports Manager PeersQueue
begin

text \<open>
  The rest of \<open>internal/peers/sync.go\<close> and of \<open>internal/peers/peers.go\<close>: a local write handed to
  every peer's queue, the goroutine that empties a queue, restoring the document from a peer, and
  the HTTP routes of the peers port.
\<close>

subsection \<open>The queues of a node\<close>

text \<open>
  The package's variables: the peers' addresses, their workers, and the fsync policy. The files
  that are found for a worker that is made, and what the system calls answer, are arguments.
\<close>

record peers_state =
  peer_addrs :: "bytes list"
  workers :: "(bytes \<times> worker) list"
  walPolicy :: FsyncPolicy
  walDir :: bytes

definition new_peers :: peers_state where
  "new_peers = \<lparr>peer_addrs = [], workers = [], walPolicy = FsyncEverysec, walDir = ''.peers-wal''\<rparr>"

definition SetWALDir :: "bytes \<Rightarrow> peers_state \<Rightarrow> peers_state" where
  "SetWALDir d s = (if d = [] then s else s\<lparr>walDir := d\<rparr>)"

definition SetFsyncPolicy_peers :: "FsyncPolicy \<Rightarrow> peers_state \<Rightarrow> peers_state" where
  "SetFsyncPolicy_peers p s = s\<lparr>walPolicy := p\<rparr>"

fun contains :: "bytes \<Rightarrow> bytes \<Rightarrow> bool" where
  "contains s [] = (s = [])"
| "contains s (c # cs) = (has_prefix (c # cs) s \<or> contains s cs)"

text \<open>The name of a peer's queue file; \<open>hash\<close> is the hexadecimal SHA-1 sum.\<close>

definition http_form :: "bytes \<Rightarrow> bytes" where
  "http_form addr = (if contains ''://'' addr then addr else ''http://'' @ addr)"

definition walPathForAddr :: "(bytes \<Rightarrow> bytes) \<Rightarrow> bytes \<Rightarrow> peers_state \<Rightarrow> bytes" where
  "walPathForAddr hash addr s = walDir s @ ''/'' @ hash (http_form addr) @ ''.jsonl''"

text \<open>What surrounds the queues: the codec, the hash, the files, and the answers of the calls.\<close>

record queue_world =
  op_codec :: codec
  sha1_hex :: "bytes \<Rightarrow> bytes"
  file_at :: "bytes \<Rightarrow> bytes"
  load_io :: "bytes \<Rightarrow> wal_io"
  write_io :: "bytes \<Rightarrow> wal_io"
  sync_io :: "bytes \<Rightarrow> wal_io"
  sync_works :: "bytes \<Rightarrow> bool"

definition workerFor :: "queue_world \<Rightarrow> bytes \<Rightarrow> peers_state \<Rightarrow> worker \<times> peers_state" where
  "workerFor Q addr s =
     (case map_of (workers s) addr of
        Some w \<Rightarrow> (w, s)
      | None \<Rightarrow>
          (let w = snd (loadWAL (op_codec Q) (load_io Q addr) (file_at Q (walPathForAddr (sha1_hex Q) addr s)))
           in (w, s\<lparr>workers := workers s @ [(addr, w)]\<rparr>)))"

definition ensureWorkers :: "queue_world \<Rightarrow> bytes list \<Rightarrow> peers_state \<Rightarrow> peers_state" where
  "ensureWorkers Q addrs s = fold (\<lambda>a s. snd (workerFor Q a s)) addrs s"

definition Configure :: "queue_world \<Rightarrow> bytes list \<Rightarrow> peers_state \<Rightarrow> peers_state" where
  "Configure Q addrs s = ensureWorkers Q addrs (s\<lparr>peer_addrs := addrs\<rparr>)"

text \<open>\<open>syncTo\<close> with nothing between its two halves.\<close>

definition syncTo :: "codec \<Rightarrow> wal_io \<Rightarrow> bool \<Rightarrow> nat \<Rightarrow> worker \<Rightarrow> wal_error option \<times> worker" where
  "syncTo C io ok n w =
     (case syncTo_begin C io n w of
        (Some r, w') \<Rightarrow> (r, w')
      | (None, w') \<Rightarrow> syncTo_end C io ok w')"

text \<open>The two loops of \<open>dispatch\<close>: queueing, then the fsyncs.\<close>

fun dispatch_queue :: "queue_world \<Rightarrow> syncOp \<Rightarrow> bytes list \<Rightarrow> peers_state \<Rightarrow> (bytes \<times> nat) list \<times> peers_state" where
  "dispatch_queue Q x [] s = ([], s)"
| "dispatch_queue Q x (a # addrs) s =
     (case workerFor Q a s of
        (w, s1) \<Rightarrow>
          (case enqueue (op_codec Q) (write_io Q a) x w of
             (r, w') \<Rightarrow>
               (case dispatch_queue Q x addrs (s1\<lparr>workers := AList.update a w' (workers s1)\<rparr>) of
                  (qs, s2) \<Rightarrow> (case r of Inl _ \<Rightarrow> qs | Inr n \<Rightarrow> (a, n) # qs, s2))))"

fun dispatch_sync :: "queue_world \<Rightarrow> (bytes \<times> nat) list \<Rightarrow> peers_state \<Rightarrow> peers_state" where
  "dispatch_sync Q [] s = s"
| "dispatch_sync Q ((a, n) # qs) s =
     (case map_of (workers s) a of
        None \<Rightarrow> dispatch_sync Q qs s
      | Some w \<Rightarrow>
          dispatch_sync Q qs
            (s\<lparr>workers := AList.update a (snd (syncTo (op_codec Q) (sync_io Q a) (sync_works Q a) n w)) (workers s)\<rparr>))"

definition dispatch :: "queue_world \<Rightarrow> syncOp \<Rightarrow> peers_state \<Rightarrow> peers_state" where
  "dispatch Q x s =
     (case dispatch_queue Q x (peer_addrs s) s of
        (qs, s') \<Rightarrow> if walPolicy s' \<noteq> FsyncAlways then s' else dispatch_sync Q qs s')"

text \<open>\<open>SyncUpdate\<close>, which encodes the value itself.\<close>

definition SyncUpdate :: "queue_world \<Rightarrow> cluster_libs \<Rightarrow> bytes \<Rightarrow> go_value \<Rightarrow> peers_state \<Rightarrow> peers_state" where
  "SyncUpdate Q K k v s =
     (case jsonValue K v of
        None \<Rightarrow> s
      | Some b \<Rightarrow>
          dispatch Q \<lparr>Method = ''PUT'', Path = ''/db/'' @ k, Body = b, ContentType = ''application/json''\<rparr> s)"

text \<open>\<open>SyncWrite\<close>, the write hook.\<close>

definition write_op :: "write_msg \<Rightarrow> syncOp option" where
  "write_op m =
     (if wOp m = ''set'' then Some (SyncSetRaw (wKey m) (wRaw m))
      else if wOp m = ''del'' then Some (SyncDelete (wKey m))
      else if wOp m = ''clone'' then Some (SyncClone (wFromKey m) (wToKey m))
      else None)"

definition SyncWrite :: "queue_world \<Rightarrow> write_msg \<Rightarrow> peers_state \<Rightarrow> peers_state" where
  "SyncWrite Q m s = (case write_op m of None \<Rightarrow> s | Some x \<Rightarrow> dispatch Q x s)"

subsection \<open>Emptying a queue\<close>

text \<open>\<open>deliver\<close>: \<open>tries i\<close> is what attempt \<open>i\<close> of \<open>send\<close> reports. It may never end.\<close>

partial_function (option) deliver :: "(nat \<Rightarrow> nat) \<Rightarrow> nat \<Rightarrow> nat option" where
  "deliver tries i = (if 0 < tries i then Some (tries i) else deliver tries (Suc i))"

text \<open>
  A worker with its goroutine: \<open>token\<close> says the channel \<open>ch\<close> holds a signal, \<open>busy\<close> that
  \<open>run\<close> is in its inner loop. A batch step is \<open>peekBatch\<close>, a \<open>deliver\<close> that ended, and
  \<open>ackN\<close>; other steps of the worker may come between, which only add to the queue.
\<close>

record runner =
  work :: worker
  token :: bool
  busy :: bool

inductive run_step :: "codec \<Rightarrow> bool \<Rightarrow> runner \<Rightarrow> runner \<Rightarrow> bool" for C :: codec and healthy :: bool where
  put: "run_step C healthy r (r\<lparr>work := snd (enqueue C io x (work r)),
      token := (if encode C x = None then token r else True)\<rparr>)"
| wake: "token r \<Longrightarrow> \<not> busy r \<Longrightarrow> run_step C healthy r (r\<lparr>token := False, busy := True\<rparr>)"
| batch: "busy r \<Longrightarrow> peekBatch (work r) \<noteq> [] \<Longrightarrow> deliver tries 0 = Some n \<Longrightarrow> ackN C io n (work r) = (None, w) \<Longrightarrow>
    run_step C healthy r (r\<lparr>work := w\<rparr>)"
| batch_failed: "\<not> healthy \<Longrightarrow> busy r \<Longrightarrow> peekBatch (work r) \<noteq> [] \<Longrightarrow> deliver tries 0 = Some n \<Longrightarrow>
    ackN C io n (work r) = (Some e, w) \<Longrightarrow> run_step C healthy r (r\<lparr>work := w, busy := False\<rparr>)"
| emptied: "busy r \<Longrightarrow> peekBatch (work r) = [] \<Longrightarrow> run_step C healthy r (r\<lparr>busy := False\<rparr>)"
| sync_begin: "run_step C healthy r (r\<lparr>work := snd (syncTo_begin C io n (work r))\<rparr>)"
| sync_end: "run_step C healthy r (r\<lparr>work := snd (syncTo_end C io ok (work r))\<rparr>)"
| tick: "run_step C healthy r (r\<lparr>work := snd (syncAll_worker C io (work r))\<rparr>)"

text \<open>A worker as \<open>workerFor\<close> starts it.\<close>

definition started :: "worker \<Rightarrow> runner" where
  "started w = \<lparr>work = w, token = True, busy = False\<rparr>"

subsection \<open>Restoring from a peer\<close>

text \<open>\<open>fetched a\<close> is what \<open>fetchDocument\<close> returns for a peer.\<close>

fun restore_loop :: "libs \<Rightarrow> (bytes \<Rightarrow> bytes option) \<Rightarrow> bytes list \<Rightarrow> store \<Rightarrow> store" where
  "restore_loop L fetched [] st = st"
| "restore_loop L fetched (a # addrs) st =
     (case fetched a of
        None \<Rightarrow> restore_loop L fetched addrs st
      | Some body \<Rightarrow>
          (case Replace L body st of
             (Some _, st') \<Rightarrow> restore_loop L fetched addrs st'
           | (None, st') \<Rightarrow> Vacuum st'))"

definition Restore :: "queue_world \<Rightarrow> libs \<Rightarrow> (bytes \<Rightarrow> bytes option) \<Rightarrow> bytes list \<Rightarrow> peers_state \<times> store \<Rightarrow> peers_state \<times> store" where
  "Restore Q L fetched addrs s =
     (let s' = Configure Q addrs (fst s) in
      if addrs = [] \<or> \<not> Empty (snd s) then (s', snd s)
      else (s', restore_loop L fetched addrs (snd s)))"

subsection \<open>Requests over HTTP\<close>

text \<open>The URL of \<open>doRequest\<close>.\<close>

definition request_url :: "bytes \<Rightarrow> syncOp \<Rightarrow> bytes" where
  "request_url addr x = http_form addr @ Path x"

datatype reply_body = BodyText bytes | BodyOk | BodyError bytes | BodyNotLeader bytes | BodyRole bytes bytes

record http_response =
  status :: nat
  body :: reply_body

definition peer_reply :: "(db_error \<Rightarrow> bytes) \<Rightarrow> db_error option \<Rightarrow> http_response" where
  "peer_reply msg err =
     (case err of
        None \<Rightarrow> \<lparr>status = 202, body = BodyOk\<rparr>
      | Some e \<Rightarrow>
          (case e of
             JSONError _ \<Rightarrow> \<lparr>status = 422, body = BodyError (msg e)\<rparr>
           | ErrWritesRefused \<Rightarrow> \<lparr>status = 503, body = BodyError (msg e)\<rparr>
           | _ \<Rightarrow> \<lparr>status = 400, body = BodyError (msg e)\<rparr>))"

text \<open>The routes of the peers port, with the parameters fiber takes from the path.\<close>

datatype peer_route = PeerWhole | PeerUpdate bytes bytes | PeerForget bytes | PeerClone bytes bytes | PeerVacuum

definition peer_action :: "libs \<Rightarrow> (db_error \<Rightarrow> bytes) \<Rightarrow> peer_route \<Rightarrow> store \<Rightarrow> http_response \<times> store" where
  "peer_action L msg r st =
     (case r of
        PeerWhole \<Rightarrow> (case Get L [] st of (v, st') \<Rightarrow> (\<lparr>status = 200, body = BodyText v\<rparr>, st'))
      | PeerUpdate k raw \<Rightarrow> (case SetRaw L k raw st of (e, st') \<Rightarrow> (peer_reply msg e, st'))
      | PeerForget k \<Rightarrow> (case Del k st of (e, st') \<Rightarrow> (peer_reply msg e, st'))
      | PeerClone a b \<Rightarrow> (case Clone L a b st of (e, st') \<Rightarrow> (peer_reply msg e, st'))
      | PeerVacuum \<Rightarrow> (\<lparr>status = 202, body = BodyOk\<rparr>, Vacuum st))"

end
