(* ===== verification/HttpApi.thy ===== *)
theory HttpApi
  imports Replication ClusterLaws
begin

text \<open>
  \<open>internal/httpapi\<close>: the client's HTTP routes and the mapping of a write's result to a response.
  Routing and the parameters of a path are the fiber library's; a request is the route it chose.
\<close>

subsection \<open>Responses\<close>

definition as_json_error :: "cluster_error \<Rightarrow> bool" where
  "as_json_error e = (case e of DbError d \<Rightarrow> (case d of JSONError _ \<Rightarrow> True | _ \<Rightarrow> False) | _ \<Rightarrow> False)"

definition http_reply :: "cluster_libs \<Rightarrow> cluster_error option \<Rightarrow> http_response" where
  "http_reply K err =
     (case err of
        None \<Rightarrow> \<lparr>status = 202, body = BodyOk\<rparr>
      | Some e \<Rightarrow>
          if as_json_error e then \<lparr>status = 422, body = BodyError (errText K e)\<rparr>
          else
            (case AsNotLeader e of
               Some a \<Rightarrow> \<lparr>status = 409, body = BodyNotLeader a\<rparr>
             | None \<Rightarrow>
                 if e = DbError ErrWritesRefused then \<lparr>status = 503, body = BodyError (errText K e)\<rparr>
                 else \<lparr>status = 400, body = BodyError (errText K e)\<rparr>))"

definition version :: bytes where
  "version = ''v0.8.0''"

subsection \<open>Routes\<close>

datatype http_route =
    RootRoute
  | WholeRoute
  | SingleRoute bytes
  | UpdateRoute bytes bytes
  | ForgetRoute bytes
  | CloneRoute bytes bytes
  | VacuumRoute

definition respond :: "cluster_libs \<Rightarrow> cluster_error option \<times> cnode \<Rightarrow> http_response \<times> cnode" where
  "respond K r = (case r of (err, n) \<Rightarrow> (http_reply K err, n))"

definition read_db :: "libs \<Rightarrow> bytes \<Rightarrow> cnode \<Rightarrow> http_response \<times> cnode" where
  "read_db L k n =
     (case Get L k (db_of n) of (v, st) \<Rightarrow> (\<lparr>status = 200, body = BodyText v\<rparr>, n\<lparr>db_of := st\<rparr>))"

definition http_action :: "libs \<Rightarrow> cluster_libs \<Rightarrow> outside \<Rightarrow> http_route \<Rightarrow> cnode \<Rightarrow> http_response \<times> cnode" where
  "http_action L K X r n =
     (case r of
        RootRoute \<Rightarrow> (\<lparr>status = 200, body = BodyRole (role (raft_of X) n) version\<rparr>, n)
      | WholeRoute \<Rightarrow> read_db L [] n
      | SingleRoute k \<Rightarrow> read_db L k n
      | UpdateRoute k raw \<Rightarrow> respond K (ApplySetRaw L K X k raw n)
      | ForgetRoute k \<Rightarrow> respond K (ApplyDelete L K X k n)
      | CloneRoute a b \<Rightarrow> respond K (ApplyClone L K X a b n)
      | VacuumRoute \<Rightarrow> respond K (ApplyVacuum L K X n))"

subsection \<open>A write and its response\<close>

text \<open>What the hook is told of a write.\<close>

fun told :: "http_route \<Rightarrow> write_msg list" where
  "told (UpdateRoute k raw) = [no_write\<lparr>wOp := ''set'', wKey := k, wRaw := trim_space raw\<rparr>]"
| "told (ForgetRoute k) = [no_write\<lparr>wOp := ''del'', wKey := k\<rparr>]"
| "told (CloneRoute a b) = [no_write\<lparr>wOp := ''clone'', wFromKey := a, wToKey := b\<rparr>]"
| "told _ = []"

definition is_write :: "http_route \<Rightarrow> bool" where
  "is_write r \<longleftrightarrow> (case r of UpdateRoute _ _ \<Rightarrow> True | ForgetRoute _ \<Rightarrow> True | CloneRoute _ _ \<Rightarrow> True
     | VacuumRoute \<Rightarrow> True | _ \<Rightarrow> False)"

lemma reply_202: "status (http_reply K err) = 202 \<longleftrightarrow> err = None"
  by (auto simp: http_reply_def split: option.split)

lemma reply_409: "status (http_reply K err) = 409 \<longleftrightarrow> (\<exists>a. err = Some (NotLeader a))"
  by (auto simp: http_reply_def as_json_error_def AsNotLeader_def split: option.split cluster_error.split)

lemma local_error: "fst (applyLocal L c st) \<noteq> Some (NotLeader a)"
  by (auto simp: applyLocal_def db_result_def)

lemma alone_command:
  assumes "\<not> enabled (mgr n) \<or> \<not> has_raft (mgr n)" and "apply_command L K X c n = (err, n')" and "cOp c \<noteq> ''set''"
  shows "(err \<noteq> None \<longrightarrow> n' = n) \<and> err \<noteq> Some (NotLeader a) \<and>
    (err = None \<longrightarrow> hooked n' = hooked n @
      (if \<not> localWriteHook n then []
       else if cOp c = ''del'' then [no_write\<lparr>wOp := ''del'', wKey := cKey c\<rparr>]
       else if cOp c = ''clone'' then [no_write\<lparr>wOp := ''clone'', wFromKey := cFromKey c, wToKey := cToKey c\<rparr>] else []))"
proof -
  obtain e st where a: "applyLocal L c (db_of n) = (e, st)" by fastforce
  then have "e \<noteq> Some (NotLeader a)" using local_error [of L c "db_of n" a] by simp
  then show ?thesis using assms a applyLocal_failed [of L c "db_of n"]
    by (cases e) (auto simp: apply_command_def notifyLocalWrite_def call_hook_def Let_def)
qed

lemma alone_set:
  assumes "\<not> enabled (mgr n) \<or> \<not> has_raft (mgr n)" and "ApplySetRaw L K X k raw n = (err, n')"
  shows "(err \<noteq> None \<longrightarrow> n' = n) \<and> err \<noteq> Some (NotLeader a) \<and>
    (err = None \<longrightarrow> hooked n' = hooked n @
      (if \<not> localWriteHook n then [] else [no_write\<lparr>wOp := ''set'', wKey := k, wRaw := trim_space raw\<rparr>]))"
proof -
  obtain e st where "SetRaw L k raw (db_of n) = (e, st)" by fastforce
  then show ?thesis using assms SetRaw_failed [of L k raw "db_of n"]
    by (cases e) (auto simp: ApplySetRaw_def db_result_def call_hook_def Let_def)
qed

text \<open>C37. On a node without Raft a write that is answered with anything but 202 leaves the node as
  it was and is told to no peer; one that is answered with 202 is told to the peers exactly once,
  but for a vacuum, which is this node's own. No client is sent to another leader.\<close>

theorem write_answered_or_nothing:
  assumes "\<not> enabled (mgr n) \<or> \<not> has_raft (mgr n)" and "is_write r" and "http_action L K X r n = (resp, n')"
  shows "(status resp \<noteq> 202 \<longrightarrow> n' = n) \<and> status resp \<noteq> 409 \<and>
    (status resp = 202 \<longrightarrow> hooked n' = hooked n @ (if localWriteHook n then told r else []))"
proof (cases r)
  case (UpdateRoute k raw)
  obtain err m where "ApplySetRaw L K X k raw n = (err, m)" by fastforce
  then show ?thesis using alone_set [OF assms(1)] assms(3) UpdateRoute
    by (auto simp: http_action_def respond_def reply_202 reply_409)
next
  case (ForgetRoute k)
  obtain err m where "ApplyDelete L K X k n = (err, m)" by fastforce
  then show ?thesis using alone_command [OF assms(1), of L K X "no_command\<lparr>cOp := ''del'', cKey := k\<rparr>"] assms(3) ForgetRoute
    by (auto simp: http_action_def respond_def reply_202 reply_409 ApplyDelete_def no_command_def)
next
  case (CloneRoute a b)
  obtain err m where "ApplyClone L K X a b n = (err, m)" by fastforce
  then show ?thesis
    using alone_command [OF assms(1), of L K X "no_command\<lparr>cOp := ''clone'', cFromKey := a, cToKey := b\<rparr>"] assms(3) CloneRoute
    by (auto simp: http_action_def respond_def reply_202 reply_409 ApplyClone_def no_command_def)
next
  case VacuumRoute
  obtain err m where "ApplyVacuum L K X n = (err, m)" by fastforce
  then show ?thesis using alone_command [OF assms(1), of L K X "no_command\<lparr>cOp := ''vacuum''\<rparr>"] assms(3) VacuumRoute
    by (auto simp: http_action_def respond_def reply_202 reply_409 ApplyVacuum_def no_command_def)
qed (use assms(2) in \<open>simp_all add: is_write_def\<close>)

definition lone_node :: cnode where
  "lone_node = \<lparr>mgr = no_manager, db_of = init_store, localWriteHook = True, hooked = []\<rparr>"

definition no_codec :: cluster_libs where
  "no_codec = \<lparr>jsonCommand = (\<lambda>_. None), jsonDecodeCommand = (\<lambda>_. CmdErr []), jsonValue = (\<lambda>_. None),
     jsonLeader = (\<lambda>_. None), errText = (\<lambda>_. [])\<rparr>"

definition bare_libs :: libs where
  "bare_libs = \<lparr>gjsonParse = GOther, gjsonGet = (\<lambda>_ _. []), goDecode = (\<lambda>_. DecEOF), goUnmarshal = (\<lambda>_. None)\<rparr>"

definition nothing_outside :: outside where
  "nothing_outside = \<lparr>raft_of = \<lparr>raftState = Follower, leaderWithID = (\<lambda>_. ([], [])), futureError = (\<lambda>_. None), otherEntries = (\<lambda>st. st)\<rparr>,
     net_of = \<lparr>now_before = 0, now_after = 0, dial = Inl NetReset, exchange = (\<lambda>_ _. \<lparr>write_error = None, arrived = [], ended = NetEOF\<rparr>),
       meanwhile = (\<lambda>_ p. p)\<rparr>, http_of = (\<lambda>_. Inl [])\<rparr>"

theorem write_answered_or_nothing_witness:
  "hooked (snd (http_action bare_libs no_codec nothing_outside (ForgetRoute ''k'') lone_node)) = [no_write\<lparr>wOp := ''del'', wKey := ''k''\<rparr>]"
proof -
  obtain resp n' where a: "http_action bare_libs no_codec nothing_outside (ForgetRoute ''k'') lone_node = (resp, n')" by fastforce
  then have "status resp = 202"
    by (auto simp: http_action_def respond_def ApplyDelete_def apply_command_def applyLocal_def db_result_def Del_def
        checkWritable_def lone_node_def no_manager_def init_store_def no_command_def Let_def reply_202)
  then show ?thesis using write_answered_or_nothing [OF _ _ a] a by (simp add: lone_node_def no_manager_def is_write_def)
qed

end
