(* ===== verification/Config.thy ===== *)
theory Config
  imports Replication ClusterLaws
begin

text \<open>
  \<open>internal/config/config.go\<close> and \<open>cmd/simpleconf/main.go\<close>: what the configuration says, and what
  \<open>main\<close> sets up from it before it serves. Reading files and the environment is the viper
  library's.
\<close>

subsection \<open>Reading\<close>

record viper =
  getString :: "bytes \<Rightarrow> bytes"
  getBool :: "bytes \<Rightarrow> bool"
  getInt :: "bytes \<Rightarrow> int"
  getStringSlice :: "bytes \<Rightarrow> bytes list"

text \<open>What \<open>ReadInConfig\<close> returns, a missing file apart.\<close>

datatype read_result = ConfigRead | ConfigMissing | ConfigBroken bytes

record config =
  Listen_addr :: bytes
  TCPListen :: bytes
  DBDir :: bytes
  FsyncText :: bytes
  Backups :: int
  RaftCfg :: cluster_config
  PeerAddrs :: "bytes list"
  PeerListen :: bytes

fun first :: "bytes list \<Rightarrow> bytes" where
  "first [] = []"
| "first (v # vs) = (if v \<noteq> [] then v else first vs)"

definition parse_row :: "bytes \<Rightarrow> peer list" where
  "parse_row row0 =
     (let row = trim_space row0 in
      if row = [] then []
      else
        (let parts = split_byte (CHR '','') row in
         if length parts < 2 then []
         else [\<lparr>pID = trim_space (parts ! 0), pRaftAddr = trim_space (parts ! 1),
                pHTTPAddr = (if 2 < length parts then trim_space (parts ! 2) else [])\<rparr>]))"

definition parseRaftPeers :: "bytes list \<Rightarrow> peer list" where
  "parseRaftPeers raw = concat (map parse_row raw)"

text \<open>\<open>v\<close> answers with the defaults \<open>Load\<close> has set. \<open>Dir\<close> is left to \<open>main\<close>.\<close>

definition Load :: "read_result \<Rightarrow> viper \<Rightarrow> bytes + config" where
  "Load rd v =
     (case rd of
        ConfigBroken e \<Rightarrow> Inl e
      | _ \<Rightarrow>
          Inr \<lparr>Listen_addr = getString v ''listen'',
               TCPListen = first [getString v ''tcp_listen'', getString v ''tcp.listen''],
               DBDir = first [getString v ''db_dir'', getString v ''db.dir'', ''/data''],
               FsyncText = getString v ''db.fsync'',
               Backups = getInt v ''db.backups'',
               RaftCfg = \<lparr>cfgEnabled = getBool v ''raft.enabled'', cfgForward = getBool v ''raft.forward'',
                 cfgNodeID = getString v ''raft.node_id'', cfgRaftAddr = getString v ''raft.listen'',
                 cfgHTTPAddr = getString v ''raft.http_addr'', cfgDir = [],
                 cfgBootstrap = getBool v ''raft.bootstrap'',
                 cfgPeers = parseRaftPeers (getStringSlice v ''raft.peers''),
                 cfgFsync = getString v ''raft.fsync''\<rparr>,
               PeerAddrs = getStringSlice v ''peers.addresses'',
               PeerListen = first [getString v ''peers.listen'', getString v ''peers_listen'']\<rparr>)"

subsection \<open>Starting\<close>

text \<open>
  \<open>main\<close> up to the servers: \<open>load\<close> is \<open>db.Init\<close>, which theory \<open>Persist\<close> models, on the store;
  \<open>fetched\<close> what the peers answer. A failure ends the process.
\<close>

datatype fatal = BadFsync bytes | BadRaft start_error

record node_setup =
  set_node :: cnode
  set_peers :: peers_state
  set_open :: "resource set"
  serves_peers :: bool
  serves_tcp :: bool

definition main_setup ::
  "queue_world \<Rightarrow> libs \<Rightarrow> start_calls \<Rightarrow> (bytes \<Rightarrow> bytes option) \<Rightarrow> (store \<Rightarrow> store) \<Rightarrow> config \<Rightarrow> fatal + node_setup" where
  "main_setup Q L I fetched load cfg =
     (let raft = cfgEnabled (RaftCfg cfg);
          st1 = (if raft then DisableAOF init_store else init_store) in
      (case ParseFsyncPolicy (FsyncText cfg) of
         (_, Some e) \<Rightarrow> Inl (BadFsync e)
       | (policy, None) \<Rightarrow>
           let st2 = load (SetBackups (Backups cfg) (SetFsyncPolicy policy st1));
               ps1 = SetFsyncPolicy_peers policy new_peers;
               ps2 = (if raft then ps1 else SetWALDir (DBDir cfg @ ''/peers-wal'') ps1) in
           (case Start_manager I ((RaftCfg cfg)\<lparr>cfgDir := DBDir cfg @ ''/raft''\<rparr>) of
              (Inl e, _, _) \<Rightarrow> Inl (BadRaft e)
            | (Inr m, res, _) \<Rightarrow>
                let n = SetDefault m \<lparr>mgr = no_manager, db_of = st2, localWriteHook = False, hooked = []\<rparr> in
                if raft then
                  Inr \<lparr>set_node = n, set_peers = ps2, set_open = res, serves_peers = False, serves_tcp = TCPListen cfg \<noteq> []\<rparr>
                else
                  (case Restore Q L fetched (PeerAddrs cfg) (ps2, db_of n) of
                     (ps3, st3) \<Rightarrow>
                       let n1 = n\<lparr>db_of := st3\<rparr>;
                           n2 = (if PeerAddrs cfg \<noteq> [] then SetLocalWriteHook True n1 else n1) in
                       Inr \<lparr>set_node = n2, set_peers = ps3, set_open = res,
                            serves_peers = PeerListen cfg \<noteq> [], serves_tcp = TCPListen cfg \<noteq> []\<rparr>))))"

subsection \<open>Running and stopping\<close>

text \<open>
  What \<open>main\<close> starts, and what its deferred calls stop, the last one first. \<open>log.Fatalf\<close> ends the
  process at once; \<open>log.Panic\<close> runs the deferred calls when \<open>main\<close> itself panics, and none when the
  goroutine of a server does because its address cannot be listened on.
\<close>

datatype deferred_call = CloseDb | ShutdownManager | ShutdownHTTP | ShutdownTCP

datatype main_event =
    DbOpened | ManagerStarted | PeersRestored | HookSet | PeersServing | HTTPServing | TCPServing
  | Deferred deferred_call

datatype main_end = Signalled | ListenFailed

definition run_deferred :: "deferred_call list \<Rightarrow> main_event list" where
  "run_deferred ds = map Deferred (rev ds)"

definition main_run :: "fatal + node_setup \<Rightarrow> config \<Rightarrow> main_end \<Rightarrow> main_event list" where
  "main_run setup cfg fin =
     (case setup of
        Inl (BadFsync e) \<Rightarrow> []
      | Inl (BadRaft e) \<Rightarrow> DbOpened # run_deferred [CloseDb]
      | Inr s \<Rightarrow>
          [DbOpened, ManagerStarted] @
          (if cfgEnabled (RaftCfg cfg) then []
           else [PeersRestored] @ (if PeerAddrs cfg \<noteq> [] then [HookSet] else []) @
             (if serves_peers s then [PeersServing] else [])) @
          [HTTPServing] @ (if serves_tcp s then [TCPServing] else []) @
          (case fin of
             ListenFailed \<Rightarrow> []
           | Signalled \<Rightarrow> run_deferred [CloseDb, ShutdownManager, ShutdownHTTP, ShutdownTCP]))"

text \<open>After a signal, and when Raft does not start, the database is closed, as the very last thing;
  when a server cannot listen it is not closed at all.\<close>

lemma database_closed_last:
  "(\<exists>s. setup = Inr s \<and> fin = Signalled) \<or> (\<exists>e. setup = Inl (BadRaft e)) \<Longrightarrow>
    \<exists>es. main_run setup cfg fin = es @ [Deferred CloseDb] \<and> DbOpened \<in> set es"
  by (auto simp: main_run_def run_deferred_def)

lemma listen_failure_skips_close: "Deferred CloseDb \<notin> set (main_run (Inr s) cfg ListenFailed)"
  by (simp add: main_run_def)

subsection \<open>Properties\<close>

text \<open>How a peer is written in the configuration.\<close>

definition field_ok :: "bytes \<Rightarrow> bool" where
  "field_ok s \<longleftrightarrow> s \<noteq> [] \<and> printable (hd s) \<and> printable (last s) \<and> CHR '','' \<notin> set s"

definition peer_ok :: "peer \<Rightarrow> bool" where
  "peer_ok p \<longleftrightarrow> field_ok (pID p) \<and> field_ok (pRaftAddr p) \<and> (pHTTPAddr p = [] \<or> field_ok (pHTTPAddr p))"

definition peer_row :: "peer \<Rightarrow> bytes" where
  "peer_row p = pID p @ CHR '','' # pRaftAddr p @ (if pHTTPAddr p = [] then [] else CHR '','' # pHTTPAddr p)"

lemma field_trim: "field_ok s \<Longrightarrow> trim_space s = s"
  by (simp add: field_ok_def trim_space_printable)

lemma parse_peer_row:
  assumes "peer_ok p"
  shows "parse_row (peer_row p) = [p]"
proof -
  have f: "field_ok (pID p)" "field_ok (pRaftAddr p)" "pHTTPAddr p = [] \<or> field_ok (pHTTPAddr p)"
    using assms by (simp_all add: peer_ok_def)
  have row: "trim_space (peer_row p) = peer_row p"
    using f by (intro trim_space_printable) (auto simp: peer_row_def field_ok_def)
  have "split_byte (CHR '','') (peer_row p) =
      pID p # pRaftAddr p # (if pHTTPAddr p = [] then [] else [pHTTPAddr p])"
    using f by (auto simp: peer_row_def field_ok_def split_byte_append split_byte_none)
  moreover have "peer_row p \<noteq> []" by (simp add: peer_row_def)
  ultimately show ?thesis using f by (auto simp: parse_row_def row field_trim Let_def)
qed

text \<open>The peers of a Raft cluster are read back from their rows as they were written, with or
  without the HTTP address, and blank rows are skipped.\<close>

theorem peer_rows_round_trip:
  assumes "list_all peer_ok ps" and "\<forall>b \<in> set blanks. trim_space b = []"
  shows "parseRaftPeers (blanks @ map peer_row ps) = ps"
proof -
  have "concat (map parse_row blanks) = []" using assms(2) by (simp add: parse_row_def)
  moreover have "concat (map parse_row (map peer_row ps)) = ps"
    using assms(1) by (induction ps) (simp_all add: parse_peer_row)
  ultimately show ?thesis by (simp add: parseRaftPeers_def)
qed

theorem peer_rows_round_trip_witness:
  "parseRaftPeers [''n1,h1:7000'', ''n2,h2:7000,http://h2''] =
    [\<lparr>pID = ''n1'', pRaftAddr = ''h1:7000'', pHTTPAddr = []\<rparr>,
     \<lparr>pID = ''n2'', pRaftAddr = ''h2:7000'', pHTTPAddr = ''http://h2''\<rparr>]"
  using peer_rows_round_trip [of "[\<lparr>pID = ''n1'', pRaftAddr = ''h1:7000'', pHTTPAddr = []\<rparr>,
     \<lparr>pID = ''n2'', pRaftAddr = ''h2:7000'', pHTTPAddr = ''http://h2''\<rparr>]" "[]"]
  by (simp add: peer_ok_def field_ok_def peer_row_def printable_def)

text \<open>A node that starts replicates in one way: under Raft it keeps no log file of its own and
  has no queues to peers, without Raft it has no manager to ask, and its writes go to the peers
  exactly when some are configured.\<close>

theorem one_way_of_replication:
  assumes "main_setup Q L I fetched load cfg = Inr s" and "\<And>st. aofEnabled (load st) = aofEnabled st"
  shows "if cfgEnabled (RaftCfg cfg)
    then \<not> aofEnabled (db_of (set_node s)) \<and> workers (set_peers s) = [] \<and> \<not> localWriteHook (set_node s) \<and>
      enabled (mgr (set_node s)) \<and> has_raft (mgr (set_node s)) \<and> set_open s = {PortOpen, FilesOpen, RaftOpen}
    else \<not> enabled (mgr (set_node s)) \<and> set_open s = {} \<and>
      (localWriteHook (set_node s) \<longleftrightarrow> PeerAddrs cfg \<noteq> [])"
proof -
  let ?rc = "(RaftCfg cfg)\<lparr>cfgDir := DBDir cfg @ ''/raft''\<rparr>"
  obtain policy where pol: "ParseFsyncPolicy (FsyncText cfg) = (policy, None)"
    using assms(1) by (cases "ParseFsyncPolicy (FsyncText cfg)") (auto simp: main_setup_def Let_def split: option.splits)
  obtain m res lz where st: "Start_manager I ?rc = (Inr m, res, lz)"
    using assms(1) pol by (cases "Start_manager I ?rc") (auto simp: main_setup_def Let_def split: sum.splits)
  show ?thesis
  proof (cases "cfgEnabled (RaftCfg cfg)")
    case True
    then have "enabled m" "has_raft m" "res = {PortOpen, FilesOpen, RaftOpen}"
      using started_fields [OF st] by simp_all
    then show ?thesis using assms pol st True
      by (auto simp: main_setup_def Let_def SetDefault_def SetFsyncPolicy_peers_def new_peers_def SetBackups_def
          SetFsyncPolicy_def DisableAOF_def)
  next
    case False
    then have "\<not> enabled m" "res = {}" using st by (auto simp: Start_manager_def no_manager_def)
    then show ?thesis using assms(1) pol st False
      by (auto simp: main_setup_def Let_def SetDefault_def SetLocalWriteHook_def split: prod.splits if_splits)
  qed
qed

definition plain_config :: config where
  "plain_config = \<lparr>Listen_addr = '':23456'', TCPListen = [], DBDir = ''/data'', FsyncText = [], Backups = 3,
     RaftCfg = \<lparr>cfgEnabled = False, cfgForward = True, cfgNodeID = [], cfgRaftAddr = [], cfgHTTPAddr = [], cfgDir = [],
       cfgBootstrap = False, cfgPeers = [], cfgFsync = []\<rparr>, PeerAddrs = [], PeerListen = []\<rparr>"

definition plain_world :: queue_world where
  "plain_world = \<lparr>op_codec = \<lparr>encode = (\<lambda>_. None), decode = (\<lambda>_. None)\<rparr>, sha1_hex = (\<lambda>s. s), file_at = (\<lambda>_. []),
     load_io = undefined, write_io = undefined, sync_io = undefined, sync_works = (\<lambda>_. True)\<rparr>"

theorem one_way_of_replication_witness:
  "\<exists>s. main_setup plain_world \<lparr>gjsonParse = GOther, gjsonGet = (\<lambda>_ _. []), goDecode = (\<lambda>_. DecEOF), goUnmarshal = (\<lambda>_. None)\<rparr>
      \<lparr>mkdir_error = None, resolve_error = None, advertisable = True, listen_error = None, filestore_error = None,
        snapshots_error = None, raft_error = None, bootstrap_error = None, cant_bootstrap = False\<rparr>
      (\<lambda>_. None) (\<lambda>st. st) plain_config = Inr s \<and> \<not> localWriteHook (set_node s)"
proof -
  let ?L = "\<lparr>gjsonParse = GOther, gjsonGet = (\<lambda>_ _. []), goDecode = (\<lambda>_. DecEOF), goUnmarshal = (\<lambda>_. None)\<rparr>"
  let ?I = "\<lparr>mkdir_error = None, resolve_error = None, advertisable = True, listen_error = None, filestore_error = None,
    snapshots_error = None, raft_error = None, bootstrap_error = None, cant_bootstrap = False\<rparr>"
  obtain s where s: "main_setup plain_world ?L ?I (\<lambda>_. None) (\<lambda>st. st) plain_config = Inr s"
    by (simp add: main_setup_def plain_config_def ParseFsyncPolicy_def Start_manager_def Restore_def Configure_def ensureWorkers_def
        Let_def)
  then show ?thesis using one_way_of_replication [OF s] by (simp add: plain_config_def)
qed

end
