(* ===== verification/QueueLaws.thy ===== *)
theory QueueLaws
  imports PeersQueue
begin

text \<open>
  Facts about the queue's file: how records are read back, what every operation keeps of it,
  and so what a crash can leave behind.
\<close>

subsection \<open>Reading records\<close>

text \<open>
  What is asked of the JSON library for an operation: it is written on one line, which ends in
  a printable character (the closing brace), and reads back as it was.
\<close>

definition kept :: "codec \<Rightarrow> syncOp \<Rightarrow> bool" where
  "kept C x \<longleftrightarrow>
     (case encode C x of
        None \<Rightarrow> False
      | Some b \<Rightarrow> b \<noteq> [] \<and> printable (last b) \<and> nl \<notin> set b \<and> decode C b = Some x)"

definition whole_lines :: "bytes \<Rightarrow> bool" where
  "whole_lines bs \<longleftrightarrow> bs = [] \<or> last bs = nl"

lemma load_none: "nl \<notin> set bs \<Longrightarrow> load_loop C bs q n = (None, q, n)"
  using index_byte_None [of nl bs] by (simp add: load_loop.simps)

lemma index_line: "nl \<notin> set l \<Longrightarrow> index_byte nl (l @ nl # r) = Some (length l)"
  by (rule index_byte_append)

lemma load_line:
  assumes "nl \<notin> set l" "trim_space (l @ [nl]) = t"
  shows "load_loop C (l @ nl # r) q n =
    (if t = [] then load_loop C r q n
     else if has_prefix t ''E '' then
       (case decode C (drop 2 t) of
          None \<Rightarrow> (Some (DecodeFailed (drop 2 t)), q, Suc n)
        | Some x \<Rightarrow> load_loop C r (q @ [x]) (Suc n))
     else if t = ''A'' then load_loop C r (tl q) (Suc n)
     else (Some (InvalidRecord t), q, Suc n))"
proof -
  have "take (Suc (length l)) (l @ nl # r) = l @ [nl]" "drop (Suc (length l)) (l @ nl # r) = r" by simp_all
  then show ?thesis
    unfolding load_loop.simps [of C "l @ nl # r" q n] index_line [OF assms(1)]
    by (simp add: assms(2) Let_def)
qed

lemma load_E:
  assumes "kept C x" "encode C x = Some b"
  shows "load_loop C (E_record b @ r) q n = load_loop C r (q @ [x]) (Suc n)"
proof -
  have b: "b \<noteq> []" "printable (last b)" "nl \<notin> set b" "decode C b = Some x"
    using assms by (simp_all add: kept_def)
  have "trim_space ((''E '' @ b) @ [nl]) = ''E '' @ b"
    using b by (intro trim_line) (simp_all add: printable_def)
  from load_line [OF _ this, of C r q n] show ?thesis
    using b by (simp add: E_record_def has_prefix_def)
qed

lemma load_A: "load_loop C (A_record @ r) q n = load_loop C r (tl q) (Suc n)"
proof -
  have "trim_space (''A'' @ [nl]) = ''A''" by (rule trim_line) (simp_all add: printable_def)
  from load_line [OF _ this, of C r q n] show ?thesis
    by (simp add: A_record_def has_prefix_def)
qed

lemma load_append:
  "load_loop C bs q n = (None, q', n') \<Longrightarrow> whole_lines bs \<Longrightarrow>
    load_loop C (bs @ r) q n = load_loop C r q' n'"
proof (induction C bs q n rule: load_loop.induct)
  case (1 C bs q n)
  show ?case
  proof (cases "index_byte nl bs")
    case None
    then have "nl \<notin> set bs" using index_byte_None [of nl bs] by simp
    with 1(5) have "bs = []" by (metis last_in_set whole_lines_def)
    with 1(4) show ?thesis by (simp add: load_none)
  next
    case (Some i)
    let ?l = "take i bs" and ?rest = "drop (Suc i) bs"
    let ?line = "trim_space (?l @ [nl])"
    have i: "i < length bs" "bs = ?l @ nl # ?rest" "nl \<notin> set ?l"
      using index_byte_Some [OF Some] index_byte_split [OF Some] by simp_all
    have tk: "take (Suc i) bs = ?l @ [nl]" using i(1) index_byte_Some [OF Some] by (simp add: take_Suc_conv_app_nth)
    have whole: "whole_lines ?rest"
      using 1(5) by (cases "Suc i < length bs") (auto simp: whole_lines_def)
    have bs: "load_loop C bs q n = load_loop C (?l @ nl # ?rest) q n"
      "load_loop C (bs @ r) q n = load_loop C (?l @ nl # (?rest @ r)) q n"
      using i(2) by (metis, metis append_Cons append_assoc)
    note line = load_line [OF i(3) refl, of C]
    note IH = "1.IH" [OF Some refl refl, unfolded tk]
    have loaded: "load_loop C (?l @ nl # ?rest) q n = (None, q', n')" using "1.prems"(1) bs(1) by simp
    consider "?line = []" | "?line \<noteq> []" "has_prefix ?line ''E ''"
      | "?line \<noteq> []" "\<not> has_prefix ?line ''E ''" by blast
    then show ?thesis
    proof cases
      case 1
      then show ?thesis using IH(1) loaded whole unfolding bs(2) line by simp
    next
      case 2
      then obtain x where "decode C (drop 2 ?line) = Some x"
        using loaded unfolding line by (auto split: option.splits)
      with 2 show ?thesis using IH(2) loaded whole unfolding bs(2) line by simp
    next
      case 3
      then have "?line = ''A''" using loaded unfolding line by (auto split: if_splits)
      with 3 show ?thesis using IH(3) loaded whole unfolding bs(2) line by simp
    qed
  qed
qed

lemma whole_lines_append: "whole_lines r \<Longrightarrow> whole_lines bs \<Longrightarrow> whole_lines (bs @ r)"
  by (cases r) (auto simp: whole_lines_def)

lemma encode_all_kept:
  "\<forall>x \<in> set xs. kept C x \<Longrightarrow>
    \<exists>buf. encode_all C xs = Some buf \<and> whole_lines buf \<and>
      (\<forall>q n. load_loop C buf q n = (None, q @ xs, n + length xs))"
proof (induction xs)
  case Nil
  then show ?case by (simp add: whole_lines_def load_none)
next
  case (Cons x xs)
  then obtain buf where buf: "encode_all C xs = Some buf" "whole_lines buf"
    "\<And>q n. load_loop C buf q n = (None, q @ xs, n + length xs)" by auto
  obtain b where b: "encode C x = Some b" using Cons.prems by (auto simp: kept_def split: option.splits)
  have "whole_lines (E_record b)" by (simp add: whole_lines_def E_record_def)
  with buf b Cons.prems show ?case
    by (simp add: load_E [OF _ b] whole_lines_append)
qed

text \<open>Reading a record that was cut off leaves the queue as it was before it.\<close>

lemma load_cut_E:
  assumes "kept C x" "encode C x = Some b" "m < length (E_record b)"
  shows "load_loop C (take m (E_record b)) q n = (None, q, n)"
proof -
  have "nl \<notin> set (''E '' @ b)" using assms(1,2) by (simp add: kept_def)
  moreover have "take m (E_record b) = take m (''E '' @ b)"
    using assms(3) by (simp add: E_record_def take_append flip: append_assoc append_Cons del: append_assoc)
  moreover have "set (take m (''E '' @ b)) \<subseteq> set (''E '' @ b)" by (rule set_take_subset)
  ultimately show ?thesis by (metis load_none subset_iff)
qed

lemma load_As:
  "m \<le> 2 * k \<Longrightarrow>
    \<exists>n'. load_loop C (take m (concat (replicate k A_record))) q n = (None, drop (m div 2) q, n')"
proof (induction k arbitrary: m q n)
  case 0
  then show ?case by (simp add: load_none)
next
  case (Suc k)
  show ?case
  proof (cases "m < 2")
    case True
    then have "nl \<notin> set (take m (concat (replicate (Suc k) A_record)))"
      by (auto simp: A_record_def take_Cons split: nat.splits)
    with True show ?thesis by (simp add: load_none)
  next
    case False
    then obtain j where m: "m = Suc (Suc j)" by (metis add_2_eq_Suc le_add_diff_inverse not_less)
    then have "take m (concat (replicate (Suc k) A_record)) = A_record @ take j (concat (replicate k A_record))"
      by (simp add: A_record_def)
    moreover obtain n' where
      "load_loop C (take j (concat (replicate k A_record))) (tl q) (Suc n) = (None, drop (j div 2) (tl q), n')"
      using Suc.IH [of j "tl q" "Suc n"] Suc.prems m by auto
    ultimately show ?thesis using m by (simp add: load_A drop_Suc)
  qed
qed

lemma load_all_As:
  "\<exists>n'. load_loop C (concat (replicate k A_record)) q n = (None, drop k q, n')"
  using load_As [of "2 * k" k C q n] by (simp add: A_record_def length_concat sum_list_replicate)

lemma whole_lines_As: "whole_lines (concat (replicate k A_record))"
proof (induction k)
  case (Suc k)
  have "whole_lines A_record" by (simp add: whole_lines_def A_record_def)
  from whole_lines_append [OF Suc this] show ?case by simp
qed (simp add: whole_lines_def)

subsection \<open>What a crash can leave\<close>

text \<open>
  Loading \<open>bs\<close> gives a stretch of the history: from some operation at or before the first
  that is not taken off, to one at or after the first \<open>base + t\<close>.
\<close>

definition stretch_from :: "nat \<Rightarrow> worker \<Rightarrow> syncOp list \<Rightarrow> bool" where
  "stretch_from t w q \<longleftrightarrow>
     (\<exists>a e. q = take (e - a) (drop a (history w)) \<and> a \<le> acked w \<and> a \<le> e \<and> base w + t \<le> e \<and>
        e \<le> length (history w))"

definition cut_safe :: "codec \<Rightarrow> nat \<Rightarrow> worker \<Rightarrow> bytes \<Rightarrow> bool" where
  "cut_safe C t w bs \<longleftrightarrow> (\<exists>q n. load_loop C bs [] 0 = (None, q, n) \<and> stretch_from t w q)"

definition file_safe :: "codec \<Rightarrow> nat \<Rightarrow> worker \<Rightarrow> wal_file \<Rightarrow> bool" where
  "file_safe C t w x \<longleftrightarrow>
     fsynced x \<le> length (content x) \<and>
     (\<forall>n. fsynced x \<le> n \<and> n \<le> length (content x) \<longrightarrow> cut_safe C t w (take n (content x)))"

lemma stretch_mono:
  assumes "stretch_from t w q" "t' \<le> t" "acked w \<le> acked w'" "base w' = base w"
    and "history w' = history w @ ys"
  shows "stretch_from t' w' q"
proof -
  obtain a e where ae: "q = take (e - a) (drop a (history w))" "a \<le> acked w" "a \<le> e"
    "base w + t \<le> e" "e \<le> length (history w)"
    using assms(1) unfolding stretch_from_def by blast
  then have "q = take (e - a) (drop a (history w'))" using assms(5) by simp
  with ae assms show ?thesis unfolding stretch_from_def
    by (intro exI [of _ a] exI [of _ e]) simp
qed

lemma file_safe_mono:
  assumes "file_safe C t w x" "t' \<le> t" "acked w \<le> acked w'" "base w' = base w" "history w' = history w @ ys"
  shows "file_safe C t' w' x"
proof -
  have "cut_safe C t w bs \<Longrightarrow> cut_safe C t' w' bs" for bs
    using stretch_mono [OF _ assms(2-5)] unfolding cut_safe_def by blast
  with assms(1) show ?thesis unfolding file_safe_def by blast
qed

lemma file_safe_raise:
  "file_safe C t w x \<Longrightarrow> inode x = f \<longrightarrow> len \<le> length (content x) \<Longrightarrow>
    file_safe C t w (raise_fsynced f len x)"
  by (auto simp: file_safe_def raise_fsynced_def)

text \<open>Appending bytes of which every prefix leaves a stretch keeps the file safe.\<close>

definition tail_safe :: "codec \<Rightarrow> nat \<Rightarrow> worker \<Rightarrow> syncOp list \<Rightarrow> bytes \<Rightarrow> bool" where
  "tail_safe C t w q r \<longleftrightarrow>
     (\<forall>k \<le> length r. \<forall>n. \<exists>q' n'. load_loop C (take k r) q n = (None, q', n') \<and> stretch_from t w q')"

lemma tail_safe_take: "tail_safe C t w q r \<Longrightarrow> tail_safe C t w q (take j r)"
  by (auto simp: tail_safe_def)

lemma tail_safe_mono:
  "tail_safe C t w q r \<Longrightarrow> t' \<le> t \<Longrightarrow> tail_safe C t' w q r"
  using stretch_mono [of t w _ t' w "[]"] unfolding tail_safe_def by fastforce

lemma file_safe_append:
  assumes "file_safe C t w x" and load: "load_loop C (content x) [] 0 = (None, q, n0)"
    and whole: "whole_lines (content x)" and tail: "tail_safe C t w q r"
  shows "file_safe C t w (x\<lparr>content := content x @ r\<rparr>)"
proof -
  have "cut_safe C t w (take n (content x @ r))" if "fsynced x \<le> n" "n \<le> length (content x @ r)" for n
  proof (cases "n \<le> length (content x)")
    case True
    with assms(1) that show ?thesis by (simp add: file_safe_def)
  next
    case False
    let ?k = "n - length (content x)"
    have "?k \<le> length r" using that by simp
    then obtain q' n' where "load_loop C (take ?k r) q n0 = (None, q', n')" "stretch_from t w q'"
      using tail unfolding tail_safe_def by blast
    moreover have "take n (content x @ r) = content x @ take ?k r" using False by simp
    ultimately show ?thesis
      using load_append [OF load whole] unfolding cut_safe_def by metis
  qed
  then show ?thesis using assms(1) by (simp add: file_safe_def)
qed

subsection \<open>The invariant\<close>

definition wal_files :: "worker \<Rightarrow> wal_file list" where
  "wal_files w = at_path w # replaced w"

definition files_safe :: "codec \<Rightarrow> nat \<Rightarrow> worker \<Rightarrow> bool" where
  "files_safe C t w \<longleftrightarrow> (\<forall>x \<in> set (wal_files w). file_safe C t w x)"

text \<open>An fsync under way: once it ends, what it is for is safe.\<close>

definition fsync_safe :: "codec \<Rightarrow> worker \<Rightarrow> bool" where
  "fsync_safe C w \<longleftrightarrow>
     (case fsyncing w of
        None \<Rightarrow> True
      | Some (f, target, n, len) \<Rightarrow>
          target \<le> seqno w \<and> f < fresh w \<and>
          (\<forall>x \<in> set (wal_files w). (inode x = f \<longrightarrow> len \<le> length (content x)) \<and>
             file_safe C (max (synced w) target) w (raise_fsynced f len x)))"

definition queue_core :: "codec \<Rightarrow> worker \<Rightarrow> bool" where
  "queue_core C w \<longleftrightarrow>
     pending w = drop (acked w) (history w) \<and> acked w \<le> length (history w) \<and>
     length (history w) = base w + seqno w \<and> synced w \<le> seqno w \<and>
     files_safe C (synced w) w \<and> fsync_safe C w \<and>
     (\<forall>x \<in> set (wal_files w). inode x < fresh w) \<and>
     (\<forall>f. walFile w = Some f \<longrightarrow> f = inode (at_path w))"

text \<open>The file is up to the queue \<open>q\<close>.\<close>

definition level :: "codec \<Rightarrow> worker \<Rightarrow> syncOp list \<Rightarrow> bool" where
  "level C w q \<longleftrightarrow>
     (\<exists>n. load_loop C (content (at_path w)) [] 0 = (None, q, n)) \<and> whole_lines (content (at_path w)) \<and>
     replaced w = []"

definition queue_inv :: "codec \<Rightarrow> worker \<Rightarrow> bool" where
  "queue_inv C w \<longleftrightarrow> queue_core C w \<and> (\<not> needCheckpoint w \<longrightarrow> level C w (pending w))"

definition all_kept :: "codec \<Rightarrow> worker \<Rightarrow> bool" where
  "all_kept C w \<longleftrightarrow> (\<forall>x \<in> set (history w). kept C x)"

lemma stretch_all: "pending w = drop (acked w) (history w) \<Longrightarrow> acked w \<le> length (history w) \<Longrightarrow>
    base w + t \<le> length (history w) \<Longrightarrow> stretch_from t w (pending w)"
  unfolding stretch_from_def by (intro exI [of _ "acked w"] exI [of _ "length (history w)"]) simp

text \<open>A file fully fsynced that loads as the queue is safe for every number so far.\<close>

lemma file_safe_level:
  assumes "queue_core C w" "fsynced x = length (content x)" "t \<le> seqno w"
    and "load_loop C (content x) [] 0 = (None, pending w, n)"
  shows "file_safe C t w x"
proof -
  have "stretch_from t w (pending w)"
    using assms(1,3) by (intro stretch_all) (simp_all add: queue_core_def)
  with assms show ?thesis by (auto simp: file_safe_def cut_safe_def)
qed

text \<open>Fields that the file's safety does not look at.\<close>

lemma file_safe_fields:
  "history w' = history w \<Longrightarrow> acked w' = acked w \<Longrightarrow> base w' = base w \<Longrightarrow>
    file_safe C t w' x = file_safe C t w x"
  by (simp add: file_safe_def cut_safe_def stretch_from_def)

text \<open>New files that hold the whole queue, or the old files, keep the rest.\<close>

lemma queue_core_files:
  assumes core: "queue_core C w"
    and same: "history w' = history w" "acked w' = acked w" "base w' = base w" "pending w' = pending w"
      "seqno w' = seqno w" "fsyncing w' = fsyncing w"
    and more: "synced w \<le> synced w'" "synced w' \<le> seqno w" "fresh w \<le> fresh w'"
    and files: "\<And>x. x \<in> set (wal_files w') \<Longrightarrow>
      x \<in> set (wal_files w) \<and> synced w' = synced w \<or>
      fresh w \<le> inode x \<and> inode x < fresh w' \<and> (\<forall>t \<le> seqno w. file_safe C t w x)"
    and handle: "\<And>f. walFile w' = Some f \<Longrightarrow> f = inode (at_path w')"
  shows "queue_core C w'"
proof -
  note fields = file_safe_fields [of w' w, OF same(1-3)]
  have "files_safe C (synced w') w'"
    unfolding files_safe_def fields
  proof
    fix x assume "x \<in> set (wal_files w')"
    from files [OF this] show "file_safe C (synced w') w x"
      using core more(2) by (auto simp: queue_core_def files_safe_def)
  qed
  moreover have "fsync_safe C w'"
  proof (cases "fsyncing w")
    case None
    then show ?thesis by (simp add: fsync_safe_def same)
  next
    case (Some p)
    obtain f target n len where p: "p = (f, target, n, len)" by (cases p)
    have old: "target \<le> seqno w" "f < fresh w"
      "x \<in> set (wal_files w) \<Longrightarrow> (inode x = f \<longrightarrow> len \<le> length (content x)) \<and>
        file_safe C (max (synced w) target) w (raise_fsynced f len x)" for x
      using core Some p by (auto simp: queue_core_def fsync_safe_def)
    have "(inode x = f \<longrightarrow> len \<le> length (content x)) \<and>
        file_safe C (max (synced w') target) w (raise_fsynced f len x)" if "x \<in> set (wal_files w')" for x
      using files [OF that]
    proof
      assume "x \<in> set (wal_files w) \<and> synced w' = synced w"
      with old(3) show ?thesis by simp
    next
      assume x: "fresh w \<le> inode x \<and> inode x < fresh w' \<and> (\<forall>t \<le> seqno w. file_safe C t w x)"
      then have "raise_fsynced f len x = x" using old(2) by (simp add: raise_fsynced_def)
      with x old(1,2) more(2) show ?thesis by auto
    qed
    with old more(3) show ?thesis
      by (simp add: fsync_safe_def same Some p fields)
  qed
  moreover have "inode x < fresh w'" if "x \<in> set (wal_files w')" for x
    using files [OF that] core more(3) by (auto simp: queue_core_def dest: less_le_trans)
  ultimately show ?thesis
    using core handle more(2) by (simp add: queue_core_def same)
qed

lemma checkpoint_inv:
  assumes core: "queue_core C w" and kept: "all_kept C w"
  shows "queue_inv C (snd (checkpointLocked C io w))"
proof -
  obtain buf where buf: "encode_all C (pending w) = Some buf" "whole_lines buf"
    "\<And>q n. load_loop C buf q n = (None, q @ pending w, n + length (pending w))"
    using encode_all_kept [of "pending w" C] core kept
    by (auto simp: all_kept_def queue_core_def dest: in_set_dropD)
  let ?x = "\<lparr>inode = fresh w, content = buf, fsynced = length buf\<rparr>"
  let ?dir = "w\<lparr>walFile := None, at_path := ?x, replaced := at_path w # replaced w,
      fresh := Suc (fresh w), needCheckpoint := True\<rparr>"
  let ?new = "\<lambda>fo b. w\<lparr>walFile := fo, at_path := ?x, replaced := [], fresh := Suc (fresh w),
      writes := int (length (pending w)), synced := seqno w, needCheckpoint := b\<rparr>"
  have new: "\<forall>t \<le> seqno w. file_safe C t w ?x"
    using file_safe_level [OF core, of ?x] buf(3) by simp
  have seq: "synced w \<le> seqno w" using core by (simp add: queue_core_def)
  then have mark: "markSynced (seqno w) v = v\<lparr>synced := seqno w\<rparr>" if "synced v = synced w" for v :: worker
    using that by (auto simp: markSynced_def)
  have "snd (checkpointLocked C io w) = w\<lparr>walFile := None, needCheckpoint := True\<rparr> \<or>
      snd (checkpointLocked C io w) = ?dir \<or>
      snd (checkpointLocked C io w) = ?new None True \<or>
      snd (checkpointLocked C io w) = ?new (Some (fresh w)) False"
    by (simp add: checkpointLocked_def checkpoint_body_def Let_def buf(1) ensureWALFileLocked_def mark)
  then show ?thesis
  proof (elim disjE)
    assume eq: "snd (checkpointLocked C io w) = w\<lparr>walFile := None, needCheckpoint := True\<rparr>"
    have "queue_core C (w\<lparr>walFile := None, needCheckpoint := True\<rparr>)"
      by (rule queue_core_files [OF core]) (simp_all add: wal_files_def seq)
    then show ?thesis by (simp add: eq queue_inv_def)
  next
    assume eq: "snd (checkpointLocked C io w) = ?dir"
    have "queue_core C ?dir"
      by (rule queue_core_files [OF core]) (use new in \<open>auto simp: wal_files_def seq\<close>)
    then show ?thesis by (simp add: eq queue_inv_def)
  next
    assume eq: "snd (checkpointLocked C io w) = ?new None True"
    have "queue_core C (?new None True)"
      by (rule queue_core_files [OF core]) (use new in \<open>auto simp: wal_files_def seq\<close>)
    then show ?thesis by (simp add: eq queue_inv_def)
  next
    assume eq: "snd (checkpointLocked C io w) = ?new (Some (fresh w)) False"
    have "queue_core C (?new (Some (fresh w)) False)"
      by (rule queue_core_files [OF core]) (use new in \<open>auto simp: wal_files_def seq\<close>)
    with buf(2,3) show ?thesis by (simp add: eq queue_inv_def level_def)
  qed
qed

lemma queue_core_handle:
  assumes "queue_core C w" "\<And>f. fo = Some f \<Longrightarrow> f = inode (at_path w)"
  shows "queue_core C (w\<lparr>walFile := fo, writes := k, needCheckpoint := b\<rparr>)"
  using assms by (intro queue_core_files [OF assms(1)]) (auto simp: wal_files_def queue_core_def)

text \<open>The queue changed and its file did not yet.\<close>

lemma queue_core_grow:
  assumes core: "queue_core C w0"
    and same: "base w = base w0" "synced w = synced w0" "fsyncing w = fsyncing w0" "fresh w = fresh w0"
      "wal_files w = wal_files w0" "walFile w = walFile w0"
    and new: "history w = history w0 @ ys" "seqno w = seqno w0 + length ys" "acked w0 \<le> acked w"
      "acked w \<le> length (history w)" "pending w = drop (acked w) (history w)"
  shows "queue_core C w"
proof -
  have mono: "file_safe C t w0 x \<Longrightarrow> file_safe C t w x" for t x
    using file_safe_mono [OF _ order.refl new(3) same(1) new(1)] by blast
  have "files_safe C (synced w) w"
    using core mono by (simp add: queue_core_def files_safe_def same)
  moreover have "fsync_safe C w"
    using core mono by (auto simp: queue_core_def fsync_safe_def same new split: option.splits)
  moreover have "at_path w = at_path w0" using same(5) by (simp add: wal_files_def)
  ultimately show ?thesis
    using core new by (simp add: queue_core_def same)
qed

lemma append_bytes_core:
  assumes core: "queue_core C w" and level: "level C w q" and tail: "tail_safe C T w q r"
    and T: "synced w \<le> T" "\<And>f tg n len. fsyncing w = Some (f, tg, n, len) \<Longrightarrow> tg \<le> T"
  shows "queue_core C (append_bytes r w)"
proof -
  let ?w = "append_bytes r w" and ?x = "at_path w"
  let ?y = "?x\<lparr>content := content ?x @ r\<rparr>"
  have files: "wal_files w = [?x]" "wal_files ?w = [?y]"
    using level by (simp_all add: wal_files_def append_bytes_def level_def)
  have fields: "file_safe C t ?w x = file_safe C t w x" for t x
    by (rule file_safe_fields) (simp_all add: append_bytes_def)
  obtain n0 where load: "load_loop C (content ?x) [] 0 = (None, q, n0)" "whole_lines (content ?x)"
    using level by (auto simp: level_def)
  have grow: "file_safe C t w (z\<lparr>content := content z @ r\<rparr>)"
    if "file_safe C t w z" "t \<le> T" "content z = content ?x" for z t
    using file_safe_append [OF that(1)] load tail_safe_mono [OF tail that(2)] that(3) by simp
  have "files_safe C (synced ?w) ?w"
    using core grow [of "synced w" ?x] T(1)
    by (simp add: files_safe_def files fields queue_core_def) (simp add: append_bytes_def)
  moreover have "fsync_safe C ?w"
  proof (cases "fsyncing w")
    case None
    then show ?thesis by (simp add: fsync_safe_def append_bytes_def)
  next
    case (Some p)
    obtain f target n len where p: "p = (f, target, n, len)" by (cases p)
    have old: "target \<le> seqno w" "f < fresh w" "inode ?x = f \<longrightarrow> len \<le> length (content ?x)"
      "file_safe C (max (synced w) target) w (raise_fsynced f len ?x)"
      using core Some p files by (auto simp: queue_core_def fsync_safe_def)
    have "raise_fsynced f len ?y = (raise_fsynced f len ?x)\<lparr>content := content ?x @ r\<rparr>"
      by (simp add: raise_fsynced_def)
    moreover have "file_safe C (max (synced w) target) w ((raise_fsynced f len ?x)\<lparr>content := content ?x @ r\<rparr>)"
      using grow [OF old(4)] T(1) T(2) [OF Some [unfolded p]] by (simp add: raise_fsynced_def)
    moreover have "fsyncing ?w = Some (f, target, n, len)" "seqno ?w = seqno w" "fresh ?w = fresh w"
      "synced ?w = synced w"
      by (simp_all add: append_bytes_def Some p)
    ultimately show ?thesis
      using old by (auto simp: fsync_safe_def files fields)
  qed
  ultimately show ?thesis
    using core files by (simp add: queue_core_def) (simp add: append_bytes_def)
qed

lemma appendLocked_inv:
  assumes core: "queue_core C w" and kept: "all_kept C w"
    and level: "\<not> needCheckpoint w \<Longrightarrow> level C w q"
    and tail: "tail_safe C T w q r" and loads: "\<And>n. \<exists>n'. load_loop C r q n = (None, pending w, n')"
    and whole: "whole_lines r"
    and T: "synced w \<le> T" "\<And>f tg n len. fsyncing w = Some (f, tg, n, len) \<Longrightarrow> tg \<le> T"
  shows "queue_inv C (snd (appendLocked C io r k w))"
proof (cases "needCheckpoint w")
  case True
  then show ?thesis using checkpoint_inv [OF core kept] by (simp add: appendLocked_def)
next
  case False
  note lv = level [OF False]
  obtain err w1 where ens: "ensureWALFileLocked (ensure_mkdir_ok io) (ensure_open_ok io) w = (err, w1)" by fastforce
  have w1: "w1 = w\<lparr>walFile := walFile w1\<rparr>" "\<And>f. walFile w1 = Some f \<Longrightarrow> f = inode (at_path w)"
    using ens core by (auto simp: ensureWALFileLocked_def queue_core_def split: if_splits)
  have handle: "queue_core C (v\<lparr>walFile := walFile w1, writes := j, needCheckpoint := b\<rparr>)"
    if "queue_core C v" "inode (at_path v) = inode (at_path w)" for v j b
    using queue_core_handle [OF that(1)] w1(2) that(2) by simp
  show ?thesis
  proof (cases err)
    case (Some e)
    have "appendLocked C io r k w = (Some e, w1\<lparr>needCheckpoint := True\<rparr>)"
      using False ens Some by (simp add: appendLocked_def)
    moreover have "w1\<lparr>needCheckpoint := True\<rparr> = w\<lparr>walFile := walFile w1, writes := writes w, needCheckpoint := True\<rparr>"
      by (subst w1(1)) simp
    ultimately show ?thesis using handle [OF core refl, of True "writes w"] by (simp add: queue_inv_def)
  next
    case None
    have app: "queue_core C (append_bytes (take j r) w)" for j
      using append_bytes_core [OF core lv tail_safe_take [OF tail] T] .
    show ?thesis
    proof (cases "record_write io")
      case (Some j)
      have "snd (appendLocked C io r k w) = (append_bytes (take j r) w1)\<lparr>needCheckpoint := True\<rparr>"
        using False ens None Some by (simp add: appendLocked_def)
      also have "\<dots> = (append_bytes (take j r) w)\<lparr>walFile := walFile w1, writes := writes w, needCheckpoint := True\<rparr>"
        by (subst w1(1)) (simp add: append_bytes_def)
      finally show ?thesis
        using handle [OF app, of j True "writes w"] by (simp add: queue_inv_def append_bytes_def)
    next
      case wrote: None
      let ?w2 = "(append_bytes r w1)\<lparr>writes := writes w1 + int k\<rparr>"
      have w2: "?w2 = (append_bytes r w)\<lparr>walFile := walFile w1, writes := writes w1 + int k,
          needCheckpoint := needCheckpoint w\<rparr>"
        by (subst (1) w1(1)) (simp add: append_bytes_def)
      have core2: "queue_core C ?w2"
        unfolding w2 using app [of "length r"] by (intro handle) (simp_all add: append_bytes_def)
      obtain n0 where "load_loop C (content (at_path w)) [] 0 = (None, q, n0)" "whole_lines (content (at_path w))"
        "replaced w = []" using lv by (auto simp: level_def)
      then have "level C ?w2 (pending ?w2)"
        unfolding w2 using load_append loads [of n0] whole
        by (fastforce simp: level_def append_bytes_def whole_lines_append)
      with core2 have inv2: "queue_inv C ?w2" by (simp add: queue_inv_def)
      have "all_kept C ?w2" unfolding w2 using kept by (simp add: all_kept_def append_bytes_def)
      then have "queue_inv C (snd (checkpointLocked C io ?w2))" by (rule checkpoint_inv [OF core2])
      with inv2 show ?thesis
        using False ens None wrote by (simp add: appendLocked_def Let_def)
    qed
  qed
qed

text \<open>The history only grows.\<close>

lemma checkpoint_history: "history (snd (checkpointLocked C io w)) = history w"
  by (simp add: checkpointLocked_def checkpoint_body_def ensureWALFileLocked_def markSynced_def Let_def
      split: option.split prod.split)

lemma append_history: "history (snd (appendLocked C io r k w)) = history w"
  by (simp add: appendLocked_def checkpoint_history ensureWALFileLocked_def append_bytes_def Let_def
      split: option.split)

subsection \<open>Operations\<close>

lemma enqueue_inv:
  assumes inv: "queue_inv C w" and kept: "all_kept C (snd (enqueue C io x w))"
  shows "queue_inv C (snd (enqueue C io x w))"
proof (cases "encode C x")
  case None
  with inv show ?thesis by (simp add: enqueue_def)
next
  case (Some b)
  let ?w = "w\<lparr>pending := pending w @ [x], seqno := Suc (seqno w), history := history w @ [x]\<rparr>"
  have core: "queue_core C w" using inv by (simp add: queue_inv_def)
  then have h: "pending w = drop (acked w) (history w)" "acked w \<le> length (history w)"
    "length (history w) = base w + seqno w" "synced w \<le> seqno w" by (simp_all add: queue_core_def)
  have res: "snd (enqueue C io x w) = snd (appendLocked C io (E_record b) 1 ?w)"
    using Some by (simp add: enqueue_def Let_def split: prod.split option.split)
  have all: "all_kept C ?w" using kept unfolding res all_kept_def append_history by simp
  then have x: "kept C x" by (simp add: all_kept_def)
  have core': "queue_core C ?w"
    by (rule queue_core_grow [OF core, of _ "[x]"]) (use h in \<open>simp_all add: wal_files_def\<close>)
  have before: "stretch_from (seqno w) ?w (pending w)"
    unfolding stretch_from_def using h by (intro exI [of _ "acked w"] exI [of _ "length (history w)"]) simp
  have after: "stretch_from (seqno w) ?w (pending w @ [x])"
    unfolding stretch_from_def using h
    by (intro exI [of _ "acked w"] exI [of _ "Suc (length (history w))"]) simp
  have full: "load_loop C (E_record b) q n = (None, q @ [x], Suc n)" for q n
    using load_E [OF x Some, of "[]" q n] by (simp add: load_none)
  have "tail_safe C (seqno w) ?w (pending w) (E_record b)"
    unfolding tail_safe_def
  proof (intro allI impI)
    fix k n assume "k \<le> length (E_record b)"
    then show "\<exists>q' n'. load_loop C (take k (E_record b)) (pending w) n = (None, q', n') \<and> stretch_from (seqno w) ?w q'"
      using load_cut_E [OF x Some, of k "pending w" n] full before after
      by (cases "k = length (E_record b)") auto
  qed
  moreover have "level C ?w (pending w)" if "\<not> needCheckpoint ?w"
    using inv that by (simp add: queue_inv_def level_def)
  moreover have "tg \<le> seqno w" if "fsyncing ?w = Some (f, tg, n, len)" for f tg n len
    using core that by (simp add: queue_core_def fsync_safe_def)
  ultimately show ?thesis
    unfolding res using core' all full h(4)
    by (intro appendLocked_inv) (auto simp: whole_lines_def E_record_def)
qed

lemma ackN_inv:
  assumes inv: "queue_inv C w" and kept: "all_kept C w"
  shows "queue_inv C (snd (ackN C io n0 w))"
proof (cases "min n0 (length (pending w)) = 0")
  case True
  with inv show ?thesis by (auto simp: ackN_def)
next
  case False
  let ?n = "min n0 (length (pending w))"
  let ?w = "w\<lparr>pending := drop ?n (pending w), acked := acked w + ?n\<rparr>"
  let ?r = "concat (replicate ?n A_record)"
  have core: "queue_core C w" using inv by (simp add: queue_inv_def)
  then have h: "pending w = drop (acked w) (history w)" "acked w \<le> length (history w)"
    "length (history w) = base w + seqno w" "synced w \<le> seqno w" by (simp_all add: queue_core_def)
  have n: "acked w + ?n \<le> length (history w)" using h(1,2) by simp
  have core': "queue_core C ?w"
    by (rule queue_core_grow [OF core, of _ "[]"]) (use h n in \<open>simp_all add: wal_files_def add.commute\<close>)
  have len: "length ?r = 2 * ?n" by (simp add: A_record_def length_concat sum_list_replicate)
  have "tail_safe C (seqno w) ?w (pending w) ?r"
    unfolding tail_safe_def
  proof (intro allI impI)
    fix k n' assume k: "k \<le> length ?r"
    then obtain m where "load_loop C (take k ?r) (pending w) n' = (None, drop (k div 2) (pending w), m)"
      using load_As len by metis
    moreover have "stretch_from (seqno w) ?w (drop (k div 2) (pending w))"
    proof -
      have "k div 2 \<le> ?n" using k len by linarith
      then show ?thesis
        unfolding stretch_from_def using h n
        by (intro exI [of _ "acked w + k div 2"] exI [of _ "length (history w)"]) (auto simp: add.commute)
    qed
    ultimately show "\<exists>q' m. load_loop C (take k ?r) (pending w) n' = (None, q', m) \<and> stretch_from (seqno w) ?w q'"
      by blast
  qed
  moreover have "level C ?w (pending w)" if "\<not> needCheckpoint ?w"
    using inv that by (simp add: queue_inv_def level_def)
  moreover have "tg \<le> seqno w" if "fsyncing ?w = Some (f, tg, n, len)" for f tg n len
    using core that by (simp add: queue_core_def fsync_safe_def)
  moreover have "\<exists>n'. load_loop C ?r (pending w) m = (None, pending ?w, n')" for m
    using load_all_As [of C ?n "pending w" m] by simp
  moreover have "all_kept C ?w" using kept by (simp add: all_kept_def)
  ultimately have "queue_inv C (snd (appendLocked C io ?r ?n ?w))"
    using core' h(4) by (intro appendLocked_inv whole_lines_As) auto
  moreover have "ackN C io n0 w = appendLocked C io ?r ?n ?w"
    using False by (simp only: ackN_def Let_def if_False)
  ultimately show ?thesis by simp
qed

lemma syncTo_begin_inv:
  assumes inv: "queue_inv C w" and kept: "all_kept C w" and idle: "fsyncing w = None"
  shows "queue_inv C (snd (syncTo_begin C io n w))"
proof (cases "n \<le> synced w \<or> needCheckpoint w \<or> walFile w = None")
  case True
  then show ?thesis
    using inv checkpoint_inv [OF _ kept, of io]
    by (auto simp: syncTo_begin_def queue_inv_def split: prod.split bool.split option.split)
next
  case False
  then obtain f where f: "\<not> n \<le> synced w" "\<not> needCheckpoint w" "walFile w = Some f" by auto
  let ?w = "w\<lparr>fsyncing := Some (f, seqno w, n, length (content (at_path w)))\<rparr>"
  have res: "snd (syncTo_begin C io n w) = ?w" using f by (simp add: syncTo_begin_def)
  have core: "queue_core C w" and lv: "level C w (pending w)" using inv f by (simp_all add: queue_inv_def)
  have handle: "inode (at_path w) = f" using core f(3) by (simp add: queue_core_def)
  have files: "wal_files ?w = [at_path w]" "wal_files w = [at_path w]"
    using lv by (simp_all add: wal_files_def level_def)
  have fields: "file_safe C t ?w x = file_safe C t w x" for t x by (rule file_safe_fields) simp_all
  have len: "fsynced (at_path w) \<le> length (content (at_path w))" and fresh: "inode (at_path w) < fresh w"
    using core by (auto simp: queue_core_def files_safe_def file_safe_def wal_files_def)
  have "file_safe C (seqno w) w (raise_fsynced f (length (content (at_path w))) (at_path w))"
  proof -
    obtain m where "load_loop C (content (at_path w)) [] 0 = (None, pending w, m)"
      using lv by (auto simp: level_def)
    then show ?thesis
      using len handle by (intro file_safe_level [OF core, of _ _ m]) (simp_all add: raise_fsynced_def)
  qed
  moreover have "max (synced w) (seqno w) = seqno w" using core by (simp add: queue_core_def)
  ultimately have "fsync_safe C ?w"
    using fresh handle by (simp add: fsync_safe_def files fields)
  then have "queue_core C ?w" using core by (simp add: queue_core_def files_safe_def files fields)
  moreover have "level C ?w (pending ?w)" using lv by (simp add: level_def)
  ultimately show ?thesis unfolding res by (simp add: queue_inv_def)
qed

lemma queue_core_idle: "queue_core C w \<Longrightarrow> queue_core C (w\<lparr>fsyncing := None\<rparr>)"
  by (simp add: queue_core_def files_safe_def fsync_safe_def wal_files_def
      file_safe_fields [of "w\<lparr>fsyncing := None\<rparr>" w])

lemma syncTo_end_inv:
  assumes inv: "queue_inv C w" and kept: "all_kept C w"
  shows "queue_inv C (snd (syncTo_end C io ok w))"
proof (cases "fsyncing w")
  case None
  with inv show ?thesis by (simp add: syncTo_end_def)
next
  case (Some p)
  obtain f target n len where p: "fsyncing w = Some (f, target, n, len)" using Some by (cases p) simp
  let ?w = "w\<lparr>fsyncing := None\<rparr>"
  have core: "queue_core C w" using inv by (simp add: queue_inv_def)
  have idle: "queue_inv C ?w"
    using inv queue_core_idle [OF core] by (simp add: queue_inv_def level_def)
  show ?thesis
  proof (cases ok)
    case False
    have "all_kept C ?w" using kept by (simp add: all_kept_def)
    with idle checkpoint_inv [of C ?w io] p False show ?thesis
      by (simp add: syncTo_end_def Let_def queue_inv_def)
  next
    case True
    define v where "v = markSynced target (?w\<lparr>at_path := raise_fsynced f len (at_path ?w),
        replaced := map (raise_fsynced f len) (replaced ?w)\<rparr>)"
    have v: "synced v = max (synced w) target" "fsyncing v = None"
      "wal_files v = map (raise_fsynced f len) (wal_files w)"
      "history v = history w" "acked v = acked w" "base v = base w" "seqno v = seqno w"
      "pending v = pending w" "fresh v = fresh w" "walFile v = walFile w" "needCheckpoint v = needCheckpoint w"
      "at_path v = raise_fsynced f len (at_path w)" "replaced v = map (raise_fsynced f len) (replaced w)"
      by (simp_all add: v_def markSynced_def wal_files_def)
    have raise: "inode (raise_fsynced f len x) = inode x" "content (raise_fsynced f len x) = content x" for x
      by (simp_all add: raise_fsynced_def)
    have fs: "target \<le> seqno w" "\<forall>x \<in> set (wal_files w). file_safe C (max (synced w) target) w (raise_fsynced f len x)"
      using core p by (simp_all add: queue_core_def fsync_safe_def)
    have "queue_core C v"
      using core fs by (simp add: queue_core_def files_safe_def fsync_safe_def v raise file_safe_fields [of v w])
    then have "queue_inv C v" using inv by (simp add: queue_inv_def level_def v raise)
    with p True show ?thesis by (simp add: syncTo_end_def Let_def v_def)
  qed
qed

lemma step_history: "wal_step C w w' \<Longrightarrow> set (history w) \<subseteq> set (history w')"
proof (induction rule: wal_step.induct)
  case (enqueue w io x)
  have "snd (enqueue C io x w) = w \<or> history (snd (enqueue C io x w)) = history w @ [x]"
  proof (cases "encode C x")
    case (Some b)
    then have "snd (enqueue C io x w) = snd (appendLocked C io (E_record b) 1
        (w\<lparr>pending := pending w @ [x], seqno := Suc (seqno w), history := history w @ [x]\<rparr>))"
      by (simp add: enqueue_def Let_def split: prod.split option.split)
    then show ?thesis by (simp add: append_history)
  qed (simp add: enqueue_def)
  then show ?case by auto
next
  case (sync_begin w io n)
  have "history (snd (syncTo_begin C io n w)) = history w"
  proof (cases "checkpointLocked C io w")
    case (Pair e w')
    then have "history w' = history w" using checkpoint_history [of C io w] by simp
    with Pair show ?thesis by (simp add: syncTo_begin_def split: bool.split option.split)
  qed
  then show ?case by simp
next
  case (sync_end w io ok)
  have "history (snd (syncTo_end C io ok w)) = history w"
    using checkpoint_history [of C io "w\<lparr>fsyncing := None\<rparr>"]
    by (cases "fsyncing w") (auto simp: syncTo_end_def markSynced_def Let_def)
  then show ?case by simp
next
  case (ack w io n)
  show ?case by (simp add: ackN_def Let_def append_history)
next
  case (tick w io)
  show ?case by (simp add: syncAll_worker_def checkpoint_history)
qed

lemma step_inv: "wal_step C w w' \<Longrightarrow> queue_inv C w \<Longrightarrow> all_kept C w' \<Longrightarrow> queue_inv C w'"
proof -
  assume step: "wal_step C w w'" and inv: "queue_inv C w" and kept: "all_kept C w'"
  have old: "all_kept C w" using step_history [OF step] kept by (auto simp: all_kept_def)
  from step show "queue_inv C w'"
  proof cases
    case (enqueue io x)
    then show ?thesis using enqueue_inv inv kept by simp
  next
    case (ack io n)
    then show ?thesis using ackN_inv inv old by simp
  next
    case (sync_begin io n)
    then show ?thesis using syncTo_begin_inv inv old by simp
  next
    case (sync_end io ok)
    then show ?thesis using syncTo_end_inv inv old by simp
  next
    case (tick io)
    then show ?thesis
      using inv checkpoint_inv [OF _ old, of io] by (auto simp: syncAll_worker_def queue_inv_def)
  qed
qed

lemma steps_inv: "wal_steps C w w' \<Longrightarrow> queue_inv C w \<Longrightarrow> all_kept C w' \<Longrightarrow> queue_inv C w'"
proof (induction rule: rtranclp_induct)
  case (step v v')
  then have "all_kept C v" using step_history [OF step(2)] by (auto simp: all_kept_def)
  with step step_inv show ?case by blast
qed

end
