(* ===== verification/PeersProps.thy ===== *)
theory PeersProps
  imports PeersProto
begin

text \<open>
  Facts about the peers protocol: what one side writes the other reads, what a batch does to
  the peer's store, and what becomes of a batch that is sent twice. The properties are at the
  end of each part.
\<close>

subsection \<open>Encoding\<close>

lemma nat_mod_word: "0 \<le> limit \<Longrightarrow> limit < 2 ^ 63 \<Longrightarrow> nat (limit mod 2 ^ 64) = nat limit"
  by simp

lemma readCount_written [wire_simps]:
  assumes "int n \<le> limit" "limit < 2 ^ 63"
  shows "readCount limit (writeUvarint n @ rest) = Inr (int n, rest)"
proof -
  have "n < 2 ^ 63" using assms by simp
  moreover have "nat (limit mod 2 ^ 64) = nat limit" using assms by (intro nat_mod_word) simp_all
  moreover have "n \<le> nat limit" using assms(1) by simp
  ultimately show ?thesis
    using uvarint.get_put [of n rest] by (simp add: readCount_def writeUvarint_def)
qed

lemma value_frame_written [wire_simps]:
  "length b \<le> maxValue \<Longrightarrow> ReadFrame maxValue (WriteFrame b @ rest) = Inr (b, rest)"
  by (rule frame_written) (simp_all add: maxValue_def)

lemma readString_written [wire_simps]:
  "length b \<le> maxValue \<Longrightarrow> readString (WriteFrame b @ rest) = Inr (b, rest)"
  by (simp add: readString_def value_frame_written)

text \<open>An operation the protocol can carry, and what of it the peer gets.\<close>

definition op_fits :: "op \<Rightarrow> bool" where
  "op_fits x \<longleftrightarrow>
     okind x \<in> {opSet, opDel, opClone, opVacuum} \<and>
     length (okey x) \<le> maxValue \<and> length (oto x) \<le> maxValue \<and> length (oraw x) \<le> maxValue"

definition sent_op :: "op \<Rightarrow> op" where
  "sent_op x =
     \<lparr>okind = okind x, okey = (if okind x = opVacuum then [] else okey x),
      oto = (if okind x = opClone then oto x else []),
      oraw = (if okind x = opSet then oraw x else []), queuedAs = no_syncOp\<rparr>"

lemma readOp_written:
  "op_fits x \<Longrightarrow> readOp (writeOp x @ rest) = Inr (sent_op x, rest)"
  by (auto simp: op_fits_def readOp_def writeOp_def sent_op_def no_op_def Let_def wire_simps)

interpretation queued: sequence_code writeOp readOp sent_op op_fits readOps
  by unfold_locales (simp_all add: readOp_written)

lemmas readOps_written = queued.gets_put

lemma applyOp_sent: "op_fits x \<Longrightarrow> applyOp L (sent_op x) st = applyOp L x st"
  by (auto simp: applyOp_def sent_op_def op_fits_def)

lemma applyBatch_sent:
  "list_all op_fits xs \<Longrightarrow>
    applyBatch_from L msg late env i (map sent_op xs) res st = applyBatch_from L msg late env i xs res st"
  by (induction xs arbitrary: i res st) (simp_all add: applyOp_sent split: prod.split)

text \<open>What a queued operation becomes fits, if its path and body do.\<close>

lemma cut_byte_lengths: "cut_byte c s = (a, b, ok) \<Longrightarrow> length a \<le> length s \<and> length b \<le> length s"
  by (auto simp: cut_byte_def split: option.splits)

lemma toOp_fits:
  assumes "toOp s = Inr x" and "length (Path s) \<le> maxValue" "length (Body s) \<le> maxValue"
  shows "op_fits x"
proof -
  have trim: "length (trim_prefix t p) \<le> length t" for t p by (simp add: trim_prefix_def)
  have "length (trim_prefix (Path s) p) \<le> maxValue" for p
    using trim [of "Path s" p] assms(2) by simp
  moreover have "length a \<le> maxValue \<and> length b \<le> maxValue"
    if "cut_byte c (trim_prefix (Path s) p) = (a, b, ok)" for a b ok c p
    using cut_byte_lengths [OF that] trim [of "Path s" p] assms(2) by simp
  ultimately show ?thesis
    using assms(1,3)
    by (fastforce simp: toOp_def op_fits_def no_op_def Let_def split: if_splits prod.splits)
qed

subsection \<open>What a batch does\<close>

text \<open>The store after the operations from index \<open>i\<close> on, and what became of each.\<close>

fun run_batch :: "libs \<Rightarrow> (nat \<Rightarrow> store \<Rightarrow> store) \<Rightarrow> nat \<Rightarrow> op list \<Rightarrow> store \<Rightarrow> store" where
  "run_batch L env i [] st = st"
| "run_batch L env i (x # xs) st = run_batch L env (Suc i) xs (snd (applyOp L x (env i st)))"

fun batch_errors ::
  "libs \<Rightarrow> (nat \<Rightarrow> store \<Rightarrow> store) \<Rightarrow> nat \<Rightarrow> op list \<Rightarrow> store \<Rightarrow> db_error option list" where
  "batch_errors L env i [] st = []"
| "batch_errors L env i (x # xs) st =
     (case applyOp L x (env i st) of (err, st') \<Rightarrow> err # batch_errors L env (Suc i) xs st')"

lemma batch_errors_length [simp]: "length (batch_errors L env i xs st) = length xs"
  by (induction xs arbitrary: i st) (simp_all split: prod.split)

text \<open>The entries of the map that the errors of operations \<open>i\<close>, \<open>i + 1\<close>, ... make.\<close>

fun reject_entries :: "(db_error \<Rightarrow> bytes) \<Rightarrow> nat \<Rightarrow> db_error option list \<Rightarrow> (nat \<times> bytes) list" where
  "reject_entries msg i [] = []"
| "reject_entries msg i (None # es) = reject_entries msg (Suc i) es"
| "reject_entries msg i (Some e # es) = (i, msg e) # reject_entries msg (Suc i) es"

lemma reject_entries_bounds:
  "(j, m) \<in> set (reject_entries msg i es) \<Longrightarrow> i \<le> j \<and> j < i + length es"
  by (induction msg i es rule: reject_entries.induct) auto

lemma reject_entries_distinct: "distinct (map fst (reject_entries msg i es))"
  by (induction msg i es rule: reject_entries.induct) (auto dest: reject_entries_bounds)

lemma reject_entries_msg: "(j, m) \<in> set (reject_entries msg i es) \<Longrightarrow> \<exists>e. m = msg e"
  by (induction msg i es rule: reject_entries.induct) auto

lemma reject_entries_map:
  "map_of (reject_entries msg i es) (i + j) = (if j < length es then map_option msg (es ! j) else None)"
proof (induction msg i es arbitrary: j rule: reject_entries.induct)
  case (2 msg i es)
  have "map_of (reject_entries msg (Suc i) es) i = None"
    by (auto simp: map_of_eq_None_iff dest: reject_entries_bounds)
  then show ?case using 2 by (cases j) auto
next
  case (3 msg i e es)
  then show ?case by (cases j) auto
qed simp

lemma reject_entries_length: "length (reject_entries msg i es) \<le> length es"
  by (induction msg i es rule: reject_entries.induct) auto

text \<open>
  How a batch ends: after \<open>n\<close> operations because there are no more, because time is up, or
  because the next one was refused.
\<close>

definition batch_end ::
  "libs \<Rightarrow> (db_error \<Rightarrow> bytes) \<Rightarrow> (nat \<Rightarrow> bool) \<Rightarrow> (nat \<Rightarrow> store \<Rightarrow> store) \<Rightarrow>
    nat \<Rightarrow> op list \<Rightarrow> store \<Rightarrow> nat \<Rightarrow> bytes \<Rightarrow> bytes \<Rightarrow> store \<Rightarrow> bool" where
  "batch_end L msg late env i xs st n s0 s st' \<longleftrightarrow>
     (let mid = run_batch L env i (take n xs) st in
      n = length xs \<and> s = s0 \<and> st' = mid \<or>
      n < length xs \<and> 0 < i + n \<and> late (i + n) \<and> s = s0 \<and> st' = mid \<or>
      n < length xs \<and> applyOp L (xs ! n) (env (i + n) mid) = (Some ErrWritesRefused, st') \<and>
        s = msg ErrWritesRefused)"

lemma batch_end_Cons:
  "applyOp L x (env i st) = (err, st1) \<Longrightarrow>
    batch_end L msg late env i (x # xs) st (Suc n) s0 s st' =
    batch_end L msg late env (Suc i) xs st1 n s0 s st'"
  by (simp add: batch_end_def Let_def)

lemma applyBatch_from_runs:
  "applyBatch_from L msg late env i xs res st = (res', st') \<Longrightarrow> applied_ops res = i \<Longrightarrow>
    \<exists>n \<le> length xs. applied_ops res' = i + n \<and>
      batch_end L msg late env i xs st n (stopped res) (stopped res') st' \<and>
      Some ErrWritesRefused \<notin> set (batch_errors L env i (take n xs) st) \<and>
      rejected res' = rejected res @ reject_entries msg i (batch_errors L env i (take n xs) st)"
proof (induction xs arbitrary: i res st)
  case Nil
  then show ?case by (auto simp: batch_end_def)
next
  case (Cons x xs)
  obtain err st1 where step: "applyOp L x (env i st) = (err, st1)" by fastforce
  consider (late) "0 < i \<and> late i" | (refused) "\<not> (0 < i \<and> late i)" "err = Some ErrWritesRefused"
    | (applied) "\<not> (0 < i \<and> late i)" "err \<noteq> Some ErrWritesRefused" by blast
  then show ?case
  proof cases
    case late
    with Cons.prems show ?thesis by (intro exI [of _ 0]) (auto simp: batch_end_def Let_def)
  next
    case refused
    with Cons.prems step show ?thesis by (intro exI [of _ 0]) (auto simp: batch_end_def Let_def)
  next
    case applied
    let ?res1 = "(case err of None \<Rightarrow> res | Some e \<Rightarrow> res\<lparr>rejected := rejected res @ [(i, msg e)]\<rparr>)
        \<lparr>applied_ops := Suc i\<rparr>"
    have "applyBatch_from L msg late env (Suc i) xs ?res1 st1 = (res', st')"
      using Cons.prems(1) step applied by (simp add: Let_def)
    from Cons.IH [OF this] obtain n where n: "n \<le> length xs" "applied_ops res' = Suc i + n"
      "batch_end L msg late env (Suc i) xs st1 n (stopped ?res1) (stopped res') st'"
      "Some ErrWritesRefused \<notin> set (batch_errors L env (Suc i) (take n xs) st1)"
      "rejected res' = rejected ?res1 @ reject_entries msg (Suc i) (batch_errors L env (Suc i) (take n xs) st1)"
      by auto
    have "stopped ?res1 = stopped res" by (simp split: option.split)
    with n step applied show ?thesis
      by (intro exI [of _ "Suc n"])
        (auto simp: batch_end_Cons [where env = env, OF step] split: option.split)
  qed
qed

lemma batch_errors_take: "batch_errors L env i (take n xs) st = take n (batch_errors L env i xs st)"
  by (induction xs arbitrary: i n st) (simp_all add: take_Cons split: prod.split nat.split)

lemma applyBatch_runs:
  assumes "applyBatch L msg late env ops st = (res, st')"
  shows "applied_ops res \<le> length ops \<and>
    batch_end L msg late env 0 ops st (applied_ops res) [] (stopped res) st' \<and>
    Some ErrWritesRefused \<notin> set (take (applied_ops res) (batch_errors L env 0 ops st)) \<and>
    rejected res = reject_entries msg 0 (take (applied_ops res) (batch_errors L env 0 ops st))"
  using applyBatch_from_runs [OF assms [unfolded applyBatch_def]]
  by (auto simp: batch_errors_take)

text \<open>A concrete batch for the examples: two writes to a new node, the second one of a path that
  runs into a scalar's text no parser is needed for.\<close>

definition set_op :: "bytes \<Rightarrow> bytes \<Rightarrow> op" where
  "set_op k v = no_op\<lparr>okind := opSet, okey := k, oraw := v\<rparr>"

definition del_op :: "bytes \<Rightarrow> op" where
  "del_op k = no_op\<lparr>okind := opDel, okey := k\<rparr>"

definition clone_op :: "bytes \<Rightarrow> bytes \<Rightarrow> op" where
  "clone_op a b = no_op\<lparr>okind := opClone, okey := a, oto := b\<rparr>"

definition plain_libs :: libs where
  "plain_libs = \<lparr>gjsonParse = GOther, gjsonGet = (\<lambda>_ _. []), goDecode = (\<lambda>_. DecEOF), goUnmarshal = (\<lambda>_. None)\<rparr>"

definition plain_surroundings :: surroundings where
  "plain_surroundings = \<lparr>err_text = (\<lambda>_. ''refused''), late_at = (\<lambda>_. False), others = (\<lambda>_ st. st),
     map_order = rev\<rparr>"

text \<open>C19. A batch is applied in order up to some operation: the store is what those operations
  made of it, each is reported rejected exactly when it failed, with the text of its error, and
  none of them was refused for the file's sake. The batch stops short only when time is up,
  after at least one operation, or at an operation that was refused, which is the reason given.\<close>

theorem batch_is_prefix:
  assumes "applyBatch L msg late env ops st = (res, st')"
  shows "applied_ops res \<le> length ops \<and>
    batch_end L msg late env 0 ops st (applied_ops res) [] (stopped res) st' \<and>
    (\<forall>i. map_of (rejected res) i =
      (if i < applied_ops res then map_option msg (batch_errors L env 0 ops st ! i) else None)) \<and>
    (\<forall>i < applied_ops res. batch_errors L env 0 ops st ! i \<noteq> Some ErrWritesRefused)"
proof -
  note runs = applyBatch_runs [OF assms]
  have "map_of (rejected res) i =
      (if i < applied_ops res then map_option msg (batch_errors L env 0 ops st ! i) else None)" for i
    using runs reject_entries_map [of msg 0 "take (applied_ops res) (batch_errors L env 0 ops st)" i] by simp
  moreover have "batch_errors L env 0 ops st ! i \<noteq> Some ErrWritesRefused" if "i < applied_ops res" for i
    using runs that by (auto simp: in_set_conv_nth)
  ultimately show ?thesis using runs by blast
qed

theorem batch_is_prefix_witness:
  "\<exists>res st'. applyBatch plain_libs (\<lambda>_. []) (\<lambda>_. False) (\<lambda>_ st. st) [del_op ''k''] init_store = (res, st') \<and> applied_ops res \<le> 1"
proof -
  obtain res st' where "applyBatch plain_libs (\<lambda>_. []) (\<lambda>_. False) (\<lambda>_ st. st) [del_op ''k''] init_store = (res, st')" by fastforce
  from this batch_is_prefix [OF this] show ?thesis by auto
qed

subsection \<open>A batch and its reply\<close>

lemma readRejected_written:
  "\<forall>(i, m) \<in> set rej. int i < d \<and> length m \<le> maxValue \<Longrightarrow> d < 2 ^ 63 \<Longrightarrow>
    readRejected d (length rej)
      (concat (map (\<lambda>(i, m). writeUvarint i @ WriteFrame m) rej) @ rest) acc =
    Inr (fold (\<lambda>(i, m). AList.update i m) rej acc, rest)"
  by (induction rej arbitrary: acc) (auto simp: readCount_written value_frame_written)

lemma map_of_updates:
  "distinct (map fst rej) \<Longrightarrow>
    map_of (fold (\<lambda>(i, m). AList.update i m) rej acc) = map_of acc ++ map_of rej"
proof (induction rej arbitrary: acc)
  case (Cons x rej)
  have "map_of rej (fst x) = None" using Cons.prems by (simp add: map_of_eq_None_iff)
  with Cons show ?case by (auto simp: update_conv map_add_def fun_eq_iff split: prod.split option.split)
qed simp

lemma map_of_reordered:
  assumes "distinct (map fst xs)" "mset ys = mset xs"
  shows "distinct (map fst ys)" "map_of ys = map_of xs"
proof -
  have "mset (map fst ys) = mset (map fst xs)" using assms(2) by simp
  with assms(1) show ys: "distinct (map fst ys)" by (metis mset_eq_imp_distinct_iff)
  show "map_of ys = map_of xs"
    using map_of_inject_set [OF ys assms(1)] assms(2) by (metis set_mset_mset)
qed

lemma read_reply_written:
  assumes n: "applied_ops res \<le> nops" "nops < 2 ^ 62"
    and rej: "\<And>i m. (i, m) \<in> set (rejected res) \<Longrightarrow> i < applied_ops res \<and> length m \<le> maxValue"
    and d: "distinct (map fst (rejected res))" "length (rejected res) \<le> applied_ops res"
    and v: "mset (visit (rejected res)) = mset (rejected res)" and s: "length (stopped res) \<le> maxValue"
  shows "\<exists>res'. read_reply nops (writeResult visit res @ rest) = Inr (res', rest) \<and>
    applied_ops res' = applied_ops res \<and> map_of (rejected res') = map_of (rejected res) \<and>
    stopped res' = stopped res"
proof -
  let ?v = "visit (rejected res)" and ?d = "int (applied_ops res)"
  have len: "length ?v = length (rejected res)" and set: "set ?v = set (rejected res)"
    using v by (metis size_mset, metis set_mset_mset)
  have small: "?d < 2 ^ 63" "int nops < 2 ^ 63" using n by simp_all
  have loop: "readRejected ?d (length (rejected res))
      (concat (map (\<lambda>(i, m). writeUvarint i @ WriteFrame m) ?v) @ WriteFrame (stopped res) @ rest) [] =
      Inr (fold (\<lambda>(i, m). AList.update i m) ?v [], WriteFrame (stopped res) @ rest)"
    using readRejected_written [of ?v ?d] rej set small len by fastforce
  have "map_of (fold (\<lambda>(i, m). AList.update i m) ?v []) = map_of (rejected res)"
    using map_of_updates map_of_reordered [OF d(1) v] by fastforce
  then show ?thesis
    using loop n(1) d(2) small s
    by (simp add: read_reply_def writeResult_def readCount_written value_frame_written)
qed

lemma exchange_agrees:
  assumes "list_all op_fits ops" and "length ops \<le> maxBatchOps"
    and "\<And>e. length (err_text S e) \<le> maxValue" and "\<And>xs. mset (map_order S xs) = mset xs"
    and "applyBatch L (err_text S) (late_at S) (others S) ops st = (res, st')"
  shows "\<exists>reply res'. serve_request L S (batch_request ops @ rest) st = Inr (reply, rest, st') \<and>
    read_reply (length ops) (reply @ rest') = Inr (res', rest') \<and>
    applied_ops res' = applied_ops res \<and> map_of (rejected res') = map_of (rejected res) \<and>
    stopped res' = stopped res"
proof -
  let ?E = "take (applied_ops res) (batch_errors L (others S) 0 ops st)"
  note runs = applyBatch_runs [OF assms(5)]
  have sent: "applyBatch L (err_text S) (late_at S) (others S) (map sent_op ops) st = (res, st')"
    using assms(5) by (simp add: applyBatch_def applyBatch_sent [OF assms(1)])
  have "readCount (int maxBatchOps) (writeUvarint (length ops) @ r) = Inr (int (length ops), r)" for r
    using assms(2) by (intro readCount_written) (simp_all add: maxBatchOps_def)
  then have serve: "serve_request L S (batch_request ops @ rest) st = Inr (writeResult (map_order S) res, rest, st')"
    using readOps_written [OF assms(1), of rest] sent
    by (simp add: serve_request_def serveBatch_def batch_request_def)
  have "stopped res = [] \<or> stopped res = err_text S ErrWritesRefused"
    using runs by (auto simp: batch_end_def Let_def)
  then have "length (stopped res) \<le> maxValue" using assms(3) by auto
  moreover have "i < applied_ops res \<and> length m \<le> maxValue" if "(i, m) \<in> set (rejected res)" for i m
    using that runs reject_entries_bounds [of i m "err_text S" 0 ?E] reject_entries_msg [of i m "err_text S" 0 ?E]
      assms(3) by auto
  moreover have "length (rejected res) \<le> applied_ops res"
    using runs reject_entries_length [of "err_text S" 0 ?E] by simp
  moreover have "distinct (map fst (rejected res))"
    using runs reject_entries_distinct [of "err_text S" 0 ?E] by simp
  moreover have "length ops < 2 ^ 62" using assms(2) by (simp add: maxBatchOps_def)
  ultimately have "\<exists>res'. read_reply (length ops) (writeResult (map_order S) res @ rest') = Inr (res', rest') \<and>
      applied_ops res' = applied_ops res \<and> map_of (rejected res') = map_of (rejected res) \<and>
      stopped res' = stopped res"
    using runs assms(4) by (intro read_reply_written) simp_all
  with serve show ?thesis by blast
qed

text \<open>C20. A peer reads from a batch the very operations that were sent, and the sender reads from
  the reply the very result the peer reached, whatever order the loop over the map of rejections
  takes. What follows the request and the reply in their streams is untouched.\<close>

theorem batch_exchange:
  assumes "list_all op_fits ops" and "length ops \<le> maxBatchOps"
    and "\<And>e. length (err_text S e) \<le> maxValue" and "\<And>xs. mset (map_order S xs) = mset xs"
    and "applyBatch L (err_text S) (late_at S) (others S) ops st = (res, st')"
  shows "\<exists>reply res'. serve_request L S (batch_request ops @ rest) st = Inr (reply, rest, st') \<and>
    read_reply (length ops) (reply @ rest') = Inr (res', rest') \<and>
    applied_ops res' = applied_ops res \<and> map_of (rejected res') = map_of (rejected res) \<and>
    stopped res' = stopped res"
  using exchange_agrees [OF assms] .

theorem batch_exchange_witness:
  "\<exists>reply. serve_request plain_libs plain_surroundings (batch_request [del_op ''k''] @ ''G'') init_store =
     Inr (reply, ''G'',
       snd (applyBatch plain_libs (\<lambda>_. ''refused'') (\<lambda>_. False) (\<lambda>_ st. st) [del_op ''k''] init_store))"
proof -
  obtain res st' where ab: "applyBatch plain_libs (\<lambda>_. ''refused'') (\<lambda>_. False) (\<lambda>_ st. st) [del_op ''k''] init_store = (res, st')"
    by fastforce
  then have "applyBatch plain_libs (err_text plain_surroundings) (late_at plain_surroundings)
      (others plain_surroundings) [del_op ''k''] init_store = (res, st')"
    by (simp add: plain_surroundings_def)
  from batch_exchange [OF _ _ _ _ this, of "''G''" "[]"] ab show ?thesis
    by (auto simp: op_fits_def del_op_def no_op_def maxValue_def maxBatchOps_def plain_surroundings_def)
qed

subsection \<open>A batch that is sent again\<close>

lemma appendAOF_keeps_refused [simp]:
  "writesRefused (appendAOF r st) = writesRefused st" "aofEnabled (appendAOF r st) = aofEnabled st"
  by (simp_all add: appendAOF_def)

lemma checkWritable_appendAOF [simp]: "checkWritable (appendAOF r st) = checkWritable st"
  by (simp add: checkWritable_def)

lemma setNode_key:
  "splitTreePath k = [k] \<Longrightarrow>
    setNode k v st = (None, st\<lparr>configRoot := obj_put k v (configRoot st), configStale := True\<rparr>)"
  by (simp add: setNode_def treeSetPath_segs treeSet_Obj)

lemma lookup_key:
  "splitTreePath k = [k] \<Longrightarrow> treeLookupPath (Obj ob) k = obj_get ob k"
  by (simp add: treeLookupPath_segs treeStep_def split: option.split)

lemma clone_op_key:
  assumes "checkWritable st = None" "splitTreePath a = [a]" "splitTreePath b = [b]"
    and "obj_get (configRoot st) a = Some (Leaf t)" "t \<noteq> []"
  shows "configRoot (snd (applyOp L (clone_op a b) st)) = obj_put b (Leaf t) (configRoot st)"
    and "checkWritable (snd (applyOp L (clone_op a b) st)) = None"
  using assms
  by (simp_all add: applyOp_def clone_op_def no_op_def Clone_def cloneonly_def lookup_key setNode_key)
    (simp_all add: checkWritable_def)

lemma set_op_key:
  assumes "checkWritable st = None" "splitTreePath a = [a]" "canonicalScalar (trim_space raw) = Some t"
  shows "configRoot (snd (applyOp L (set_op a raw) st)) = obj_put a (Leaf t) (configRoot st)"
    and "checkWritable (snd (applyOp L (set_op a raw) st)) = None"
  using assms
  by (simp_all add: applyOp_def set_op_def no_op_def SetRaw_def setNode_key)
    (simp_all add: checkWritable_def)

text \<open>A batch whose reply was lost is sent again as a whole, and that can leave the peer with
  a value no node wrote there: a clone of a key followed by a write to that key. The first time
  the target gets the old value, the second time the new one.\<close>

theorem resent_batch_diverges:
  assumes "store_ok st" "checkWritable st = None" "a \<noteq> b" "splitTreePath a = [a]" "splitTreePath b = [b]"
    and "treeLookupPath (Obj (configRoot st)) a = Some (Leaf old)" "old \<noteq> []"
    and "canonicalScalar (trim_space raw) = Some new" 
  shows "treeLookupPath (Obj (configRoot (run_batch L (\<lambda>_ s. s) 0 [clone_op a b, set_op a raw] st))) b = Some (Leaf old) \<and>
    treeLookupPath (Obj (configRoot (run_batch L (\<lambda>_ s. s) 0 [clone_op a b, set_op a raw]
      (run_batch L (\<lambda>_ s. s) 0 [clone_op a b, set_op a raw] st)))) b = Some (Leaf new)"
proof -
  let ?once = "run_batch L (\<lambda>_ s. s) 0 [clone_op a b, set_op a raw]"
  have step: "configRoot (?once s) = obj_put a (Leaf new) (obj_put b (Leaf t) (configRoot s)) \<and>
      checkWritable (?once s) = None"
    if "checkWritable s = None" "obj_get (configRoot s) a = Some (Leaf t)" "t \<noteq> []" for s t
    using clone_op_key [OF that(1) assms(4,5) that(2,3), of L]
      set_op_key [OF clone_op_key(2) [OF that(1) assms(4,5) that(2,3)] assms(4,8), of L]
    by simp
  have wf: "wf_obj (configRoot st)" using store_ok_wf [OF assms(1)] by simp
  have "obj_get (configRoot st) a = Some (Leaf old)" using assms(6) by (simp add: lookup_key assms(4))
  note one = step [OF assms(2) this assms(7)]
  have "new \<noteq> []" using assms(8) by (auto simp: canonicalScalar_def split: if_splits)
  with one wf have two: "configRoot (?once (?once st)) =
      obj_put a (Leaf new) (obj_put b (Leaf new) (configRoot (?once st)))"
    using step [of "?once st" new] by (simp add: wf_obj_put)
  show ?thesis
    unfolding lookup_key [OF assms(5)] two using one assms(3) wf by (simp add: wf_obj_put)
qed

theorem resent_batch_diverges_witness:
  "let st = snd (setNode ''a'' (Leaf ''true'') init_store);
       again = run_batch plain_libs (\<lambda>_ s. s) 0 [clone_op ''a'' ''b'', set_op ''a'' ''null'']
   in treeLookupPath (Obj (configRoot (again st))) ''b'' = Some (Leaf ''true'') \<and>
      treeLookupPath (Obj (configRoot (again (again st)))) ''b'' = Some (Leaf ''null'')"
proof -
  let ?st = "snd (setNode ''a'' (Leaf ''true'') init_store)"
  have keys: "splitTreePath ''a'' = [''a'']" "splitTreePath ''b'' = [''b'']"
    by (simp_all add: splitTreePath_def)
  have "leaf_ok ''true''" using leaf_ok_bool [of True] by simp
  then have "store_ok ?st" by (intro setNode_ok store_ok_init) (simp add: node_ok_leaf)
  moreover have "treeLookupPath (Obj (configRoot ?st)) ''a'' = Some (Leaf ''true'')"
    by (simp add: setNode_key keys lookup_key init_store_def wf_newTreeObj)
  moreover have "checkWritable ?st = None"
    by (simp add: setNode_key keys checkWritable_def) (simp add: init_store_def)
  moreover have "canonicalScalar (trim_space ''null'') = Some ''null''"
    using trim_space_printable [of "''null''"] by (simp add: printable_def canonicalScalar_def)
  ultimately show ?thesis
    using resent_batch_diverges [of ?st "''a''" "''b''" "''true''" "''null''" "''null''" plain_libs] keys by simp
qed

end
