(* ===== verification/QueueProps.thy ===== *)
theory QueueProps
  imports QueueLaws PeersProps
begin

text \<open>
  The properties of the queues to the peers, and of one round of delivery, which ties the queue,
  the protocol and the peer's store together.
\<close>

subsection \<open>Starting from a file\<close>

lemma loadWAL_inv:
  assumes load: "load_loop C file [] 0 = (None, q, n)" and whole: "whole_lines file"
    and kept: "all_kept C (snd (loadWAL C io file))"
  shows "queue_inv C (snd (loadWAL C io file))"
proof -
  let ?w = "(new_worker file)\<lparr>pending := q, history := q, base := length q, writes := int n\<rparr>"
  obtain err w1 where ens: "ensureWALFileLocked (ensure_mkdir_ok io) (ensure_open_ok io) ?w = (err, w1)" by fastforce
  have w1: "w1 = ?w \<or> w1 = ?w\<lparr>walFile := Some 0\<rparr>"
    using ens by (auto simp: ensureWALFileLocked_def new_worker_def split: if_splits)
  have "stretch_from 0 w1 q" if "w1 = ?w\<lparr>walFile := fo\<rparr>" for fo
    unfolding stretch_from_def that by (intro exI [of _ 0] exI [of _ "length q"]) (simp add: new_worker_def)
  then have core: "queue_core C w1" and inv: "queue_inv C w1"
    using w1 load whole
    by (auto simp: queue_inv_def queue_core_def level_def files_safe_def file_safe_def cut_safe_def
        fsync_safe_def wal_files_def new_worker_def stretch_from_def)
  have res: "snd (loadWAL C io file) =
      (if err \<noteq> None \<or> \<not> reclaimableLocked w1 then w1 else snd (checkpointLocked C io w1))"
    using ens by (simp add: loadWAL_def load Let_def new_worker_def split: option.split)
  have "all_kept C w1"
    using kept w1 by (auto simp: res all_kept_def checkpoint_history split: if_splits)
  then show ?thesis using inv checkpoint_inv [OF core] by (simp add: res)
qed


text \<open>A codec for the examples: an operation is written as its path in braces.\<close>

definition path_op :: "bytes \<Rightarrow> syncOp" where
  "path_op p = \<lparr>Method = ''DELETE'', Path = p, Body = [], ContentType = []\<rparr>"

definition sample_codec :: codec where
  "sample_codec =
     \<lparr>encode = (\<lambda>x. Some (''{'' @ Path x @ ''}'')),
      decode = (\<lambda>b. if has_prefix b ''{'' then Some (path_op (butlast (tl b))) else None)\<rparr>"

definition good_io :: wal_io where
  "good_io = \<lparr>ensure_mkdir_ok = True, ensure_open_ok = True, record_write = None, mkdir_ok = True,
     tmp_open_ok = True, tmp_write_ok = True, tmp_sync_ok = True, tmp_close_ok = True, rename_ok = True,
     dir_sync_ok = True, reopen_mkdir_ok = True, reopen_ok = True\<rparr>"

lemma sample_kept: "nl \<notin> set p \<Longrightarrow> kept sample_codec (path_op p)"
  by (simp add: kept_def sample_codec_def path_op_def has_prefix_def printable_def)

definition sample_worker :: worker where
  "sample_worker = snd (enqueue sample_codec good_io (path_op ''/db/k'') (snd (loadWAL sample_codec good_io [])))"

lemma sample_load: "loadWAL sample_codec good_io [] =
    (None, (new_worker [])\<lparr>walFile := Some 0\<rparr>)"
  by (simp add: loadWAL_def load_none ensureWALFileLocked_def good_io_def new_worker_def Let_def
      reclaimableLocked_def walCheckpointEvery_def)

lemma sample_worker_fields:
  "pending sample_worker = [path_op ''/db/k'']" "history sample_worker = [path_op ''/db/k'']" "acked sample_worker = 0" "synced sample_worker = 0"
  "at_path sample_worker = \<lparr>inode = 0, content = ''E {/db/k}'' @ [nl], fsynced = 0\<rparr>"
  unfolding sample_worker_def sample_load
  by (simp_all add: enqueue_def sample_codec_def path_op_def appendLocked_def good_io_def new_worker_def
      ensureWALFileLocked_def append_bytes_def Let_def reclaimableLocked_def walCheckpointEvery_def E_record_def)


subsection \<open>A torn record\<close>

text \<open>Loading skips a last record that a crash cut short, but leaves its bytes in the file, and
  the next record is appended right behind them. When the file is loaded again that line cannot
  be read: the operation, although it was fsynced, and everything after it are lost.\<close>

theorem torn_wal_breaks_next_load:
  assumes "load_loop C whole [] 0 = (None, q, n)" "whole_lines whole" "int n < int (length q) + walCheckpointEvery"
    and "kept C x" "encode C x = Some b"
  defines "w0 \<equiv> snd (loadWAL C good_io (whole @ ''E''))"
  defines "w1 \<equiv> snd (enqueue C good_io x w0)"
  shows "pending w0 = q \<and> fst (enqueue C good_io x w0) = Inr 1 \<and> pending w1 = q @ [x] \<and>
    load_loop C (content (at_path w1) @ rest) [] 0 = (Some (InvalidRecord (''EE '' @ b)), q, Suc n)"
proof -
  have b: "b \<noteq> []" "printable (last b)" "nl \<notin> set b" using assms(4,5) by (simp_all add: kept_def)
  have "load_loop C (whole @ ''E'') [] 0 = (None, q, n)"
    by (simp add: load_append [OF assms(1,2)] load_none)
  then have w0: "w0 = (new_worker (whole @ ''E''))\<lparr>pending := q, history := q, base := length q,
      writes := int n, walFile := Some 0\<rparr>"
    using assms(3) unfolding w0_def
    by (simp add: loadWAL_def ensureWALFileLocked_def good_io_def Let_def reclaimableLocked_def new_worker_def)
  then have en: "enqueue C good_io x w0 =
      (Inr 1, (append_bytes (E_record b) w0)\<lparr>pending := q @ [x], seqno := 1, history := q @ [x], writes := int n + 1\<rparr>)"
    using assms(3)
    by (simp add: enqueue_def assms(5) appendLocked_def ensureWALFileLocked_def good_io_def Let_def
        reclaimableLocked_def new_worker_def append_bytes_def)
  then have w1: "content (at_path w1) = whole @ (''EE '' @ b) @ [nl]" "pending w1 = q @ [x]"
    unfolding w1_def by (simp_all add: w0 append_bytes_def new_worker_def E_record_def)
  have "trim_space ((''EE '' @ b) @ [nl]) = ''EE '' @ b"
    using b by (intro trim_line) (simp_all add: printable_def)
  from load_line [OF _ this, of C rest q n]
  have "load_loop C ((''EE '' @ b) @ nl # rest) q n = (Some (InvalidRecord (''EE '' @ b)), q, Suc n)"
    using b by (simp add: has_prefix_def)
  then show ?thesis
    using load_append [OF assms(1,2), of "(''EE '' @ b) @ nl # rest"] en w1 w0
    by simp
qed

theorem torn_wal_breaks_next_load_witness:
  "load_loop sample_codec
     (content (at_path (snd (enqueue sample_codec good_io (path_op ''k'') (snd (loadWAL sample_codec good_io ''E''))))))
     [] 0 = (Some (InvalidRecord ''EE {k}''), [], 1)"
  using torn_wal_breaks_next_load [of sample_codec "[]" "[]" 0 "path_op ''k''" "''{k}''" "[]"] sample_kept [of "''k''"]
  by (simp add: load_none whole_lines_def walCheckpointEvery_def sample_codec_def path_op_def)

subsection \<open>Sending\<close>

lemma peek_loop_bounds:
  "peek_loop i sz ss = Some j \<Longrightarrow> i \<le> maxBatchOps \<Longrightarrow>
    i \<le> j \<and> j \<le> maxBatchOps \<and> j < i + length ss \<and>
    (0 < i \<longrightarrow> 0 < j) \<and>
    (i < j \<longrightarrow> Suc i = j \<and> i = 0 \<or> sz + sum_list (map (\<lambda>s. length (Body s)) (take (j - i) ss)) \<le> maxBatchBytes)"
proof (induction ss arbitrary: i sz)
  case (Cons s ss)
  show ?case
  proof (cases "i = maxBatchOps \<or> 0 < i \<and> maxBatchBytes < sz + length (Body s)")
    case True
    with Cons.prems show ?thesis by simp
  next
    case False
    with Cons.prems have "peek_loop (Suc i) (sz + length (Body s)) ss = Some j" "Suc i \<le> maxBatchOps"
      by (simp_all add: Let_def del: One_nat_def)
    from Cons.IH [OF this] have IH: "Suc i \<le> j" "j \<le> maxBatchOps" "j < Suc i + length ss"
      "Suc i < j \<longrightarrow> sz + length (Body s) + sum_list (map (\<lambda>s. length (Body s)) (take (j - Suc i) ss)) \<le> maxBatchBytes"
      by (simp_all add: comp_def)
    then have "j - i = Suc (j - Suc i)" by simp
    with IH False show ?thesis by auto
  qed
qed simp

lemma peek_loop_None:
  "peek_loop i sz ss = None \<Longrightarrow> i \<le> maxBatchOps \<Longrightarrow>
    i + length ss \<le> maxBatchOps \<and>
    (length ss + i \<le> 1 \<or> ss = [] \<or> sz + sum_list (map (\<lambda>s. length (Body s)) ss) \<le> maxBatchBytes)"
proof (induction ss arbitrary: i sz)
  case (Cons s ss)
  from Cons.prems have s: "i \<noteq> maxBatchOps" "\<not> (0 < i \<and> maxBatchBytes < sz + length (Body s))"
    "peek_loop (Suc i) (sz + length (Body s)) ss = None"
    by (auto simp: Let_def split: if_splits)
  with Cons.IH [OF s(3)] Cons.prems(2) show ?case by (auto simp: not_less)
qed simp

lemma peek_front:
  "take (length (peekBatch w)) (pending w) = peekBatch w \<and>
   (peekBatch w = [] \<longleftrightarrow> pending w = []) \<and> length (peekBatch w) \<le> maxBatchOps"
proof (cases "peek_loop 0 0 (pending w)")
  case None
  with peek_loop_None [OF this] show ?thesis by (auto simp: peekBatch_def)
next
  case (Some j)
  have "0 < j"
  proof (cases "pending w")
    case (Cons s ss)
    with Some have "peek_loop 1 (length (Body s)) ss = Some j"
      by (simp add: Let_def maxBatchOps_def)
    from peek_loop_bounds [OF this] show ?thesis by (simp add: maxBatchOps_def)
  qed (use Some in simp)
  with Some peek_loop_bounds [OF Some] show ?thesis by (auto simp: peekBatch_def)
qed

text \<open>A batch is the front of the queue: never empty while the queue is not, at most 256
  operations, and more than one only if their values stay within a megabyte.\<close>

theorem batch_bounds:
  "take (length (peekBatch w)) (pending w) = peekBatch w \<and>
   (peekBatch w = [] \<longleftrightarrow> pending w = []) \<and> length (peekBatch w) \<le> maxBatchOps \<and>
   (length (peekBatch w) \<le> 1 \<or> sum_list (map (\<lambda>s. length (Body s)) (peekBatch w)) \<le> maxBatchBytes)"
proof (cases "peek_loop 0 0 (pending w)")
  case None
  with peek_loop_None [OF this] peek_front [of w] show ?thesis by (auto simp: peekBatch_def)
next
  case (Some j)
  with peek_loop_bounds [OF Some] peek_front [of w] show ?thesis by (auto simp: peekBatch_def)
qed

subsection \<open>A round of delivery\<close>

lemma convert_all:
  "\<forall>s \<in> set ss. \<exists>x. toOp s = Inr x \<Longrightarrow> map Inr (convert_ops ss) = map toOp ss"
  by (induction ss) auto

lemma checkpoint_pending: "pending (snd (checkpointLocked C io w)) = pending w"
  by (simp add: checkpointLocked_def checkpoint_body_def ensureWALFileLocked_def markSynced_def Let_def
      split: option.split prod.split)

lemma append_pending: "pending (snd (appendLocked C io r k w)) = pending w"
  by (simp add: appendLocked_def checkpoint_pending ensureWALFileLocked_def append_bytes_def Let_def
      split: option.split)

lemma ackN_pending: "pending (snd (ackN C io n w)) = drop n (pending w)"
  by (auto simp: ackN_def Let_def append_pending min_def)

lemma round_delivers:
  assumes "\<forall>s \<in> set (pending w). (\<exists>x. toOp s = Inr x) \<and> length (Path s) \<le> maxValue \<and> length (Body s) \<le> maxValue"
    and "pending w \<noteq> []"
    and "\<And>e. length (err_text S e) \<le> maxValue" and "\<And>xs. mset (map_order S xs) = mset xs"
    and "\<And>req. peer req = (case serve_request L S req st of Inl _ \<Rightarrow> [] | Inr (reply, _, _) \<Rightarrow> reply)"
    and "applyBatch L (err_text S) (late_at S) (others S) (convert_ops (peekBatch w)) st = (res, st')"
    and "send False True d h peer (peekBatch w) = (n, conn, http)"
  shows "n = applied_ops res \<and> n \<le> length (pending w) \<and>
    pending (snd (ackN C io n w)) = drop n (pending w) \<and>
    (\<exists>rest. serve_request L S (batch_request (convert_ops (peekBatch w))) st = Inr (rest, [], st')) \<and>
    batch_end L (err_text S) (late_at S) (others S) 0 (convert_ops (peekBatch w)) st n [] (stopped res) st'"
proof -
  let ?b = "peekBatch w" and ?ops = "convert_ops (peekBatch w)"
  have b: "take (length ?b) (pending w) = ?b" "?b \<noteq> []" "length ?b \<le> maxBatchOps"
    using peek_front [of w] assms(2) by auto
  have sub: "set ?b \<subseteq> set (pending w)" using b(1) set_take_subset by metis
  then have conv: "map Inr ?ops = map toOp ?b" using assms(1) by (intro convert_all) blast
  then have len: "length ?ops = length ?b" by (metis length_map)
  have fits: "list_all op_fits ?ops"
    unfolding list_all_iff
  proof
    fix x assume "x \<in> set ?ops"
    then have "Inr x \<in> set (map toOp ?b)" unfolding conv [symmetric] by simp
    then obtain s where "s \<in> set ?b" "toOp s = Inr x" by auto
    with assms(1) sub show "op_fits x" by (intro toOp_fits) auto
  qed
  obtain s bs where s: "?b = s # bs" using b(2) by (cases ?b) auto
  obtain x where x: "toOp s = Inr x" using assms(1) sub s by auto
  note hd = s x
  obtain reply res' where ex: "serve_request L S (batch_request ?ops @ []) st = Inr (reply, [], st')"
    "read_reply (length ?ops) (reply @ []) = Inr (res', [])" "applied_ops res' = applied_ops res"
    using exchange_agrees [OF fits _ assms(3,4,6), of "[]" "[]"] len b(3) by auto
  have "peer (batch_request ?ops) = reply" using ex(1) assms(5) by simp
  then have "n = applied_ops res"
    using ex(2,3) assms(7) hd by (simp add: send_def sendBatch_def)
  moreover have "applied_ops res \<le> length ?ops"
    "batch_end L (err_text S) (late_at S) (others S) 0 ?ops st (applied_ops res) [] (stopped res) st'"
    using applyBatch_runs [OF assms(6)] by blast+
  moreover have "length ?b \<le> length (pending w)" using b(1) by (metis length_take min.cobounded1)
  ultimately show ?thesis using ex(1) len by (auto simp: ackN_pending)
qed

text \<open>C11. One round over the peers protocol: the peer applies a prefix of the queue in order, and
  exactly that prefix is taken off the queue, whether or not the file took the acks. What the
  peer refused stays first in the queue.\<close>

theorem delivery_round:
  assumes "\<forall>s \<in> set (pending w). (\<exists>x. toOp s = Inr x) \<and> length (Path s) \<le> maxValue \<and> length (Body s) \<le> maxValue"
    and "pending w \<noteq> []"
    and "\<And>e. length (err_text S e) \<le> maxValue" and "\<And>xs. mset (map_order S xs) = mset xs"
    and "\<And>req. peer req = (case serve_request L S req st of Inl _ \<Rightarrow> [] | Inr (reply, _, _) \<Rightarrow> reply)"
    and "applyBatch L (err_text S) (late_at S) (others S) (convert_ops (peekBatch w)) st = (res, st')"
    and "send False True d h peer (peekBatch w) = (n, conn, http)"
  shows "n = applied_ops res \<and> n \<le> length (pending w) \<and>
    pending (snd (ackN C io n w)) = drop n (pending w) \<and>
    (\<exists>rest. serve_request L S (batch_request (convert_ops (peekBatch w))) st = Inr (rest, [], st')) \<and>
    batch_end L (err_text S) (late_at S) (others S) 0 (convert_ops (peekBatch w)) st n [] (stopped res) st'"
  by (rule round_delivers [OF assms])

theorem delivery_round_witness:
  "pending (snd (ackN sample_codec good_io
     (fst (send False True Dialled HttpFailed
        (\<lambda>req. case serve_request plain_libs plain_surroundings req init_store of Inl _ \<Rightarrow> [] | Inr (reply, _, _) \<Rightarrow> reply)
        (peekBatch sample_worker))) sample_worker)) =
   drop (applied_ops (fst (applyBatch plain_libs (err_text plain_surroundings) (late_at plain_surroundings)
     (others plain_surroundings) (convert_ops (peekBatch sample_worker)) init_store))) [path_op ''/db/k'']"
proof -
  let ?peer = "\<lambda>req. case serve_request plain_libs plain_surroundings req init_store of Inl _ \<Rightarrow> [] | Inr (reply, _, _) \<Rightarrow> reply"
  note pending = sample_worker_fields(1)
  obtain res st' where ab: "applyBatch plain_libs (err_text plain_surroundings) (late_at plain_surroundings)
      (others plain_surroundings) (convert_ops (peekBatch sample_worker)) init_store = (res, st')" by fastforce
  obtain n conn http where sd: "send False True Dialled HttpFailed ?peer (peekBatch sample_worker) = (n, conn, http)"
    by (metis prod_cases3)
  have "\<forall>s \<in> set (pending sample_worker). (\<exists>x. toOp s = Inr x) \<and> length (Path s) \<le> maxValue \<and> length (Body s) \<le> maxValue"
    by (simp add: pending path_op_def toOp_def has_prefix_def maxValue_def)
  moreover have "length (err_text plain_surroundings e) \<le> maxValue"
    "mset (map_order plain_surroundings xs) = mset xs" for e xs
    by (simp_all add: plain_surroundings_def maxValue_def)
  moreover have "pending sample_worker \<noteq> []" by (simp add: pending)
  ultimately have "n = applied_ops res \<and> pending (snd (ackN sample_codec good_io n sample_worker)) = drop n (pending sample_worker)"
    using delivery_round [OF _ _ _ _ refl ab sd, where C = sample_codec and io = good_io] by blast
  then show ?thesis unfolding sd ab fst_conv pending by metis
qed

end
