(* ===== verification/ReplicationProps.thy ===== *)
theory ReplicationProps
  imports Replication QueueProps
begin

text \<open>
  The properties of replication: what a local write becomes at a peer, that it reaches every
  queue, that a queue is emptied, and that both ways of sending agree.
\<close>

subsection \<open>What an operation becomes\<close>

lemma trim_db: "has_prefix (''/db/'' @ k) ''/db/''" "trim_prefix (''/db/'' @ k) ''/db/'' = k"
  by (rule has_prefix_append, rule trim_prefix_append)

lemma trim_clone: "has_prefix (''/clone/'' @ k) ''/clone/''" "trim_prefix (''/clone/'' @ k) ''/clone/'' = k"
  by (rule has_prefix_append, rule trim_prefix_append)

lemma toOp_set: "toOp (SyncSetRaw k raw) = Inr (no_op\<lparr>queuedAs := SyncSetRaw k raw, okind := opSet, okey := k, oraw := raw\<rparr>)"
  using trim_db [of k] by (simp add: toOp_def SyncSetRaw_def Let_def)

lemma toOp_del: "toOp (SyncDelete k) = Inr (no_op\<lparr>queuedAs := SyncDelete k, okind := opDel, okey := k\<rparr>)"
  using trim_db [of k] by (simp add: toOp_def SyncDelete_def Let_def)

lemma cut_slash:
  "cut_byte (CHR ''/'') (a @ CHR ''/'' # b) =
     (if CHR ''/'' \<in> set a then (takeWhile (\<lambda>c. c \<noteq> CHR ''/'') a, tl (dropWhile (\<lambda>c. c \<noteq> CHR ''/'') a) @ CHR ''/'' # b, True)
      else (a, b, True))"
proof (cases "CHR ''/'' \<in> set a")
  case True
  define p where "p = takeWhile (\<lambda>c. c \<noteq> CHR ''/'') a"
  define q where "q = tl (dropWhile (\<lambda>c. c \<noteq> CHR ''/'') a)"
  have "a = p @ dropWhile (\<lambda>c. c \<noteq> CHR ''/'') a" by (simp add: p_def)
  moreover have "dropWhile (\<lambda>c. c \<noteq> CHR ''/'') a = CHR ''/'' # q"
    using True hd_dropWhile [of "\<lambda>c. c \<noteq> CHR ''/''" a] by (cases "dropWhile (\<lambda>c. c \<noteq> CHR ''/'') a") (auto simp: q_def)
  ultimately have a: "a = p @ CHR ''/'' # q" by simp
  have "CHR ''/'' \<notin> set p" using set_takeWhileD [of _ "\<lambda>c. c \<noteq> CHR ''/''" a] by (auto simp: p_def)
  then have "index_byte (CHR ''/'') (a @ CHR ''/'' # b) = Some (length p)"
    using index_byte_append [of "CHR ''/''" p "q @ CHR ''/'' # b"] by (simp add: a)
  then have "cut_byte (CHR ''/'') (a @ CHR ''/'' # b) = (p, q @ CHR ''/'' # b, True)"
    by (simp add: cut_byte_def a)
  then show ?thesis using True by (simp add: p_def q_def)
next
  case False
  then show ?thesis by (simp add: cut_byte_def index_byte_append)
qed

lemma toOp_clone:
  "toOp (SyncClone a b) =
     (if CHR ''/'' \<in> set a \<or> CHR ''/'' \<in> set b then Inl (BadClonePath (Path (SyncClone a b)))
      else Inr (no_op\<lparr>queuedAs := SyncClone a b, okind := opClone, okey := a, oto := b\<rparr>))"
proof -
  have "has_prefix (''/clone/'' @ a @ ''/'' @ b) ''/clone/''"
    "trim_prefix (''/clone/'' @ a @ ''/'' @ b) ''/clone/'' = a @ CHR ''/'' # b"
    using trim_clone [of "a @ ''/'' @ b"] by simp_all
  moreover have "Method (SyncClone a b) = ''POST''" "Path (SyncClone a b) = ''/clone/'' @ a @ ''/'' @ b"
    by (simp_all add: SyncClone_def)
  ultimately show ?thesis by (simp add: toOp_def Let_def cut_slash)
qed

text \<open>C36. A local set or delete that is queued for a peer is the same operation again when the
  peer applies it. So is a clone, unless a key of it has a slash: it is then dropped from the
  queue without being sent, and counts as delivered.\<close>

theorem queued_write_meaning:
  "(\<exists>x. toOp (SyncSetRaw k raw) = Inr x \<and> applyOp L x st = SetRaw L k raw st) \<and>
   (\<exists>x. toOp (SyncDelete k) = Inr x \<and> applyOp L x st = Del k st) \<and>
   (if CHR ''/'' \<in> set a \<or> CHR ''/'' \<in> set b
    then (\<forall>ss. send False conn d h peer (SyncClone a b # ss) = (1, conn, False))
    else (\<exists>x. toOp (SyncClone a b) = Inr x \<and> applyOp L x st = Clone L a b st))"
  by (simp add: toOp_set toOp_del toOp_clone applyOp_def no_op_def send_def)

subsection \<open>Reaching every queue\<close>

lemma enqueue_pending:
  "encode C x = Some b \<Longrightarrow> pending (snd (enqueue C io x w)) = pending w @ [x]"
proof -
  assume b: "encode C x = Some b"
  let ?w = "w\<lparr>pending := pending w @ [x], seqno := Suc (seqno w), history := history w @ [x]\<rparr>"
  have "pending (snd (enqueue C io x w)) = pending (snd (appendLocked C io (E_record b) 1 ?w))"
    using b by (simp add: enqueue_def Let_def split: prod.split option.split)
  then show ?thesis by (simp add: append_pending)
qed

lemma syncTo_pending: "pending (snd (syncTo C io ok n w)) = pending w"
  by (auto simp: syncTo_def syncTo_begin_def syncTo_end_def Let_def checkpoint_pending markSynced_def
      split: option.splits prod.splits if_splits bool.splits) (metis checkpoint_pending snd_conv)+

text \<open>What a peer's queue holds, whether or not its worker was made already.\<close>

definition queued_for :: "queue_world \<Rightarrow> bytes \<Rightarrow> peers_state \<Rightarrow> syncOp list" where
  "queued_for Q a s = pending (fst (workerFor Q a s))"

lemma workerFor_keeps:
  "queued_for Q b (snd (workerFor Q a s)) = queued_for Q b s" "walDir (snd (workerFor Q a s)) = walDir s"
  "walPolicy (snd (workerFor Q a s)) = walPolicy s" "peer_addrs (snd (workerFor Q a s)) = peer_addrs s"
  by (auto simp: queued_for_def workerFor_def walPathForAddr_def Let_def map_of_append map_add_def split: option.split)

lemma queued_update:
  "queued_for Q b (s\<lparr>workers := AList.update a w (workers s)\<rparr>) = (if b = a then pending w else queued_for Q b s)"
  by (simp add: queued_for_def workerFor_def update_conv walPathForAddr_def Let_def split: option.split)

lemma dispatch_queue_pending:
  assumes "encode (op_codec Q) x = Some b" and "distinct addrs" and "dispatch_queue Q x addrs s = (qs, s')"
  shows "queued_for Q a s' = queued_for Q a s @ (if a \<in> set addrs then [x] else []) \<and>
    walPolicy s' = walPolicy s"
  using assms(2,3)
proof (induction addrs arbitrary: s qs s')
  case (Cons c addrs)
  obtain w s1 where w: "workerFor Q c s = (w, s1)" by fastforce
  obtain r w' where e: "enqueue (op_codec Q) (write_io Q c) x w = (r, w')" by fastforce
  let ?s2 = "s1\<lparr>workers := AList.update c w' (workers s1)\<rparr>"
  obtain qs1 s3 where d: "dispatch_queue Q x addrs ?s2 = (qs1, s3)" by fastforce
  then have s': "s' = s3" using Cons.prems(2) w e by (simp split: sum.splits)
  have "pending w' = queued_for Q c s @ [x]"
    using enqueue_pending [OF assms(1), of "write_io Q c" w] e w by (simp add: queued_for_def)
  moreover have "queued_for Q a s1 = queued_for Q a s" "walPolicy s1 = walPolicy s"
    using workerFor_keeps [where Q = Q and a = c and s = s] w by simp_all
  ultimately show ?case
    using Cons.IH [OF _ d] Cons.prems(1) queued_update [where Q = Q and b = a and s = s1 and a = c and w = w'] by (auto simp: s')
qed simp

lemma dispatch_sync_pending: "queued_for Q a (dispatch_sync Q qs s) = queued_for Q a s"
proof (induction Q qs s rule: dispatch_sync.induct)
  case (2 Q c n qs s)
  show ?case
  proof (cases "map_of (workers s) c")
    case None
    then show ?thesis using 2(1) by simp
  next
    case (Some w)
    then have "queued_for Q c s = pending w" by (simp add: queued_for_def workerFor_def)
    then show ?thesis using 2(2) [OF Some] Some by (simp add: queued_update syncTo_pending)
  qed
qed simp

text \<open>C35. A local write is queued for every configured peer, behind what its queue held, whatever
  becomes of the queue files; a queue of another peer is left alone.\<close>

theorem write_reaches_every_queue:
  assumes "write_op m = Some x" and "encode (op_codec Q) x = Some b" and "distinct (peer_addrs s)"
  shows "queued_for Q a (SyncWrite Q m s) = queued_for Q a s @ (if a \<in> set (peer_addrs s) then [x] else [])"
proof -
  obtain qs s' where d: "dispatch_queue Q x (peer_addrs s) s = (qs, s')" by fastforce
  show ?thesis
    using dispatch_queue_pending [OF assms(2,3) d, of a] assms(1) d
    by (simp add: SyncWrite_def dispatch_def dispatch_sync_pending)
qed

text \<open>A value handed over as such is queued as the local write of it is.\<close>

lemma SyncUpdate_write:
  assumes "localWriteHook n" "jsonValue K v = Some b"
  shows "hooked (notifyLocalWrite K (no_command\<lparr>cOp := ''set'', cKey := k, cValue := v\<rparr>) n) = hooked n @ [m] \<Longrightarrow>
    SyncUpdate Q K k v s = SyncWrite Q m s"
  using assms by (auto simp: SyncUpdate_def SyncWrite_def write_op_def SyncSetRaw_def notifyLocalWrite_def
      call_hook_def no_write_def no_command_def)

definition sample_world :: queue_world where
  "sample_world = \<lparr>op_codec = sample_codec, sha1_hex = (\<lambda>s. s), file_at = (\<lambda>_. []), load_io = (\<lambda>_. good_io),
     write_io = (\<lambda>_. good_io\<lparr>record_write := Some 0\<rparr>), sync_io = (\<lambda>_. good_io), sync_works = (\<lambda>_. False)\<rparr>"

theorem write_reaches_every_queue_witness:
  "queued_for sample_world ''b:1'' (SyncWrite sample_world (no_write\<lparr>wOp := ''del'', wKey := ''k''\<rparr>)
     (new_peers\<lparr>peer_addrs := [''a:1'', ''b:1'']\<rparr>)) = [SyncDelete ''k'']"
proof -
  have "queued_for sample_world ''b:1'' (new_peers\<lparr>peer_addrs := [''a:1'', ''b:1'']\<rparr>) = []"
    by (simp add: queued_for_def workerFor_def sample_world_def new_peers_def sample_load new_worker_def Let_def)
  then show ?thesis
    using write_reaches_every_queue [of "no_write\<lparr>wOp := ''del'', wKey := ''k''\<rparr>" "SyncDelete ''k''" sample_world _
        "new_peers\<lparr>peer_addrs := [''a:1'', ''b:1'']\<rparr>" "''b:1''"]
    by (simp add: write_op_def no_write_def sample_world_def sample_codec_def)
qed

subsection \<open>Emptying a queue\<close>

lemma peek_empty: "peekBatch w = [] \<longleftrightarrow> pending w = []"
  using peek_front [of w] by blast

lemma ensure_seqno: "seqno (snd (ensureWALFileLocked a b w)) = seqno w"
  by (simp add: ensureWALFileLocked_def)

lemma checkpoint_seqno: "seqno (snd (checkpointLocked C io w)) = seqno w"
  by (simp add: checkpointLocked_def checkpoint_body_def ensureWALFileLocked_def markSynced_def Let_def
      split: option.split prod.split)

lemma append_seqno: "seqno (snd (appendLocked C io b k w)) = seqno w"
  by (simp add: appendLocked_def checkpoint_seqno ensureWALFileLocked_def append_bytes_def Let_def
      split: option.split)

lemma ackN_seqno: "seqno (snd (ackN C io n w)) = seqno w"
  by (simp add: ackN_def Let_def append_seqno)

lemma ackN_ok_pending: "ackN C io n w = (r, w') \<Longrightarrow> pending w' = drop n (pending w)"
  using ackN_pending [of C io n w] by simp

text \<open>With acks that reach the file, a queue with operations is being sent, or its goroutine has a
  signal to send it.\<close>

lemma step_awake:
  assumes "run_step C True r r'" and "busy r \<or> token r \<or> pending (work r) = []"
  shows "busy r' \<or> token r' \<or> pending (work r') = []"
  using assms(1)
proof cases
  case (put x io)
  then show ?thesis using assms(2) by (cases "encode C x") (auto simp: enqueue_def)
next
  case (emptied)
  then show ?thesis by (simp add: peek_empty)
next
  case (sync_begin io n)
  then show ?thesis using assms(2)
    by (auto simp: syncTo_begin_def checkpoint_pending split: bool.splits option.splits prod.splits)
      (metis checkpoint_pending snd_conv)+
next
  case (sync_end io ok)
  then show ?thesis using assms(2)
    by (auto simp: syncTo_end_def Let_def markSynced_def checkpoint_pending split: option.splits prod.splits)
next
  case (tick io)
  then show ?thesis using assms(2) by (auto simp: syncAll_worker_def checkpoint_pending)
qed (use assms(2) in simp_all)

lemma steps_awake:
  "(run_step C True)\<^sup>*\<^sup>* r r' \<Longrightarrow> busy r \<or> token r \<or> pending (work r) = [] \<Longrightarrow>
    busy r' \<or> token r' \<or> pending (work r') = []"
  by (induction rule: rtranclp_induct) (use step_awake in blast)+

text \<open>C21. While acks can be written, delivery never stops short: in whatever state a worker is after
  any steps, the steps its goroutine makes on its own can empty the queue.\<close>

theorem delivery_never_stalls:
  assumes "(run_step C True)\<^sup>*\<^sup>* (started w0) r" and "\<And>n w. \<exists>io. fst (ackN C io n w) = None"
  shows "\<exists>r'. (run_step C True)\<^sup>*\<^sup>* r r' \<and> pending (work r') = [] \<and> seqno (work r') = seqno (work r)"
proof -
  have awake: "busy r \<or> token r \<or> pending (work r) = []"
    by (rule steps_awake [OF assms(1)]) (simp add: started_def)
  have emptied: "\<exists>r'. (run_step C True)\<^sup>*\<^sup>* q r' \<and> pending (work r') = [] \<and> seqno (work r') = seqno (work q)"
    if "busy q" for q
    using that
  proof (induction "length (pending (work q))" arbitrary: q rule: less_induct)
    case less
    show ?case
    proof (cases "pending (work q) = []")
      case False
      obtain io w where w: "ackN C io 1 (work q) = (None, w)" using assms(2) by (metis prod.collapse)
      have one: "deliver (\<lambda>_. 1) 0 = Some 1" by (simp add: deliver.simps)
      have step: "run_step C True q (q\<lparr>work := w\<rparr>)"
        by (rule run_step.batch [OF less.prems _ one w]) (simp add: peek_empty False)
      have p: "pending w = drop 1 (pending (work q))" by (rule ackN_ok_pending [OF w])
      then have "length (pending w) < length (pending (work q))" using False by (cases "pending (work q)") simp_all
      then obtain r' where r': "(run_step C True)\<^sup>*\<^sup>* (q\<lparr>work := w\<rparr>) r'" "pending (work r') = []"
        "seqno (work r') = seqno w"
        using less.hyps [of "q\<lparr>work := w\<rparr>"] less.prems by auto
      have "seqno w = seqno (work q)" using ackN_seqno [of C io 1 "work q"] w by simp
      then show ?thesis using step r' converse_rtranclp_into_rtranclp [of "run_step C True" q "q\<lparr>work := w\<rparr>" r'] by auto
    qed blast
  qed
  show ?thesis
  proof (cases "busy r \<or> pending (work r) = []")
    case True
    then show ?thesis using emptied [of r] by blast
  next
    case False
    then have "run_step C True r (r\<lparr>token := False, busy := True\<rparr>)" using awake by (intro run_step.wake) auto
    with emptied [of "r\<lparr>token := False, busy := True\<rparr>"] show ?thesis
      by (auto intro: converse_rtranclp_into_rtranclp)
  qed
qed

lemma encode_all_total: "\<forall>x. encode C x \<noteq> None \<Longrightarrow> \<exists>b. encode_all C xs = Some b"
proof (induction xs)
  case (Cons a xs)
  moreover obtain y where "encode C a = Some y" using Cons.prems by blast
  ultimately show ?case by auto
qed simp

lemma checkpoint_good: "\<forall>x. encode C x \<noteq> None \<Longrightarrow> fst (checkpointLocked C good_io w) = None"
  using encode_all_total [of C "pending w"]
  by (auto simp: checkpointLocked_def checkpoint_body_def good_io_def ensureWALFileLocked_def Let_def markSynced_def)

lemma ackN_good: "\<forall>x. encode C x \<noteq> None \<Longrightarrow> fst (ackN C good_io n w) = None"
  using checkpoint_good [of C]
  by (auto simp: ackN_def appendLocked_def ensureWALFileLocked_def good_io_def Let_def)

theorem delivery_never_stalls_witness:
  "\<exists>r'. (run_step sample_codec True)\<^sup>*\<^sup>* (started sample_worker) r' \<and> pending (work r') = []"
proof -
  have "\<forall>x. encode sample_codec x \<noteq> None" by (simp add: sample_codec_def)
  from ackN_good [OF this] have "\<And>n w. \<exists>io. fst (ackN sample_codec io n w) = None" by blast
  from delivery_never_stalls [OF rtranclp.rtrancl_refl this] show ?thesis by blast
qed

text \<open>A goroutine that waits without a signal, while no operation is queued.\<close>

definition asleep :: "syncOp list \<Rightarrow> nat \<Rightarrow> runner \<Rightarrow> bool" where
  "asleep q k r \<longleftrightarrow> k < seqno (work r) \<or>
     (\<not> busy r \<and> \<not> token r \<and> pending (work r) = q \<and> seqno (work r) = k)"

lemma syncTo_halves_seqno:
  "seqno (snd (syncTo_begin C io n w)) = seqno w" "seqno (snd (syncTo_end C io ok w)) = seqno w"
  "pending (snd (syncTo_begin C io n w)) = pending w" "pending (snd (syncTo_end C io ok w)) = pending w"
  by (simp_all add: syncTo_begin_def syncTo_end_def Let_def markSynced_def checkpoint_seqno checkpoint_pending
      split: option.split prod.split bool.split) (metis checkpoint_seqno checkpoint_pending snd_conv)+

lemma enqueue_seqno:
  "encode C x = Some b \<Longrightarrow> seqno (snd (enqueue C io x w)) = Suc (seqno w)"
  "encode C x = None \<Longrightarrow> snd (enqueue C io x w) = w"
proof -
  assume b: "encode C x = Some b"
  let ?w = "w\<lparr>pending := pending w @ [x], seqno := Suc (seqno w), history := history w @ [x]\<rparr>"
  have "seqno (snd (enqueue C io x w)) = seqno (snd (appendLocked C io (E_record b) 1 ?w))"
    using b by (simp add: enqueue_def Let_def split: prod.split option.split)
  then show "seqno (snd (enqueue C io x w)) = Suc (seqno w)" by (simp add: append_seqno)
qed (simp add: enqueue_def)

lemma step_asleep: "run_step C h r r' \<Longrightarrow> asleep q k r \<Longrightarrow> asleep q k r'"
proof (induction rule: run_step.induct)
  case (put r x io)
  then show ?case by (cases "encode C x") (auto simp: asleep_def enqueue_seqno)
next
  case (batch r tries n io w)
  then show ?case using ackN_seqno [of C io n "work r"] by (auto simp: asleep_def)
next
  case (batch_failed r tries n io e w)
  then show ?case using ackN_seqno [of C io n "work r"] by (auto simp: asleep_def)
qed (auto simp: asleep_def syncTo_halves_seqno syncAll_worker_def checkpoint_seqno checkpoint_pending)

lemma steps_asleep: "(run_step C h)\<^sup>*\<^sup>* r r' \<Longrightarrow> asleep q k r \<Longrightarrow> asleep q k r'"
  by (induction rule: rtranclp_induct) (use step_asleep in blast)+

text \<open>After an ack that did not reach the file, the goroutine waits for a signal with operations
  still queued: nothing sends them, however long, until another write is queued for that peer.\<close>

theorem failed_ack_stalls:
  assumes "busy r" "\<not> token r" and "0 < n" "n < length (pending (work r))"
    and "ackN C io n (work r) = (Some e, w)"
  shows "\<exists>r'. run_step C False r r' \<and> pending (work r') = drop n (pending (work r)) \<and> pending (work r') \<noteq> [] \<and>
    (\<forall>r''. (run_step C False)\<^sup>*\<^sup>* r' r'' \<and> seqno (work r'') = seqno (work r') \<longrightarrow>
      pending (work r'') = pending (work r'))"
proof -
  let ?r = "r\<lparr>work := w, busy := False\<rparr>"
  have n: "deliver (\<lambda>_. n) 0 = Some n" using assms(3) by (simp add: deliver.simps)
  have "pending (work r) \<noteq> []" using assms(4) by auto
  then have step: "run_step C False r ?r"
    by (intro run_step.batch_failed [OF _ assms(1) _ n assms(5)]) (simp_all add: peek_empty)
  have p: "pending w = drop n (pending (work r))" by (rule ackN_ok_pending [OF assms(5)])
  have sleeps: "asleep (pending w) (seqno w) ?r" using assms(2) by (simp add: asleep_def)
  have "pending (work r'') = pending w" if "(run_step C False)\<^sup>*\<^sup>* ?r r''" "seqno (work r'') = seqno w" for r''
    using steps_asleep [OF that(1) sleeps] that(2) by (simp add: asleep_def)
  then show ?thesis using step p assms(4) by (intro exI [of _ ?r]) auto
qed

definition two_queued :: runner where
  "two_queued = \<lparr>work = snd (enqueue sample_codec good_io (path_op ''/db/j'') sample_worker), token = False, busy = True\<rparr>"

lemma two_queued_pending: "pending (work two_queued) = [path_op ''/db/k'', path_op ''/db/j'']"
  using enqueue_pending [of sample_codec "path_op ''/db/j''" _ good_io sample_worker]
  by (simp add: two_queued_def sample_worker_fields sample_codec_def)

theorem failed_ack_stalls_witness:
  "\<exists>r'. run_step sample_codec False two_queued r' \<and> pending (work r') = [path_op ''/db/j'']"
proof -
  have "needCheckpoint (work two_queued) = False"
    by (simp add: two_queued_def sample_worker_def sample_load)
      (simp add: enqueue_def sample_codec_def path_op_def appendLocked_def good_io_def new_worker_def
        ensureWALFileLocked_def append_bytes_def Let_def reclaimableLocked_def walCheckpointEvery_def E_record_def)
  then have "fst (ackN sample_codec (good_io\<lparr>record_write := Some 0\<rparr>) 1 (work two_queued)) = Some WriteFailed"
    by (simp add: ackN_def two_queued_pending appendLocked_def ensureWALFileLocked_def good_io_def Let_def)
  then obtain w where "ackN sample_codec (good_io\<lparr>record_write := Some 0\<rparr>) 1 (work two_queued) = (Some WriteFailed, w)"
    by (metis prod.collapse)
  from failed_ack_stalls [OF _ _ _ _ this] show ?thesis by (auto simp: two_queued_pending) (auto simp: two_queued_def)
qed

subsection \<open>Both ways of sending\<close>

text \<open>The route \<open>doRequest\<close> of an operation reaches.\<close>

definition route_of :: "op \<Rightarrow> peer_route" where
  "route_of x =
     (if okind x = opSet then PeerUpdate (okey x) (oraw x)
      else if okind x = opDel then PeerForget (okey x)
      else if okind x = opClone then PeerClone (okey x) (oto x)
      else PeerVacuum)"

text \<open>An operation sent to a peer over HTTP does there what it does in a batch of the peers
  protocol, and the sender takes it off its queue in the one case exactly when it does in the
  other: it is kept only when the peer refuses writes.\<close>

theorem http_like_batch:
  assumes "op_fits x" and "peer_action L msg (route_of x) st = (resp, st1)"
    and "applyBatch L msg late (\<lambda>_ st. st) [x] st = (res, st2)"
  shows "st1 = st2 \<and> sendHTTP (HttpStatus (status resp)) = applied_ops res \<and>
    (applied_ops res = 0 \<longleftrightarrow> fst (applyOp L x st) = Some ErrWritesRefused)"
proof -
  obtain e st' where a: "applyOp L x st = (e, st')" by fastforce
  have p: "peer_action L msg (route_of x) st = (peer_reply msg e, st')"
    using a assms(1) by (auto simp: peer_action_def route_of_def applyOp_def op_fits_def peer_reply_def)
  have "sendHTTP (HttpStatus (status (peer_reply msg e))) = (if e = Some ErrWritesRefused then 0 else 1)"
    by (auto simp: sendHTTP_def http_ok_def isRejected_def peer_reply_def split: option.split db_error.split)
  then show ?thesis using a p assms(2,3)
    by (auto simp: applyBatch_def split: if_splits option.splits)
qed

theorem http_like_batch_witness:
  "sendHTTP (HttpStatus (status (fst (peer_action plain_libs (\<lambda>_. []) (PeerForget ''k'') (init_store\<lparr>writesRefused := True\<rparr>))))) = 0"
proof -
  let ?st = "init_store\<lparr>writesRefused := True\<rparr>"
  obtain resp st1 where p: "peer_action plain_libs (\<lambda>_. []) (route_of (del_op ''k'')) ?st = (resp, st1)" by fastforce
  obtain res st2 where b: "applyBatch plain_libs (\<lambda>_. []) (\<lambda>_. False) (\<lambda>_ st. st) [del_op ''k''] ?st = (res, st2)" by fastforce
  have fits: "op_fits (del_op ''k'')" by (simp add: op_fits_def del_op_def no_op_def maxValue_def)
  have "fst (applyOp plain_libs (del_op ''k'') ?st) = Some ErrWritesRefused"
    by (simp add: applyOp_def del_op_def no_op_def Del_def checkWritable_def init_store_def)
  moreover have "route_of (del_op ''k'') = PeerForget ''k''" by (simp add: route_of_def del_op_def no_op_def)
  ultimately show ?thesis using http_like_batch [OF fits p b] p by simp
qed

end
