(* ===== verification/Fetch.thy ===== *)
theory Fetch
  imports ReplicationProps ClusterProps
begin

text \<open>
  \<open>fetchDocument\<close>, \<open>doRequest\<close> and \<open>dialPeer\<close> of \<open>internal/peers\<close>: how a node that starts
  empty gets the document of a peer, over the peers protocol or, from a peer that does not speak
  it, over HTTP; and the property that it ends up with that document.
\<close>

subsection \<open>The network\<close>

text \<open>
  What a node meets when it reaches for a peer: whether a connection to a host is made and
  takes the greeting, all that comes back for all that is sent on it, whether a read that comes
  up short has timed out, and the answer to an HTTP request for a URL. An answer whose body
  could not be read has none.
\<close>

datatype http_answer = NoAnswer | Answer nat "bytes option"

record peer_net =
  connects :: "bytes \<Rightarrow> bool"
  hello_sent :: "bytes \<Rightarrow> bool"
  answers_to :: "bytes \<Rightarrow> bytes \<Rightarrow> bytes"
  times_out :: "bytes \<Rightarrow> bool"
  http_do :: "bytes \<Rightarrow> bytes \<Rightarrow> http_answer"

subsection \<open>One request\<close>

text \<open>\<open>statusError\<close>, and every other error of \<open>doRequest\<close>.\<close>

datatype request_error = StatusError nat bytes | RequestFailed

definition readBody :: "bytes option \<Rightarrow> bytes" where
  "readBody b = (case b of None \<Rightarrow> [] | Some s \<Rightarrow> s)"

definition doRequest :: "peer_net \<Rightarrow> syncOp \<Rightarrow> bytes \<Rightarrow> request_error + bytes" where
  "doRequest N x addr =
     (case http_do N (Method x) (request_url addr x) of
        NoAnswer \<Rightarrow> Inl RequestFailed
      | Answer code b \<Rightarrow>
          if code < 200 \<or> 300 \<le> code then Inl (StatusError code (readBody b))
          else Inr (readBody b))"

definition dialPeer :: "peer_net \<Rightarrow> bytes \<Rightarrow> dial_result" where
  "dialPeer N addr =
     (case tcpAddr addr of
        (host, known) \<Rightarrow>
          if \<not> known then DialUnsupported
          else if \<not> connects N host then DialFailed
          else if \<not> hello_sent N host then DialFailed
          else
            let got = take (length hello) (answers_to N host hello) in
            if got \<noteq> hello then
              (if length got < length hello \<and> times_out N host then DialFailed else DialUnsupported)
            else Dialled)"

text \<open>What the peer answers once the greetings are exchanged.\<close>

definition after_hello :: "peer_net \<Rightarrow> bytes \<Rightarrow> bytes \<Rightarrow> bytes" where
  "after_hello N addr req = drop (length hello) (answers_to N (fst (tcpAddr addr)) (hello @ req))"

definition get_db :: syncOp where
  "get_db = \<lparr>Method = ''GET'', Path = ''/db'', Body = [], ContentType = []\<rparr>"

definition fetchDocument :: "peer_net \<Rightarrow> bytes \<Rightarrow> bytes option" where
  "fetchDocument N addr =
     (case dialPeer N addr of
        DialUnsupported \<Rightarrow> (case doRequest N get_db addr of Inl _ \<Rightarrow> None | Inr b \<Rightarrow> Some b)
      | DialFailed \<Rightarrow> None
      | Dialled \<Rightarrow> (case document_request (after_hello N addr) of Inl _ \<Rightarrow> None | Inr b \<Rightarrow> Some b))"

subsection \<open>What is fetched\<close>

text \<open>A peer that runs this code, with the store \<open>pst\<close>, and one that only answers over HTTP.\<close>

definition speaks_protocol :: "libs \<Rightarrow> (nat \<Rightarrow> surroundings) \<Rightarrow> peer_net \<Rightarrow> bytes \<Rightarrow> store \<Rightarrow> bool" where
  "speaks_protocol L S N a pst \<longleftrightarrow>
     snd (tcpAddr a) \<and> connects N (fst (tcpAddr a)) \<and> hello_sent N (fst (tcpAddr a)) \<and>
     (\<forall>sent. answers_to N (fst (tcpAddr a)) sent = fst (serveTCP L S sent pst))"

definition speaks_http :: "libs \<Rightarrow> (db_error \<Rightarrow> bytes) \<Rightarrow> peer_net \<Rightarrow> bytes \<Rightarrow> store \<Rightarrow> bool" where
  "speaks_http L msg N a pst \<longleftrightarrow>
     dialPeer N a = DialUnsupported \<and>
     http_do N ''GET'' (http_form a @ ''/db'') =
       (let r = fst (peer_action L msg PeerWhole pst) in
        Answer (status r) (case body r of BodyText s \<Rightarrow> Some s | _ \<Rightarrow> None))"

lemma serveTCP_hello: "serveTCP L S hello pst = (hello, pst)"
  by (simp add: serveTCP_def has_prefix_def serve_request_def)

lemma serveTCP_document:
  "fst (serveTCP L S (hello @ [reqDocument]) pst) = hello @ WriteFrame (fst (Get L [] pst))"
  by (simp add: serveTCP_def serve_request_def split: prod.split)

lemma fetch_protocol:
  assumes "speaks_protocol L S N a pst" and "length (fst (Get L [] pst)) \<le> maxDocument"
  shows "fetchDocument N a = Some (fst (Get L [] pst))"
proof -
  have "dialPeer N a = Dialled"
    using assms(1) by (cases "tcpAddr a") (simp add: dialPeer_def speaks_protocol_def serveTCP_hello)
  moreover have "document_request (after_hello N a) = Inr (fst (Get L [] pst))"
    using assms frame_written [of "fst (Get L [] pst)" maxDocument "[]"]
    by (simp add: document_request_def after_hello_def speaks_protocol_def serveTCP_document maxDocument_def)
  ultimately show ?thesis by (simp add: fetchDocument_def)
qed

lemma fetch_http:
  "speaks_http L msg N a pst \<Longrightarrow> fetchDocument N a = Some (fst (Get L [] pst))"
  by (cases "Get L [] pst") (simp add: speaks_http_def fetchDocument_def doRequest_def get_db_def request_url_def
      peer_action_def readBody_def)

text \<open>\<open>sendHTTP\<close> sees of \<open>doRequest\<close> only whether it succeeded and, if not, the status code.\<close>

lemma sendHTTP_doRequest:
  "sendHTTP (case http_do N (Method x) (request_url a x) of NoAnswer \<Rightarrow> HttpFailed | Answer code _ \<Rightarrow> HttpStatus code) =
     (case doRequest N x a of
        Inr _ \<Rightarrow> 1
      | Inl (StatusError code _) \<Rightarrow> if isRejected code then 1 else 0
      | Inl RequestFailed \<Rightarrow> 0)"
  by (simp add: sendHTTP_def doRequest_def http_ok_def split: http_answer.split)

subsection \<open>Restoring\<close>

text \<open>A peer that is passed over: nothing is fetched from it, or something that is not JSON.\<close>

definition passed_over :: "libs \<Rightarrow> peer_net \<Rightarrow> bytes \<Rightarrow> bool" where
  "passed_over L N a \<longleftrightarrow> (case fetchDocument N a of None \<Rightarrow> True | Some s \<Rightarrow> goUnmarshal L s \<noteq> None)"

lemma restore_passed_over:
  "list_all (passed_over L N) pre \<Longrightarrow>
    restore_loop L (fetchDocument N) (pre @ addrs) st = restore_loop L (fetchDocument N) addrs st"
  by (induction pre) (auto simp: passed_over_def Replace_def split: option.splits)

lemma restore_all_passed_over: "list_all (passed_over L N) addrs \<Longrightarrow> restore_loop L (fetchDocument N) addrs st = st"
  using restore_passed_over [of L N addrs "[]" st] by simp

lemma document_Vacuum: "document (Vacuum st) = document st"
  by (simp add: Vacuum_def)

text \<open>C22. A node that starts with an empty document, and the addresses of peers some of which cannot
  be reached or answer nonsense, ends up with the document of the first that answers, whether it
  speaks the peers protocol or only HTTP, serves the same text for it, and asks its writer for a
  log that holds nothing else. A node that has a document, or reaches nobody, keeps its own.\<close>

theorem restored_from_first_peer:
  assumes "list_all (passed_over L N) pre"
    and "speaks_protocol L S N a pst \<or> speaks_http L msg N a pst"
    and "store_ok pst" and "snapshot_ok pst" and "reads_text L (document pst)"
    and "length (doc_text (document pst)) \<le> maxDocument"
    and "Restore Q L (fetchDocument N) (pre @ a # post) (s, st) = (s', st')"
    and "Restore Q L (fetchDocument N) pre (s, st) = (s2, st2)"
  shows "st2 = st \<and> (if Empty st then document st' = document pst \<and> fst (Get L [] st') = fst (Get L [] pst) \<and>
      (aofEnabled st \<longrightarrow> command (last (persists st')) = DumpCmd) else st' = st)"
proof -
  have tx: "fst (Get L [] pst) = doc_text (document pst)"
    using snapshot_text [OF assms(4)] by (simp add: Get_def split: prod.split)
  have got: "fetchDocument N a = Some (doc_text (document pst))"
    using assms(2,6) fetch_protocol [of L S N a pst] fetch_http [of L msg N a pst] by (auto simp: tx)
  obtain ob where r: "Replace L (doc_text (document pst)) st =
        (None, st\<lparr>configRoot := ob, configSnapshot := doc_text (document pst), configStale := False\<rparr>)"
    and doc: "\<And>s x. document (st\<lparr>configRoot := ob, configSnapshot := s, configStale := x\<rparr>) = document pst"
    using Replace_doc_text [OF assms(3,5), of st] by blast
  let ?v = "Vacuum (st\<lparr>configRoot := ob, configSnapshot := doc_text (document pst), configStale := False\<rparr>)"
  have v: "document ?v = document pst" "fst (Get L [] ?v) = doc_text (document pst)"
    "aofEnabled st \<Longrightarrow> command (last (persists ?v)) = DumpCmd"
    by (simp_all add: document_Vacuum doc)
      (simp_all add: Get_def snapshot_def Vacuum_def appendAOF_def mk_row_def)
  have "restore_loop L (fetchDocument N) (pre @ a # post) st = ?v"
    using restore_passed_over [OF assms(1), of "a # post" st] got r by simp
  then show ?thesis
    using assms(7,8) v tx restore_all_passed_over [OF assms(1), of st]
    by (auto simp: Restore_def Let_def split: if_splits)
qed

text \<open>Two peers, of which only the second can be reached.\<close>

definition list_libs :: libs where
  "list_libs = cluster_sample_libs\<lparr>gjsonParse := (\<lambda>_. doc_view (document list_store))\<rparr>"

definition list_net :: peer_net where
  "list_net = \<lparr>connects = (\<lambda>host. host = ''b:1''), hello_sent = (\<lambda>_. True),
     answers_to = (\<lambda>_ sent. fst (serveTCP list_libs (\<lambda>_. plain_surroundings) sent list_store)),
     times_out = (\<lambda>_. False), http_do = (\<lambda>_ _. NoAnswer)\<rparr>"

theorem restored_from_first_peer_witness:
  "document (snd (Restore sample_world list_libs (fetchDocument list_net) [''a:1'', ''b:1''] (new_peers, init_store))) =
     DObj [(''a'', ''\"a\"'', DArr [])]"
proof -
  let ?pre = "[''a:1'']"
  have over: "list_all (passed_over list_libs list_net) ?pre"
    by (simp add: passed_over_def fetchDocument_def dialPeer_def tcpAddr_def list_net_def has_prefix_def
        trim_prefix_def trim_suffix_def has_suffix_def)
  have speaks: "speaks_protocol list_libs (\<lambda>_. plain_surroundings) list_net ''b:1'' list_store"
    by (simp add: speaks_protocol_def tcpAddr_def list_net_def has_prefix_def trim_prefix_def trim_suffix_def
        has_suffix_def)
  have reads: "reads_text list_libs (document list_store)"
    by (simp add: reads_text_def list_libs_def cluster_sample_libs_def)
  have fits: "length (doc_text (document list_store)) \<le> maxDocument"
    by (simp add: list_store_document maxDocument_def)
  have snap: "snapshot_ok list_store" using list_store_replica by (simp add: replica_def)
  have empty: "Empty init_store" by (simp add: Empty_def init_store_def newTreeObj_def)
  obtain s' st' where all: "Restore sample_world list_libs (fetchDocument list_net) (?pre @ ''b:1'' # []) (new_peers, init_store) = (s', st')"
    by fastforce
  obtain s2 st2 where first: "Restore sample_world list_libs (fetchDocument list_net) ?pre (new_peers, init_store) = (s2, st2)"
    by fastforce
  have "document st' = document list_store"
    using restored_from_first_peer [OF over disjI1 [OF speaks] list_store_ok(1) snap reads fits all first] empty
    by (simp only: if_True)
  then show ?thesis using all by (simp only: append_Cons append_Nil snd_conv list_store_document)
qed

end
