(* ===== verification/Ports.thy ===== *)
theory Ports
  imports Fetch
begin

text \<open>
  Two protocols on one port, told apart by the first byte of a connection: on the peers port the
  peers protocol and HTTP (\<open>internal/peers/peers.go\<close>), on the Raft port forwarded writes and Raft itself
  (\<open>internal/cluster/forward.go\<close>).
\<close>

subsection \<open>The peers port\<close>

definition peers_first :: "char \<Rightarrow> bool" where
  "peers_first b \<longleftrightarrow> b = hd hello"

definition newServer :: mux where
  "newServer = SetHandler NewMux"

text \<open>Without the address \<open>Listen\<close> panics: there is no server. The queues are ready by then.\<close>

definition Listen_peers :: "queue_world \<Rightarrow> bool \<Rightarrow> bytes list \<Rightarrow> peers_state \<Rightarrow> mux option \<times> peers_state" where
  "Listen_peers Q listened addrs s = (if listened then Some newServer else None, Configure Q addrs s)"

definition forward_first :: "char \<Rightarrow> bool" where
  "forward_first b \<longleftrightarrow> b = forwardByte"

text \<open>\<open>dialForward\<close>: what it leaves in the buffer of the new connection.\<close>

definition dialForward :: "bytes option \<Rightarrow> bytes + bytes" where
  "dialForward failed_with = (case failed_with of Some e \<Rightarrow> Inl e | None \<Rightarrow> Inr [forwardByte])"

subsection \<open>A connection gets to its protocol\<close>

lemma route_handled: "route f (Some b) c m = m\<lparr>handled_conns := c # handled_conns m\<rparr>"
  if "f b" "has_handler m" "\<not> mux_closed m"
  using that by (simp add: route_def)

lemma route_waits: "\<not> f b \<Longrightarrow> route f (Some b) c m = m\<lparr>waiting := waiting m @ [c]\<rparr>"
  by (simp add: route_def)

text \<open>
  A node that speaks the peers protocol is served it, whatever it asks. A queued operation that an
  older node sends as the HTTP request it is, and its request for the document, are left to HTTP.
\<close>

theorem ports_told_apart:
  assumes "has_handler m" "\<not> mux_closed m"
  shows "route peers_first (Some (hd (hello @ req))) c m = m\<lparr>handled_conns := c # handled_conns m\<rparr> \<and>
    (\<forall>x \<in> {SyncSetRaw k raw, SyncDelete k, SyncClone k t, SyncVacuum}.
       route peers_first (Some (hd (Method x))) c m = m\<lparr>waiting := waiting m @ [c]\<rparr>) \<and>
    route peers_first (Some (hd ''GET'')) c m = m\<lparr>waiting := waiting m @ [c]\<rparr> \<and>
    (\<forall>b. dialForward None = Inr b \<longrightarrow>
       route forward_first (Some (hd b)) c m = m\<lparr>handled_conns := c # handled_conns m\<rparr>)"
  using assms
  by (simp add: route_handled route_waits peers_first_def forward_first_def dialForward_def hello_def
      SyncSetRaw_def SyncDelete_def SyncClone_def SyncVacuum_def)

text \<open>After \<open>Listen\<close> there is a queue for every configured peer, and the server takes both protocols.\<close>

lemma workerFor_there: "addr \<in> fst ` set (workers (snd (workerFor Q addr s)))"
  by (force simp: workerFor_def Let_def split: option.split dest: map_of_SomeD)

lemma workerFor_more: "fst ` set (workers s) \<subseteq> fst ` set (workers (snd (workerFor Q addr s)))"
  by (auto simp: workerFor_def Let_def split: option.split)

lemma ensureWorkers_there:
  "set addrs \<union> fst ` set (workers s) \<subseteq> fst ` set (workers (ensureWorkers Q addrs s))"
proof (induction addrs arbitrary: s)
  case (Cons a addrs)
  have "set addrs \<union> fst ` set (workers (snd (workerFor Q a s))) \<subseteq> fst ` set (workers (ensureWorkers Q (a # addrs) s))"
    using Cons.IH [of "snd (workerFor Q a s)"] by (simp add: ensureWorkers_def)
  then show ?case using workerFor_there [of a Q s] workerFor_more [of s Q a] unfolding list.set by blast
qed (simp add: ensureWorkers_def)

theorem listening_has_queues:
  "fst (Listen_peers Q True addrs s) = Some newServer \<and> has_handler newServer \<and> \<not> mux_closed newServer \<and>
   set addrs \<subseteq> fst ` set (workers (snd (Listen_peers Q listened addrs s)))"
  using ensureWorkers_there [of addrs "s\<lparr>peer_addrs := addrs\<rparr>" Q]
  by (simp add: Listen_peers_def newServer_def SetHandler_def NewMux_def Configure_def)

end
