(* ===== verification/Converge.thy ===== *)
theory Converge
  imports ReplicationProps ClusterProps
begin

text \<open>
  A node and one of its peers, as one system: clients write at the node, every write is queued for
  the peer, and rounds of delivery empty the queue at the peer. What the peer's document lacks of
  the node's is exactly what is queued for it.
\<close>

subsection \<open>An operation on the document\<close>

definition doc_setraw :: "libs \<Rightarrow> bytes \<Rightarrow> bytes \<Rightarrow> doc \<Rightarrow> db_error option \<times> doc" where
  "doc_setraw L k raw d =
     (case canonicalScalar (trim_space raw) of
        Some leaf \<Rightarrow> doc_write k (DLeaf leaf) d
      | None \<Rightarrow>
          (case decodeJSON L (trim_space raw) of
             Inl e \<Rightarrow> (Some (JSONError (DecodeError e)), d)
           | Inr j \<Rightarrow> doc_set L k (value_of_json j) d))"

definition doc_op :: "libs \<Rightarrow> op \<Rightarrow> doc \<Rightarrow> db_error option \<times> doc" where
  "doc_op L x d =
     (if okind x = opSet then doc_setraw L (okey x) (oraw x) d
      else if okind x = opDel then (None, spec_remove d (okey x))
      else if okind x = opClone then (None, doc_clone L (okey x) (oto x) d)
      else (None, d))"

text \<open>A queued operation: one that cannot be read is dropped by the sender.\<close>

definition doc_sync :: "libs \<Rightarrow> syncOp \<Rightarrow> doc \<Rightarrow> doc" where
  "doc_sync L s d = (case toOp s of Inl _ \<Rightarrow> d | Inr x \<Rightarrow> snd (doc_op L x d))"

lemma doc_setraw_trimmed [simp]: "doc_setraw L k (trim_space raw) d = doc_setraw L k raw d"
  unfolding doc_setraw_def trim_space_idem ..

lemma SetRaw_writable:
  assumes "store_ok st" "checkWritable st = None"
  shows "map_prod id document (SetRaw L k raw st) = doc_setraw L k raw (document st)"
proof (cases "canonicalScalar (trim_space raw)")
  case None
  then show ?thesis
    using assms(2) Set_writable [OF assms, of L k] by (auto simp: SetRaw_def doc_setraw_def Let_def split: sum.split)
next
  case (Some leaf)
  obtain r st' where s: "setNode k (Leaf leaf) st = (r, st')" by fastforce
  then have "(r, document st') = doc_write k (DLeaf leaf) (document st)"
    using setNode_write [OF assms(1), of k "Leaf leaf"] by simp
  then show ?thesis using assms(2) Some s by (cases r) (auto simp: SetRaw_def doc_setraw_def Let_def)
qed

lemma Del_writable:
  assumes "store_ok st" "checkWritable st = None"
  shows "map_prod id document (Del k st) = (None, spec_remove (document st) k)"
  using assms(2) delonly_document [OF assms(1)] by (simp add: Del_def)

lemma Clone_writable:
  assumes "store_ok st" "checkWritable st = None"
  shows "map_prod id document (Clone L fk tk st) = (None, doc_clone L fk tk (document st))"
  using assms(2) cloneonly_write [OF assms(1), of L fk tk] by (auto simp: Clone_def split: prod.split)

lemma refused_writes:
  assumes "checkWritable st = Some e"
  shows "SetRaw L k raw st = (Some e, st)" "Del k st = (Some e, st)" "Clone L fk tk st = (Some e, st)"
    and "e = ErrWritesRefused"
  using assms by (auto simp: SetRaw_def Del_def Clone_def checkWritable_def split: if_splits)

lemma applyOp_document:
  assumes "store_ok st" and "applyOp L x st = (err, st')"
  shows "store_ok st' \<and> document st' =
    (if err = Some ErrWritesRefused then document st else snd (doc_op L x (document st)))"
proof -
  have ok: "store_ok st'"
    using assms SetRaw_ok [of st L "okey x" "oraw x"] Del_ok [of st "okey x"] Clone_ok [of st L "okey x" "oto x"]
    by (auto simp: applyOp_def Vacuum_def split: if_splits)
  have "document st' = (if err = Some ErrWritesRefused then document st else snd (doc_op L x (document st)))"
  proof (cases "checkWritable st")
    case None
    have "err = Some ErrWritesRefused \<Longrightarrow> st' = st"
      using assms(2) SetRaw_failed [of L "okey x" "oraw x" st] None
      by (auto simp: applyOp_def Del_def Clone_def split: if_splits prod.splits)
    moreover have "document st' = snd (doc_op L x (document st))"
      using assms SetRaw_writable [OF assms(1) None, of L "okey x" "oraw x"]
        Del_writable [OF assms(1) None, of "okey x"] Clone_writable [OF assms(1) None, of L "okey x" "oto x"]
      by (auto simp: applyOp_def doc_op_def Vacuum_def split: if_splits) (metis snd_conv)
    ultimately show ?thesis by auto
  next
    case (Some e)
    then show ?thesis
      using assms(2) refused_writes [OF Some] by (auto simp: applyOp_def doc_op_def Vacuum_def split: if_splits)
  qed
  with ok show ?thesis by blast
qed

subsection \<open>The system\<close>

text \<open>A client's write, as the TCP and HTTP servers hand it on.\<close>

datatype client_write = CSet bytes bytes | CDel bytes | CClone bytes bytes

definition do_write :: "libs \<Rightarrow> cluster_libs \<Rightarrow> outside \<Rightarrow> client_write \<Rightarrow> cnode \<Rightarrow> cluster_error option \<times> cnode" where
  "do_write L K X w n =
     (case w of
        CSet k raw \<Rightarrow> ApplySetRaw L K X k raw n
      | CDel k \<Rightarrow> ApplyDelete L K X k n
      | CClone fk tk \<Rightarrow> ApplyClone L K X fk tk n)"

definition queued_op :: "client_write \<Rightarrow> syncOp" where
  "queued_op w =
     (case w of
        CSet k raw \<Rightarrow> SyncSetRaw k (trim_space raw)
      | CDel k \<Rightarrow> SyncDelete k
      | CClone fk tk \<Rightarrow> SyncClone fk tk)"

text \<open>A write the protocol can carry: a clone has no slash in a key, and nothing is longer than a
  frame.\<close>

definition write_fits :: "client_write \<Rightarrow> bool" where
  "write_fits w \<longleftrightarrow>
     (case w of CClone fk tk \<Rightarrow> CHR ''/'' \<notin> set fk \<and> CHR ''/'' \<notin> set tk | _ \<Rightarrow> True) \<and>
     length (Path (queued_op w)) \<le> maxValue \<and> length (Body (queued_op w)) \<le> maxValue"

text \<open>The hook of \<open>main\<close>: what a write adds to the messages of the node goes to every queue.\<close>

definition sync_writes :: "queue_world \<Rightarrow> cnode \<Rightarrow> cnode \<Rightarrow> peers_state \<Rightarrow> peers_state" where
  "sync_writes Q n n' s = fold (SyncWrite Q) (drop (length (hooked n)) (hooked n')) s"

record replication =
  near :: cnode
  queues :: peers_state
  far :: store

text \<open>What a peer does beside a batch leaves its document alone: nobody else writes there.\<close>

definition quiet :: "surroundings \<Rightarrow> bool" where
  "quiet S \<longleftrightarrow>
     (\<forall>e. length (err_text S e) \<le> maxValue) \<and> (\<forall>xs. mset (map_order S xs) = mset xs) \<and>
     (\<forall>i st. store_ok st \<longrightarrow> store_ok (others S i st) \<and> document (others S i st) = document st)"

text \<open>The peer of a round: it answers the request and is left with a store.\<close>

definition peer_answer :: "libs \<Rightarrow> surroundings \<Rightarrow> store \<Rightarrow> bytes \<Rightarrow> bytes" where
  "peer_answer L S st req = (case serve_request L S req st of Inl _ \<Rightarrow> [] | Inr (reply, _, _) \<Rightarrow> reply)"

definition peer_left :: "libs \<Rightarrow> surroundings \<Rightarrow> store \<Rightarrow> bytes \<Rightarrow> store" where
  "peer_left L S st req = (case serve_request L S req st of Inl _ \<Rightarrow> st | Inr (_, _, st') \<Rightarrow> st')"

definition update_worker :: "bytes \<Rightarrow> worker \<Rightarrow> peers_state \<Rightarrow> peers_state" where
  "update_worker a w s = s\<lparr>workers := AList.update a w (workers s)\<rparr>"

text \<open>
  The steps: a client's write; a round of delivery over the peers protocol, whatever its files
  answer; what else may happen to either store that is no write (a read, a vacuum, the writer of
  the log, a restart from the log); an fsync of the queue's file.
\<close>

inductive repl_step ::
  "libs \<Rightarrow> cluster_libs \<Rightarrow> queue_world \<Rightarrow> bytes \<Rightarrow> replication \<Rightarrow> replication \<Rightarrow> bool"
  for L :: libs and K :: cluster_libs and Q :: queue_world and a :: bytes where
  client: "write_fits w \<Longrightarrow> do_write L K X w (near s) = (err, n') \<Longrightarrow>
    repl_step L K Q a s (s\<lparr>near := n', queues := sync_writes Q (near s) n' (queues s)\<rparr>)"
| round: "workerFor Q a (queues s) = (w, qs) \<Longrightarrow> pending w \<noteq> [] \<Longrightarrow> quiet S \<Longrightarrow>
    send False True d h (peer_answer L S (far s)) (peekBatch w) = (n, conn, http) \<Longrightarrow>
    repl_step L K Q a s
      (s\<lparr>queues := update_worker a (snd (ackN (op_codec Q) io n w)) qs,
         far := peer_left L S (far s) (batch_request (convert_ops (peekBatch w)))\<rparr>)"
| near_other: "store_ok st \<Longrightarrow> document st = document (db_of (near s)) \<Longrightarrow>
    repl_step L K Q a s (s\<lparr>near := (near s)\<lparr>db_of := st\<rparr>\<rparr>)"
| far_other: "store_ok st \<Longrightarrow> document st = document (far s) \<Longrightarrow> repl_step L K Q a s (s\<lparr>far := st\<rparr>)"
| queue_fsync: "workerFor Q a (queues s) = (w, qs) \<Longrightarrow>
    repl_step L K Q a s (s\<lparr>queues := update_worker a (snd (syncTo (op_codec Q) io ok n w)) qs\<rparr>)"

subsection \<open>What is queued is what is missing\<close>

definition alone :: "cnode \<Rightarrow> bool" where
  "alone n \<longleftrightarrow> (\<not> enabled (mgr n) \<or> \<not> has_raft (mgr n)) \<and> localWriteHook n"

definition op_carried :: "syncOp \<Rightarrow> bool" where
  "op_carried s \<longleftrightarrow> (\<exists>x. toOp s = Inr x) \<and> length (Path s) \<le> maxValue \<and> length (Body s) \<le> maxValue"

definition repl_inv :: "libs \<Rightarrow> queue_world \<Rightarrow> bytes \<Rightarrow> replication \<Rightarrow> bool" where
  "repl_inv L Q a s \<longleftrightarrow>
     alone (near s) \<and> store_ok (db_of (near s)) \<and> store_ok (far s) \<and>
     a \<in> set (peer_addrs (queues s)) \<and> distinct (peer_addrs (queues s)) \<and>
     list_all op_carried (queued_for Q a (queues s)) \<and>
     document (db_of (near s)) = fold (doc_sync L) (queued_for Q a (queues s)) (document (far s))"

lemma write_result:
  assumes "alone n" "store_ok (db_of n)" and "do_write L K X w n = (err, n')"
  shows "alone n' \<and> store_ok (db_of n') \<and>
    (if err = None
     then \<exists>m. hooked n' = hooked n @ [m] \<and> write_op m = Some (queued_op w)
     else hooked n' = hooked n \<and> document (db_of n') = document (db_of n))"
proof (cases w)
  case (CSet k raw)
  then show ?thesis
    using assms SetRaw_ok [OF assms(2), of L k raw] SetRaw_failed [of L k raw "db_of n"]
    by (cases "SetRaw L k raw (db_of n)")
      (auto simp: do_write_def ApplySetRaw_def alone_def db_result_def call_hook_def queued_op_def write_op_def
        no_write_def Let_def split: option.splits)
next
  case (CDel k)
  then show ?thesis
    using assms Del_ok [OF assms(2), of k]
    by (cases "Del k (db_of n)")
      (auto simp: do_write_def ApplyDelete_def apply_command_def applyLocal_def alone_def db_result_def call_hook_def
        queued_op_def write_op_def no_write_def no_command_def notifyLocalWrite_def Del_def Let_def split: option.splits)
next
  case (CClone fk tk)
  then show ?thesis
    using assms Clone_ok [OF assms(2), of L fk tk]
    by (cases "Clone L fk tk (db_of n)")
      (auto simp: do_write_def ApplyClone_def apply_command_def applyLocal_def alone_def db_result_def call_hook_def
        queued_op_def write_op_def no_write_def no_command_def notifyLocalWrite_def Clone_def Let_def
        split: option.splits prod.splits)
qed

lemma write_document:
  assumes "alone n" "store_ok (db_of n)" "write_fits w" and "do_write L K X w n = (None, n')"
  shows "document (db_of n') = doc_sync L (queued_op w) (document (db_of n))"
proof (cases "checkWritable (db_of n)")
  case (Some e)
  then show ?thesis
    using assms(1,4) refused_writes [OF Some]
    by (cases w) (auto simp: do_write_def ApplySetRaw_def ApplyDelete_def ApplyClone_def apply_command_def
        applyLocal_def alone_def db_result_def no_command_def Let_def)
next
  case None
  note doc = SetRaw_writable [OF assms(2) None] Del_writable [OF assms(2) None] Clone_writable [OF assms(2) None]
  have snd_doc: "document (snd r) = snd d" if "map_prod id document r = d" for r :: "db_error option \<times> store" and d
    using that by (metis snd_map_prod)
  show ?thesis
  proof (cases w)
    case (CSet k raw)
    then show ?thesis
      using assms(1,4) snd_doc [OF doc(1), of L k raw]
      by (cases "SetRaw L k raw (db_of n)")
        (auto simp: do_write_def ApplySetRaw_def alone_def db_result_def call_hook_def queued_op_def
          doc_sync_def toOp_set doc_op_def no_op_def Let_def split: option.splits)
  next
    case (CDel k)
    then show ?thesis
      using assms(1,4) snd_doc [OF doc(2), of k]
      by (cases "Del k (db_of n)")
        (auto simp: do_write_def ApplyDelete_def apply_command_def applyLocal_def alone_def db_result_def call_hook_def
          queued_op_def doc_sync_def toOp_del doc_op_def no_op_def no_command_def notifyLocalWrite_def Let_def
          split: option.splits)
  next
    case (CClone fk tk)
    then show ?thesis
      using assms(1,3,4) snd_doc [OF doc(3), of L fk tk]
      by (cases "Clone L fk tk (db_of n)")
        (auto simp: do_write_def ApplyClone_def apply_command_def applyLocal_def alone_def db_result_def call_hook_def
          queued_op_def doc_sync_def toOp_clone doc_op_def no_op_def no_command_def notifyLocalWrite_def write_fits_def
          Let_def split: option.splits)
  qed
qed

lemma queued_op_carried: "write_fits w \<Longrightarrow> op_carried (queued_op w)"
  by (cases w) (simp_all add: write_fits_def op_carried_def queued_op_def toOp_set toOp_del toOp_clone)

lemma dispatch_queue_addrs: "peer_addrs (snd (dispatch_queue Q x addrs s)) = peer_addrs s"
proof (induction addrs arbitrary: s)
  case (Cons c addrs)
  obtain w s1 where w: "workerFor Q c s = (w, s1)" by fastforce
  obtain r w' where e: "enqueue (op_codec Q) (write_io Q c) x w = (r, w')" by fastforce
  obtain qs1 s3 where d: "dispatch_queue Q x addrs (s1\<lparr>workers := AList.update c w' (workers s1)\<rparr>) = (qs1, s3)"
    by fastforce
  then show ?case
    using Cons.IH [of "s1\<lparr>workers := AList.update c w' (workers s1)\<rparr>"] workerFor_keeps(4) [of Q c s] w e by simp
qed simp

lemma dispatch_sync_addrs: "peer_addrs (dispatch_sync Q qs s) = peer_addrs s"
  by (induction Q qs s rule: dispatch_sync.induct) (simp_all split: option.split)

lemma SyncWrite_addrs: "peer_addrs (SyncWrite Q m s) = peer_addrs s"
  using dispatch_queue_addrs [of Q _ "peer_addrs s" s]
  by (auto simp: SyncWrite_def dispatch_def dispatch_sync_addrs split: option.split prod.split) (metis snd_conv)+

lemma SyncWrite_queued:
  assumes "write_op m = Some x" "encode (op_codec Q) x = Some b" "distinct (peer_addrs s)" "a \<in> set (peer_addrs s)"
  shows "queued_for Q a (SyncWrite Q m s) = queued_for Q a s @ [x]"
proof -
  obtain qs s' where d: "dispatch_queue Q x (peer_addrs s) s = (qs, s')" by fastforce
  show ?thesis
    using dispatch_queue_pending [OF assms(2,3) d, of a] assms(1,4) d
    by (simp add: SyncWrite_def dispatch_def dispatch_sync_pending)
qed

lemma client_keeps:
  assumes "repl_inv L Q a s" and "\<And>x. \<exists>b. encode (op_codec Q) x = Some b"
    and "write_fits w" and "do_write L K X w (near s) = (err, n')"
  shows "repl_inv L Q a (s\<lparr>near := n', queues := sync_writes Q (near s) n' (queues s)\<rparr>)"
proof -
  note inv = assms(1) [unfolded repl_inv_def]
  have res: "alone n' \<and> store_ok (db_of n') \<and>
    (if err = None then \<exists>m. hooked n' = hooked (near s) @ [m] \<and> write_op m = Some (queued_op w)
     else hooked n' = hooked (near s) \<and> document (db_of n') = document (db_of (near s)))"
    using inv by (intro write_result [OF _ _ assms(4)]) simp_all
  show ?thesis
  proof (cases err)
    case (Some e)
    then have "sync_writes Q (near s) n' (queues s) = queues s" using res by (simp add: sync_writes_def)
    then show ?thesis using inv res Some by (simp add: repl_inv_def)
  next
    case None
    then obtain m where m: "hooked n' = hooked (near s) @ [m]" "write_op m = Some (queued_op w)" using res by auto
    obtain b where b: "encode (op_codec Q) (queued_op w) = Some b" using assms(2) by blast
    have q: "sync_writes Q (near s) n' (queues s) = SyncWrite Q m (queues s)" by (simp add: sync_writes_def m)
    have "document (db_of n') = doc_sync L (queued_op w) (document (db_of (near s)))"
      using inv assms(3,4) None by (intro write_document) simp_all
    then show ?thesis
      using inv res q SyncWrite_queued [OF m(2) b, of "queues s" a] queued_op_carried [OF assms(3)]
      by (simp add: repl_inv_def SyncWrite_addrs)
  qed
qed

lemma run_batch_document:
  assumes "\<And>i st. store_ok st \<Longrightarrow> store_ok (env i st) \<and> document (env i st) = document st"
  shows "store_ok st \<Longrightarrow> Some ErrWritesRefused \<notin> set (batch_errors L env i xs st) \<Longrightarrow>
    store_ok (run_batch L env i xs st) \<and>
    document (run_batch L env i xs st) = fold (\<lambda>x d. snd (doc_op L x d)) xs (document st)"
proof (induction xs arbitrary: i st)
  case (Cons x xs)
  obtain err st1 where op: "applyOp L x (env i st) = (err, st1)" by fastforce
  then have "err \<noteq> Some ErrWritesRefused" "Some ErrWritesRefused \<notin> set (batch_errors L env (Suc i) xs st1)"
    using Cons.prems(2) by auto
  moreover have "store_ok st1 \<and> document st1 = snd (doc_op L x (document st))"
    using applyOp_document [OF _ op] assms [OF Cons.prems(1), of i] calculation(1) by simp
  ultimately show ?case using Cons.IH [of st1 "Suc i"] op by simp
qed simp

lemma batch_end_document:
  assumes env: "\<And>i st. store_ok st \<Longrightarrow> store_ok (env i st) \<and> document (env i st) = document st"
    and "store_ok st" and "applyBatch L msg late env ops st = (res, st')"
  shows "store_ok st' \<and>
    document st' = fold (\<lambda>x d. snd (doc_op L x d)) (take (applied_ops res) ops) (document st)"
proof -
  let ?n = "applied_ops res"
  let ?mid = "run_batch L env 0 (take ?n ops) st"
  note runs = applyBatch_runs [OF assms(3)]
  have mid: "store_ok ?mid" "document ?mid = fold (\<lambda>x d. snd (doc_op L x d)) (take ?n ops) (document st)"
    using runs run_batch_document [OF env assms(2), where L = L and i = 0 and xs = "take ?n ops"] by (simp_all add: batch_errors_take)
  have "st' = ?mid \<or> applyOp L (ops ! ?n) (env ?n ?mid) = (Some ErrWritesRefused, st')"
    using runs by (auto simp: batch_end_def Let_def)
  then show ?thesis
    using mid env [OF mid(1)] applyOp_document [of "env ?n ?mid" L "ops ! ?n" "Some ErrWritesRefused" st'] by auto
qed

lemma fold_queued:
  "map Inr xs = map toOp ss \<Longrightarrow> fold (\<lambda>x d. snd (doc_op L x d)) xs d = fold (doc_sync L) ss d"
proof (induction ss arbitrary: xs d)
  case (Cons s ss)
  then obtain x xs' where "xs = x # xs'" "toOp s = Inr x" "map Inr xs' = map toOp ss" by (cases xs) auto
  then show ?case using Cons.IH by (simp add: doc_sync_def)
qed simp

lemma round_keeps:
  assumes inv: "repl_inv L Q a s" and w: "workerFor Q a (queues s) = (w, qs)" "pending w \<noteq> []" and "quiet S"
    and sd: "send False True d h (peer_answer L S (far s)) (peekBatch w) = (n, conn, http)"
  shows "repl_inv L Q a
      (s\<lparr>queues := update_worker a (snd (ackN (op_codec Q) io n w)) qs,
         far := peer_left L S (far s) (batch_request (convert_ops (peekBatch w)))\<rparr>)"
proof -
  let ?ops = "convert_ops (peekBatch w)" and ?b = "peekBatch w"
  note I = inv [unfolded repl_inv_def]
  have pend: "queued_for Q a (queues s) = pending w" using w(1) by (simp add: queued_for_def)
  have S: "length (err_text S e) \<le> maxValue" "mset (map_order S xs) = mset xs"
    "store_ok st \<Longrightarrow> store_ok (others S i st) \<and> document (others S i st) = document st" for e xs i st
    using assms(4) by (auto simp: quiet_def)
  have carried: "\<forall>s \<in> set (pending w). (\<exists>x. toOp s = Inr x) \<and> length (Path s) \<le> maxValue \<and> length (Body s) \<le> maxValue"
    using I by (simp add: pend list_all_iff op_carried_def)
  obtain res st' where ab: "applyBatch L (err_text S) (late_at S) (others S) ?ops (far s) = (res, st')" by fastforce
  have r: "n = applied_ops res" "pending (snd (ackN (op_codec Q) io n w)) = drop n (pending w)"
    "\<exists>rest. serve_request L S (batch_request ?ops) (far s) = Inr (rest, [], st')"
    using round_delivers [OF carried w(2) S(1,2) peer_answer_def ab sd] by blast+
  have left: "peer_left L S (far s) (batch_request ?ops) = st'" using r(3) by (auto simp: peer_left_def)
  have b: "take (length ?b) (pending w) = ?b" using peek_front [of w] by blast
  then have conv: "map Inr ?ops = map toOp ?b"
    using carried by (intro convert_all) (metis in_set_takeD)
  then have len: "length ?ops = length ?b" by (metis length_map)
  have n: "n \<le> length ?b" using applyBatch_runs [OF ab] r(1) len by simp
  then have front: "take n ?b = take n (pending w)" using b by (metis min.absorb1 take_take)
  have "map Inr (take n ?ops) = map toOp (take n (pending w))"
    using conv front by (metis take_map)
  then have doc: "store_ok st' \<and> document st' = fold (doc_sync L) (take n (pending w)) (document (far s))"
    using batch_end_document [OF S(3) _ ab] I fold_queued [of "take n ?ops" "take n (pending w)" L "document (far s)"]
    by (simp add: r(1))
  have keep: "peer_addrs qs = peer_addrs (queues s)" using workerFor_keeps(4) [of Q a "queues s"] w(1) by simp
  have q: "queued_for Q a (update_worker a (snd (ackN (op_codec Q) io n w)) qs) = drop n (pending w)"
    using queued_update [where Q = Q and b = a and s = qs and a = a] r(2) by (simp add: update_worker_def)
  have all: "fold (doc_sync L) (drop n (pending w)) (document st') = fold (doc_sync L) (pending w) (document (far s))"
    using doc by (metis append_take_drop_id comp_apply fold_append)
  have "list_all op_carried (drop n (pending w))"
    using I by (simp add: pend list_all_iff) (meson in_set_dropD)
  then show ?thesis
    using I doc all pend keep by (simp add: repl_inv_def left q) (simp add: update_worker_def)
qed

lemma step_keeps:
  assumes "\<And>x. \<exists>b. encode (op_codec Q) x = Some b"
  shows "repl_step L K Q a s s' \<Longrightarrow> repl_inv L Q a s \<Longrightarrow> repl_inv L Q a s'"
proof (induction rule: repl_step.induct)
  case (client w s err n')
  then show ?case using client_keeps [OF _ assms] by blast
next
  case (round s w qs S d h n conn http io)
  then show ?case using round_keeps by blast
next
  case (near_other st s)
  then show ?case by (simp add: repl_inv_def alone_def)
next
  case (far_other st s)
  then show ?case by (simp add: repl_inv_def)
next
  case (queue_fsync s w qs io ok n)
  have "peer_addrs qs = peer_addrs (queues s)" using workerFor_keeps(4) [of Q a "queues s"] queue_fsync(1) by simp
  moreover have "queued_for Q a (update_worker a (snd (syncTo (op_codec Q) io ok n w)) qs) = queued_for Q a (queues s)"
    using queue_fsync(1) queued_update [where Q = Q and b = a and s = qs and a = a]
    by (simp add: update_worker_def syncTo_pending) (simp add: queued_for_def)
  ultimately show ?case using queue_fsync(2) by (simp add: repl_inv_def) (simp add: update_worker_def)
qed


text \<open>A write at a node without Raft, and the round that delivers it.\<close>

definition demo_start :: replication where
  "demo_start = \<lparr>near = \<lparr>mgr = no_manager, db_of = init_store, localWriteHook = True, hooked = []\<rparr>,
     queues = new_peers\<lparr>peer_addrs := [''b:1'']\<rparr>, far = init_store\<rparr>"

definition demo_node :: cnode where
  "demo_node = snd (do_write plain_libs cluster_codec (sample_outside (\<lambda>_ _. \<lparr>write_error = None, arrived = [], ended = NetEOF\<rparr>))
     (CSet ''k'' ''true'') (near demo_start))"

definition demo_written :: replication where
  "demo_written = demo_start\<lparr>near := demo_node, queues := sync_writes sample_world (near demo_start) demo_node (queues demo_start)\<rparr>"

definition demo_worker :: worker where
  "demo_worker = fst (workerFor sample_world ''b:1'' (queues demo_written))"

definition demo_delivered :: replication where
  "demo_delivered = demo_written\<lparr>
     queues := update_worker ''b:1'' (snd (ackN sample_codec good_io
         (fst (send False True Dialled HttpFailed (peer_answer plain_libs plain_surroundings (far demo_written)) (peekBatch demo_worker)))
         demo_worker)) (snd (workerFor sample_world ''b:1'' (queues demo_written))),
     far := peer_left plain_libs plain_surroundings (far demo_written) (batch_request (convert_ops (peekBatch demo_worker)))\<rparr>"

lemma demo_hooked:
  "hooked demo_node = [no_write\<lparr>wOp := ''set'', wKey := ''k'', wRaw := ''true''\<rparr>]"
  by code_simp

lemma demo_queued_start: "queued_for sample_world ''b:1'' (queues demo_start) = []"
  by (simp add: demo_start_def queued_for_def workerFor_def sample_world_def new_peers_def sample_load
      new_worker_def Let_def)

lemma demo_pending: "pending demo_worker = [SyncSetRaw ''k'' ''true'']"
proof -
  let ?m = "no_write\<lparr>wOp := ''set'', wKey := ''k'', wRaw := ''true''\<rparr>"
  have "write_op ?m = Some (SyncSetRaw ''k'' ''true'')" by (simp add: write_op_def)
  moreover have "encode (op_codec sample_world) (SyncSetRaw ''k'' ''true'') = Some (''{'' @ Path (SyncSetRaw ''k'' ''true'') @ ''}'')"
    by (simp add: sample_world_def sample_codec_def)
  ultimately have "queued_for sample_world ''b:1'' (SyncWrite sample_world ?m (queues demo_start)) = [SyncSetRaw ''k'' ''true'']"
    using SyncWrite_queued [of ?m _ sample_world _ "queues demo_start" "''b:1''"] demo_queued_start
    by (simp add: demo_start_def)
  then show ?thesis
    by (simp add: demo_worker_def queued_for_def demo_written_def sync_writes_def demo_hooked) (simp add: demo_start_def)
qed

lemma demo_document: "document (db_of demo_node) = DObj [(''k'', ''\"k\"'', DLeaf ''true'')]"
  by code_simp

lemma demo_batch:
  "applied_ops (fst (applyBatch plain_libs (err_text plain_surroundings) (late_at plain_surroundings)
     (others plain_surroundings) (convert_ops [SyncSetRaw ''k'' ''true'']) init_store)) = 1"
  by code_simp

lemma demo_peek: "peekBatch demo_worker = [SyncSetRaw ''k'' ''true'']"
  by (simp add: peekBatch_def demo_pending maxBatchOps_def maxBatchBytes_def SyncSetRaw_def)

lemma demo_encode: "\<exists>b. encode (op_codec sample_world) x = Some b"
  by (simp add: sample_world_def sample_codec_def)

lemma demo_quiet: "quiet plain_surroundings"
  by (simp add: quiet_def plain_surroundings_def maxValue_def)

lemma demo_run: "(repl_step plain_libs cluster_codec sample_world ''b:1'')\<^sup>*\<^sup>* demo_start demo_delivered"
proof -
  let ?X = "sample_outside (\<lambda>_ _. \<lparr>write_error = None, arrived = [], ended = NetEOF\<rparr>)"
  obtain err n' where w: "do_write plain_libs cluster_codec ?X (CSet ''k'' ''true'') (near demo_start) = (err, n')"
    by fastforce
  then have "n' = demo_node" by (simp add: demo_node_def)
  moreover have "trim_space ''true'' = ''true''" by code_simp
  then have "write_fits (CSet ''k'' ''true'')"
    by (simp add: write_fits_def queued_op_def SyncSetRaw_def maxValue_def)
  ultimately have "repl_step plain_libs cluster_codec sample_world ''b:1'' demo_start demo_written"
    using repl_step.client [OF _ w, of sample_world "''b:1''"] by (simp add: demo_written_def)
  moreover obtain n conn http where sd: "send False True Dialled HttpFailed
      (peer_answer plain_libs plain_surroundings (far demo_written)) (peekBatch demo_worker) = (n, conn, http)"
    by (metis prod_cases3)
  then have "repl_step plain_libs cluster_codec sample_world ''b:1'' demo_written demo_delivered"
    using repl_step.round [OF prod.collapse [symmetric] _ demo_quiet, where Q = sample_world and a = "''b:1''" and
        s = demo_written and L = plain_libs and K = cluster_codec and io = good_io, folded demo_worker_def, OF _ sd] demo_pending
    by (simp add: demo_delivered_def sample_world_def)
  ultimately show ?thesis by (meson converse_rtranclp_into_rtranclp rtranclp.rtrancl_refl)
qed

lemma demo_empty: "queued_for sample_world ''b:1'' (queues demo_delivered) = []"
proof -
  let ?P = "peer_answer plain_libs plain_surroundings (far demo_written)"
  obtain n conn http where sd: "send False True Dialled HttpFailed ?P (peekBatch demo_worker) = (n, conn, http)"
    by (metis prod_cases3)
  obtain res st' where ab: "applyBatch plain_libs (err_text plain_surroundings) (late_at plain_surroundings)
      (others plain_surroundings) (convert_ops (peekBatch demo_worker)) (far demo_written) = (res, st')" by fastforce
  have far: "far demo_written = init_store" by (simp add: demo_written_def demo_start_def)
  have "\<forall>s \<in> set (pending demo_worker). (\<exists>x. toOp s = Inr x) \<and> length (Path s) \<le> maxValue \<and> length (Body s) \<le> maxValue"
    by (simp add: demo_pending toOp_set) (simp add: SyncSetRaw_def maxValue_def)
  moreover have "pending demo_worker \<noteq> []" by (simp add: demo_pending)
  moreover have "\<And>e. length (err_text plain_surroundings e) \<le> maxValue"
    "\<And>xs. mset (map_order plain_surroundings xs) = mset xs" using demo_quiet by (simp_all add: quiet_def)
  ultimately have "n = applied_ops res \<and> pending (snd (ackN sample_codec good_io n demo_worker)) = drop n (pending demo_worker)"
    using round_delivers [OF _ _ _ _ peer_answer_def ab sd] by metis
  moreover have "applied_ops res = 1" using ab demo_batch by (simp add: demo_peek far)
  ultimately have "n = 1" "pending (snd (ackN sample_codec good_io 1 demo_worker)) = []"
    by (auto simp: demo_pending)
  then show ?thesis using sd by (simp add: demo_delivered_def update_worker_def queued_update)
qed

lemma near_delivered: "near demo_delivered = demo_node"
  by (simp add: demo_delivered_def demo_written_def)


end
