(* ===== verification/Bench.thy ===== *)
theory Bench
  imports TcpLines
begin

text \<open>
  \<open>cmd/simpleconf-bench/main.go\<close>, the load generator: workers that send one command of the
  line protocol over and over and wait for each reply, and the figures it reports. A worker's
  connection has the buffers of theory \<open>TcpApi\<close>, seen from the client.
\<close>

subsection \<open>Commands\<close>

definition write_flush :: "(nat \<Rightarrow> bool) \<Rightarrow> bytes \<Rightarrow> tconn \<Rightarrow> bool \<times> tconn" where
  "write_flush ok s c =
     (let c1 = write_bytes ok s c in
      if write_failed c1 then (False, c1)
      else (let c2 = Flush ok c1 in (\<not> write_failed c2, c2)))"

definition read_reply :: "tconn \<Rightarrow> bool \<times> tconn" where
  "read_reply c =
     (case read_bytes (unread c) (incoming c) of
        (r, b, i, es) \<Rightarrow> (r \<noteq> None, c\<lparr>unread := b, incoming := i, trace := trace c @ es\<rparr>))"

definition bench_set :: "(nat \<Rightarrow> bool) \<Rightarrow> tconn \<Rightarrow> bool \<times> tconn" where
  "bench_set ok c =
     (case write_flush ok (''+bench'' @ [nl] @ [dquote] @ ''mark'' @ [dquote] @ [nl]) c of
        (sent, c1) \<Rightarrow> if \<not> sent then (False, c1) else read_reply c1)"

definition bench_get :: "(nat \<Rightarrow> bool) \<Rightarrow> tconn \<Rightarrow> bool \<times> tconn" where
  "bench_get ok c =
     (case write_flush ok (''='' @ [nl]) c of
        (sent, c1) \<Rightarrow>
          if \<not> sent then (False, c1)
          else (case read_reply c1 of (got, c2) \<Rightarrow> if \<not> got then (False, c2) else read_reply c2))"

definition bench_clone :: "(nat \<Rightarrow> bool) \<Rightarrow> tconn \<Rightarrow> bool \<times> tconn" where
  "bench_clone ok c =
     (case write_flush ok (''<bench'' @ [nl] @ ''>mark'' @ [nl]) c of
        (sent, c1) \<Rightarrow> if \<not> sent then (False, c1) else read_reply c1)"

definition bench_del :: "(nat \<Rightarrow> bool) \<Rightarrow> tconn \<Rightarrow> bool \<times> tconn" where
  "bench_del ok c =
     (case write_flush ok (''-bench'' @ [nl]) c of
        (sent, c1) \<Rightarrow> if \<not> sent then (False, c1) else read_reply c1)"

definition bench_ops :: "bytes \<rightharpoonup> ((nat \<Rightarrow> bool) \<Rightarrow> tconn \<Rightarrow> bool \<times> tconn)" where
  "bench_ops = [''set'' \<mapsto> bench_set, ''get'' \<mapsto> bench_get, ''clone'' \<mapsto> bench_clone, ''del'' \<mapsto> bench_del]"

subsection \<open>Figures\<close>

text \<open>Latencies in nanoseconds.\<close>

record bench_stats =
  total :: nat
  connected :: nat
  failed :: nat
  maxlatency :: int
  minlatency :: int
  totallatency :: int

definition no_stats :: bench_stats where
  "no_stats = \<lparr>total = 0, connected = 0, failed = 0, maxlatency = 0, minlatency = 10 ^ 9, totallatency = 0\<rparr>"

definition measured :: "int \<Rightarrow> bench_stats \<Rightarrow> bench_stats" where
  "measured n s =
     (let s1 = s\<lparr>total := total s + 1\<rparr>;
          s2 = (if maxlatency s1 < n then s1\<lparr>maxlatency := n\<rparr>
                else if n < minlatency s1 then s1\<lparr>minlatency := n\<rparr> else s1) in
      s2\<lparr>totallatency := totallatency s2 + n\<rparr>)"

subsection \<open>Workers\<close>

text \<open>
  \<open>conn\<close>, one goroutine for each connection: dialing, and what it does with a job that took
  \<open>n\<close> nanoseconds. A worker that failed has returned and takes no more jobs.
\<close>

definition conn_dial :: "bool \<Rightarrow> bench_stats \<Rightarrow> bench_stats" where
  "conn_dial dialed s = (if \<not> dialed then s\<lparr>failed := failed s + 1\<rparr> else s\<lparr>connected := connected s + 1\<rparr>)"

definition conn_job ::
  "((nat \<Rightarrow> bool) \<Rightarrow> tconn \<Rightarrow> bool \<times> tconn) \<Rightarrow> (nat \<Rightarrow> bool) \<Rightarrow> int \<Rightarrow> tconn \<Rightarrow> bench_stats \<Rightarrow> tconn option \<times> bench_stats" where
  "conn_job op ok n c s =
     (case op ok c of
        (success, c1) \<Rightarrow> if \<not> success then (None, s\<lparr>failed := failed s + 1\<rparr>) else (Some c1, measured n s))"

text \<open>
  The jobs in the order they are taken, each with its worker and its latency. Each worker is what
  is left of its connection.
\<close>

fun run_jobs ::
  "((nat \<Rightarrow> bool) \<Rightarrow> tconn \<Rightarrow> bool \<times> tconn) \<Rightarrow> (nat \<Rightarrow> nat \<Rightarrow> bool) \<Rightarrow> (nat \<times> int) list \<Rightarrow> (nat \<rightharpoonup> tconn) \<times> bench_stats \<Rightarrow>
    (nat \<rightharpoonup> tconn) \<times> bench_stats" where
  "run_jobs op ok [] r = r"
| "run_jobs op ok ((w, n) # js) (ws, s) =
     (case ws w of
        None \<Rightarrow> run_jobs op ok js (ws, s)
      | Some c \<Rightarrow> (case conn_job op (ok w) n c s of (r, s') \<Rightarrow> run_jobs op ok js (ws(w := r), s')))"

record bench_report =
  connections :: nat
  avg_reported :: int
  min_reported :: int
  max_reported :: int
  requests :: nat

datatype bench_result = UnknownOpName | CannotConnect nat | Report bench_report

text \<open>\<open>main\<close>: \<open>dials i\<close> is what becomes of the \<open>i\<close>th connection, its replies when it is made.\<close>

definition bench_main ::
  "bytes \<Rightarrow> bytes list option list \<Rightarrow> (nat \<Rightarrow> nat \<Rightarrow> bool) \<Rightarrow> (nat \<times> int) list \<Rightarrow> bench_result" where
  "bench_main opName dials ok jobs =
     (case bench_ops opName of
        None \<Rightarrow> UnknownOpName
      | Some op \<Rightarrow>
          (let s = fold (\<lambda>d. conn_dial (d \<noteq> None)) dials no_stats;
               ws = (\<lambda>i. if i < length dials then map_option new_tconn (dials ! i) else None) in
           if connected s = 0 then CannotConnect (failed s)
           else
             (case run_jobs op ok jobs (ws, s) of
                (_, s') \<Rightarrow>
                  Report \<lparr>connections = connected s,
                    avg_reported = (if 0 < total s' then totallatency s' div int (total s') else 0),
                    min_reported = minlatency s', max_reported = maxlatency s', requests = total s'\<rparr>)))"

subsection \<open>What a worker reads\<close>

text \<open>What each command is, and how many lines it waits for.\<close>

definition bench_cmd :: "bytes \<Rightarrow> tcp_cmd" where
  "bench_cmd name =
     (if name = ''set'' then TSet ''bench'' (dquote # ''mark'' @ [dquote])
      else if name = ''get'' then TGet []
      else if name = ''clone'' then TClone ''bench'' ''mark''
      else TDel ''bench'')"

definition bench_lines :: "bytes \<Rightarrow> nat" where
  "bench_lines name = (if name = ''get'' then 2 else 1)"

definition lines_in :: "nat \<Rightarrow> bytes \<Rightarrow> bool" where
  "lines_in k r \<longleftrightarrow> (\<exists>ls. length ls = k \<and> list_all one_line ls \<and> r = concat (map (\<lambda>l. l @ [nl]) ls))"

lemma lines_in_1: "lines_in (Suc 0) r \<longleftrightarrow> (\<exists>l. one_line l \<and> r = l @ [nl])"
  by (auto simp: lines_in_def length_Suc_conv)

lemma lines_in_2: "lines_in 2 r \<longleftrightarrow> (\<exists>l m. one_line l \<and> one_line m \<and> r = l @ [nl] @ m @ [nl])"
proof
  assume "lines_in 2 r"
  then obtain ls where ls: "length ls = 2" "list_all one_line ls" "r = concat (map (\<lambda>l. l @ [nl]) ls)"
    by (auto simp: lines_in_def)
  then obtain l m where "ls = [l, m]" by (auto simp: numeral_2_eq_2 length_Suc_conv)
  then show "\<exists>l m. one_line l \<and> one_line m \<and> r = l @ [nl] @ m @ [nl]" using ls(2,3) by auto
next
  assume "\<exists>l m. one_line l \<and> one_line m \<and> r = l @ [nl] @ m @ [nl]"
  then obtain l m where "one_line l" "one_line m" "r = l @ [nl] @ m @ [nl]" by blast
  then show "lines_in 2 r" unfolding lines_in_def by (intro exI [of _ "[l, m]"]) simp
qed

text \<open>A client between two commands: all is sent, and so much is still to arrive.\<close>

definition between :: "bytes \<Rightarrow> bytes \<Rightarrow> tconn \<Rightarrow> bool" where
  "between sent rest c \<longleftrightarrow> concat (sends (trace c)) = sent \<and> stream c = rest \<and> pending c = [] \<and> \<not> write_failed c"

lemma sends_reply: "sends (Reply b # es) = sends es"
  by (simp add: sends_def)

lemma write_flush_works:
  assumes "between sent rest c" "s \<noteq> []" "length s \<le> bufSize"
  shows "\<exists>c'. write_flush works s c = (True, c') \<and> between (sent @ s) rest c'"
  using assms
  by (auto simp: write_flush_def write_bytes_def sends_reply drain.simps [of works s] Flush_def send_works between_def stream_def Let_def)

lemma read_reply_works:
  assumes "between sent (l @ nl # rest) c" "one_line l"
  shows "\<exists>c'. read_reply c = (True, c') \<and> between sent rest c'"
proof -
  have "unread c @ concat (incoming c) = l @ nl # rest" using assms(1) by (simp add: between_def stream_def)
  then obtain b i es where r: "read_bytes (unread c) (incoming c) = (Some (l @ [nl]), b, i, es)" "b @ concat i = rest"
    using read_bytes_line assms(2) unfolding one_line_def by blast
  have "sends es = []" using read_bytes_recvs [OF r(1)] by (induction es) auto
  then show ?thesis using r assms(1) by (auto simp: read_reply_def between_def stream_def)
qed

lemma op_in_step:
  assumes "bench_ops name = Some op" and "lines_in (bench_lines name) r" and c: "between sent (r @ rest) c"
  shows "\<exists>c'. op works c = (True, c') \<and> between (sent @ tcp_text (bench_cmd name)) rest c'"
proof -
  have one: "\<exists>c'. (case write_flush works s c of (sent, c1) \<Rightarrow> if \<not> sent then (False, c1) else read_reply c1) = (True, c') \<and>
      between (sent @ s) rest c'" if s: "lines_in (Suc 0) r" "s \<noteq> []" "length s \<le> bufSize" for s
  proof -
    obtain l where l: "one_line l" "r = l @ [nl]" using s(1) unfolding lines_in_1 by blast
    obtain c1 where c1: "write_flush works s c = (True, c1)" "between (sent @ s) (r @ rest) c1"
      using write_flush_works [OF c s(2,3)] by blast
    then show ?thesis using read_reply_works [of "sent @ s" l rest c1] l by simp
  qed
  have two: "\<exists>c'. bench_get works c = (True, c') \<and> between (sent @ ''='' @ [nl]) rest c'" if r: "lines_in 2 r"
  proof -
    obtain l m where l: "one_line l" "one_line m" "r = l @ [nl] @ m @ [nl]" using r unfolding lines_in_2 by blast
    obtain c1 where c1: "write_flush works (''='' @ [nl]) c = (True, c1)" "between (sent @ ''='' @ [nl]) (r @ rest) c1"
      using write_flush_works [OF c, of "''='' @ [nl]"] by (auto simp: bufSize_def)
    obtain c2 where c2: "read_reply c1 = (True, c2)" "between (sent @ ''='' @ [nl]) (m @ nl # rest) c2"
      using read_reply_works [of "sent @ ''='' @ [nl]" l "m @ nl # rest" c1] c1(2) l by auto
    obtain c3 where c3: "read_reply c2 = (True, c3)" "between (sent @ ''='' @ [nl]) rest c3"
      using read_reply_works [OF c2(2) l(2)] by blast
    have "bench_get works c = (True, c3)" using c1(1) c2(1) c3(1) by (simp add: bench_get_def)
    then show ?thesis using c3(2) by blast
  qed
  have "name = ''set'' \<and> op = bench_set \<or> name = ''get'' \<and> op = bench_get \<or>
      name = ''clone'' \<and> op = bench_clone \<or> name = ''del'' \<and> op = bench_del"
    using assms(1) by (auto simp: bench_ops_def split: if_splits)
  then show ?thesis
    using assms(2) one two
    by (elim disjE) (auto simp: bench_lines_def bench_cmd_def bench_set_def bench_clone_def bench_del_def bufSize_def)
qed

lemma jobs_in_step:
  assumes "bench_ops name = Some op"
  shows "list_all (lines_in (bench_lines name)) rs \<Longrightarrow> length rs = length js \<Longrightarrow> between sent (concat rs) c \<Longrightarrow>
    \<exists>c'. run_jobs op (\<lambda>_. works) (map (Pair w) js) (ws(w \<mapsto> c), s) = (ws(w \<mapsto> c'), fold measured js s) \<and>
      between (sent @ concat (replicate (length js) (tcp_text (bench_cmd name)))) [] c'"
proof (induction js arbitrary: rs sent c s)
  case Nil
  then show ?case by (intro exI [of _ c]) simp
next
  case (Cons j js)
  then obtain r rs' where rs: "rs = r # rs'" by (cases rs) auto
  have "lines_in (bench_lines name) r" "between sent (r @ concat rs') c" using Cons.prems rs by simp_all
  then obtain c1 where c1: "op works c = (True, c1)" "between (sent @ tcp_text (bench_cmd name)) (concat rs') c1"
    using op_in_step [OF assms] by blast
  have more: "list_all (lines_in (bench_lines name)) rs'" "length rs' = length js" using Cons.prems rs by simp_all
  obtain c' where c': "run_jobs op (\<lambda>_. works) (map (Pair w) js) (ws(w \<mapsto> c1), measured j s) =
      (ws(w \<mapsto> c'), fold measured js (measured j s))"
    "between ((sent @ tcp_text (bench_cmd name)) @ concat (replicate (length js) (tcp_text (bench_cmd name)))) [] c'"
    using Cons.IH [OF more c1(2)] by blast
  show ?case
  proof (intro exI conjI)
    show "run_jobs op (\<lambda>_. works) (map (Pair w) (j # js)) (ws(w \<mapsto> c), s) = (ws(w \<mapsto> c'), fold measured (j # js) s)"
      using c1(1) c'(1) by (simp add: conn_job_def)
    show "between (sent @ concat (replicate (length (j # js)) (tcp_text (bench_cmd name)))) [] c'"
      using c'(2) by simp
  qed
qed

lemma fold_measured: "total (fold measured js s) = total s + length js \<and> failed (fold measured js s) = failed s"
  by (induction js arbitrary: s) (simp_all add: measured_def Let_def)

subsection \<open>What the server replies\<close>

text \<open>What is kept of a node on its own, from one command to the next.\<close>

definition serving :: "cnode \<Rightarrow> bool" where
  "serving n \<longleftrightarrow> node_lines n \<and> snapshot_ok (db_of n)"

definition db_errors_one_line :: "cluster_libs \<Rightarrow> bool" where
  "db_errors_one_line K \<longleftrightarrow> (\<forall>e. one_line (errText K (DbError e)))"

lemma plus_ok_line: "lines_in (Suc 0) (result_line K None)"
  unfolding lines_in_1 by (intro exI [of _ "''+OK''"]) (simp add: result_line_def)

lemma db_error_line: "db_errors_one_line K \<Longrightarrow> lines_in (Suc 0) (result_line K (Some (DbError e)))"
  unfolding lines_in_1
  by (intro exI [of _ "''-ERR '' @ errText K (DbError e)"])
    (simp add: result_line_def AsNotLeader_def db_errors_one_line_def)

lemma answer_line:
  assumes "db_errors_one_line K" and "\<And>e. fst r = Some e \<Longrightarrow> \<exists>d. e = DbError d"
  shows "lines_in (Suc 0) (fst (answer K r))"
  using assms plus_ok_line [of K] db_error_line [OF assms(1)] by (cases "fst r") (auto simp: answer_def)

lemma raw_errors:
  "standalone n \<Longrightarrow> fst (ApplySetRaw L K X k raw n) = Some e \<Longrightarrow> \<exists>d. e = DbError d"
  by (cases "SetRaw L k raw (db_of n)")
    (auto simp: ApplySetRaw_def standalone_def db_result_def Let_def split: option.splits)

lemma local_errors:
  "standalone n \<Longrightarrow> cOp c \<in> {''del'', ''clone''} \<Longrightarrow> fst (apply_command L K X c n) = Some e \<Longrightarrow> \<exists>d. e = DbError d"
  by (cases "Del (cKey c) (db_of n)"; cases "Clone L (cFromKey c) (cToKey c) (db_of n)")
    (auto simp: apply_command_def applyLocal_def standalone_def db_result_def Let_def split: option.splits if_splits)

lemma applies_keep_snapshot:
  assumes "standalone n" "snapshot_ok (db_of n)"
  shows "snapshot_ok (db_of (snd (ApplySetRaw L K X k raw n)))" "snapshot_ok (db_of (snd (ApplyDelete L K X k n)))"
    "snapshot_ok (db_of (snd (ApplyClone L K X fk k n)))"
  using assms apply_raw_store [OF assms(1)] apply_local_store [OF assms(1)]
    snapshot_ok_SetRaw snapshot_ok_Del snapshot_ok_Clone
  by (simp_all add: ApplyDelete_def ApplyClone_def applyLocal_def no_command_def db_result_def)

lemma bench_effect:
  assumes P: "parser_keeps_lines (gjsonParse L)" "db_errors_one_line K" and n: "serving n" and op: "bench_ops name \<noteq> None"
  shows "lines_in (bench_lines name) (fst (tcp_effect L K X (bench_cmd name) n)) \<and>
    serving (snd (tcp_effect L K X (bench_cmd name) n))"
proof -
  have st: "standalone n" "node_lines n" "snapshot_ok (db_of n)" "store_ok (db_of n)"
    using n by (simp_all add: serving_def node_lines_def)
  have keys: "one_line ''bench''" "one_line ''mark''" by simp_all
  consider "name = ''set''" | "name = ''get''" | "name = ''clone''" | "name = ''del''"
    using op by (auto simp: bench_ops_def split: if_splits)
  then show ?thesis
  proof cases
    case 1
    let ?r = "ApplySetRaw L K X ''bench'' (trim_space ((dquote # ''mark'' @ [dquote]) @ [nl])) n"
    have "lines_in (Suc 0) (fst (answer K ?r))" by (rule answer_line [OF P(2) raw_errors [OF st(1)]])
    moreover have "serving (snd ?r)"
      using applies_keep_lines(1) [OF P(1) st(2) keys(1)] applies_keep_snapshot(1) [OF st(1,3)]
      by (simp add: serving_def)
    ultimately show ?thesis using 1 by (simp add: bench_lines_def bench_cmd_def answer_def)
  next
    case 2
    obtain v s where g: "Get L [] (db_of n) = (v, s)" by fastforce
    have v: "v = doc_text (document (db_of n))"
      using snapshot_text [OF st(3)] g by (auto simp: Get_def split: prod.splits)
    have "one_line v" unfolding v using st(2) by (intro doc_text_line) (simp add: node_lines_def store_lines_def)
    then have "lines_in 2 (''$'' @ show_nat (length v) @ [nl] @ v @ [nl])"
      unfolding lines_in_2 by (intro exI [of _ "''$'' @ show_nat (length v)"] exI [of _ v]) simp
    moreover have "serving (n\<lparr>db_of := s\<rparr>)"
      using get_lines [OF st(2) g] snapshot_ok_Get [OF st(3), of L "[]"] g by (simp add: serving_def)
    ultimately show ?thesis using 2 g by (simp add: bench_lines_def bench_cmd_def)
  next
    case 3
    let ?r = "ApplyClone L K X ''bench'' ''mark'' n"
    have "lines_in (Suc 0) (fst (answer K ?r))"
      by (rule answer_line [OF P(2)]) (use local_errors [OF st(1)] in \<open>force simp: ApplyClone_def no_command_def\<close>)
    moreover have "serving (snd ?r)"
      using applies_keep_lines(3) [OF P(1) st(2) keys(2)] applies_keep_snapshot(3) [OF st(1,3)]
      by (simp add: serving_def)
    ultimately show ?thesis using 3 by (simp add: bench_lines_def bench_cmd_def answer_def)
  next
    case 4
    let ?r = "ApplyDelete L K X ''bench'' n"
    have "lines_in (Suc 0) (fst (answer K ?r))"
      by (rule answer_line [OF P(2)]) (use local_errors [OF st(1)] in \<open>force simp: ApplyDelete_def no_command_def\<close>)
    moreover have "serving (snd ?r)"
      using applies_keep_lines(2) [OF P(1) st(2) keys(1)] applies_keep_snapshot(2) [OF st(1,3)]
      by (simp add: serving_def)
    ultimately show ?thesis using 4 by (simp add: bench_lines_def bench_cmd_def answer_def)
  qed
qed

lemma bench_session:
  assumes "parser_keeps_lines (gjsonParse L)" "db_errors_one_line K" "bench_ops name \<noteq> None"
  shows "serving n \<Longrightarrow>
    length (fst (tcp_session L K X i (replicate m (bench_cmd name)) n)) = m \<and>
    list_all (lines_in (bench_lines name)) (fst (tcp_session L K X i (replicate m (bench_cmd name)) n))"
proof (induction m arbitrary: i n)
  case (Suc m)
  obtain r n' where e: "tcp_effect L K (X i) (bench_cmd name) n = (r, n')" by fastforce
  have "lines_in (bench_lines name) r" "serving n'"
    using bench_effect [OF assms(1,2) Suc.prems assms(3), of "X i"] e by simp_all
  then show ?case using Suc.IH [of n' "Suc i"] e
    by (cases "tcp_session L K X (Suc i) (replicate m (bench_cmd name)) n'") simp
qed simp

lemma bench_cmd_ok: "tcp_ok (bench_cmd name)"
  by (simp add: bench_cmd_def line_key_def printable_def)


lemma tcp_sample_serving: "serving tcp_sample_node"
  using store_ok_init init_lines snapshot_ok_init
  by (simp add: serving_def node_lines_def standalone_def tcp_sample_node_def no_manager_def)


subsection \<open>The figures\<close>

text \<open>Requests, sum and maximum are those of the latencies.\<close>

lemma measured_figures:
  "totallatency (fold measured js s) = totallatency s + sum_list js \<and>
    maxlatency (fold measured js s) = fold max js (maxlatency s)"
  by (induction js arbitrary: s) (simp_all add: measured_def Let_def max_def)

text \<open>The minimum is not: a latency that is a new maximum is never compared with it, and so it
  depends on the order of the latencies.\<close>

lemma minimum_depends_on_order:
  "minlatency (fold measured [3, 5] no_stats) = 10 ^ 9 \<and> minlatency (fold measured [5, 3] no_stats) = 3"
  by (simp add: measured_def no_stats_def)

lemma main_report:
  assumes "bench_main name dials ok jobs = Report r"
  shows "connections r = length (filter (\<lambda>d. d \<noteq> None) dials) \<and> 0 < connections r"
proof -
  have dials: "connected (fold (\<lambda>d. conn_dial (d \<noteq> None)) ds s) = connected s + length (filter (\<lambda>d. d \<noteq> None) ds)" for ds s
    by (induction ds arbitrary: s) (auto simp: conn_dial_def)
  have "connected (fold (\<lambda>d. conn_dial (d \<noteq> None)) dials no_stats) = length (filter (\<lambda>d. d \<noteq> None) dials)"
    unfolding dials by (simp add: no_stats_def)
  then show ?thesis using assms
    by (auto simp: bench_main_def Let_def simp del: not_None_eq split: option.splits if_splits prod.splits)
qed

end
