(* ===== verification/Spec2Isabelle.thy ===== *)
theory Spec2Isabelle
  imports Answered FileStoreProps TcpLines TcpServer HttpApi Config Ports Converge Bench
begin

text \<open>
  simpleconf keeps one JSON document in memory and serves it over HTTP and over a line protocol.
  A write is applied to the tree of the document and queued for an append-only file, which a
  single goroutine writes; on a start the file is replayed. Nodes may share their writes in two
  ways: each keeps a queue for every peer and sends it (\<open>internal/peers\<close>), or all are members of
  a Raft group, forward writes to its leader and apply what the group agrees on
  (\<open>internal/cluster\<close>). This development models the program from the bytes of its files and
  connections upwards, and proves of it what its users rely on.

  The conventions. A Go \<open>string\<close> or \<open>[]byte\<close> is a list of characters. A struct is a
  \<open>record\<close>, named and ordered as in the code, an error a value of a \<open>datatype\<close>, \<open>nil\<close> is \<open>None\<close>.
  Package variables and receivers are passed explicitly. What a system call, a clock or another
  machine answers is an argument, so a theorem holds for every answer. What runs concurrently is a
  step relation or an explicit sequence of steps; an operation under its lock is one step.

  The document, \<open>internal/db/tree.go\<close>. \<open>TreeObj\<close>: \<open>treeObj\<close>, an object with parallel arrays and a
  hash index; the locale \<open>ordered_object\<close> says what callers rely on and is interpreted on it.
  \<open>Tree\<close>: paths, and the read, write and delete walks, over segments and over the path itself.
  \<open>TreeLaws\<close>: the two walks agree; the arrays and the index stay consistent. \<open>TreeSpec\<close>: the abstract
  document (type \<open>doc\<close>, functions \<open>spec_get\<close>, \<open>spec_set\<close>, \<open>spec_del\<close>) and that the tree refines it.
  \<open>GoText\<close>, \<open>GoJson\<close>, \<open>GoFloat\<close>: what is used of Go's \<open>strings\<close>, \<open>strconv\<close> and \<open>encoding/json\<close>;
  \<open>ParseFloat\<close> and the shortest decimal of a float are computed exactly on integers (1400 digits, the
  bound of \<open>shortest_from\<close>, write any double exactly). \<open>TreeText\<close>, \<open>TreeValues\<close>: \<open>appendTree\<close>, \<open>parseTree\<close>,
  canonical numbers, and that text and document determine each other. \<open>Lines\<close>: no text of a document
  holds a newline. \<open>TreeProps\<close>: the properties.

  The store, \<open>internal/db/db.go\<close>. \<open>Store\<close>: the package's variables and \<open>Set\<close>, \<open>SetRaw\<close>, \<open>Del\<close>,
  \<open>Clone\<close>, \<open>Get\<close>, \<open>Replace\<close>, \<open>Vacuum\<close>. \<open>StoreLaws\<close>: each refines the abstract document (locale
  \<open>document_machine\<close>, interpreted for replayed records in \<open>Durability\<close> and for Raft's state machine in
  \<open>ClusterLaws\<close>). \<open>Aof\<close>: the bytes of a record and \<open>replayAOF\<close>. \<open>Durability\<close>, \<open>LineProps\<close>,
  \<open>StoreProps\<close>: memory and log agree, a torn log is an earlier document, every record keeps to its
  lines. \<open>Race\<close>: writers that overlap, cut where the code lets go of \<open>configMu\<close> (\<open>race_step\<close>); log and
  memory agree if records that are in flight together may change places, and need not otherwise.
  \<open>Persist\<close>: the goroutine \<open>persist\<close> as the step relation \<open>pstep\<close>, with buffer, fsync policies,
  failing disks, refusal of writes, vacuum, backups and \<open>Init\<close>. \<open>PersistLaws\<close>, \<open>VacuumLaws\<close>,
  \<open>PersistProps\<close>: what is acknowledged is on disk, the file is a prefix of the log, a vacuum is atomic.
  \<open>Lifecycle\<close>: \<open>Close\<close> with the goroutine running beside it, and the next \<open>Init\<close>. \<open>Crash\<close>: clients, the
  goroutine, a power failure and the next start in one; what was acknowledged under \<open>always\<close> is found
  again, however often this happens. \<open>Answered\<close>: every write gets its answer on a disk that works.

  Peers, \<open>internal/wire\<close> and \<open>internal/peers\<close>. \<open>Wire\<close>: frames (a uvarint is at most 10 bytes) and
  \<open>Mux\<close>; the locales \<open>prefix_code\<close> and \<open>sequence_code\<close> say that an encoding can be read back, alone and in a
  row, and are interpreted for uvarints here and for queued operations in \<open>PeersProps\<close>. \<open>PeersProto\<close>:
  operations, batches, \<open>serveTCP\<close> and \<open>sendBatch\<close>; every round of \<open>serve_loop\<close> takes a byte at least, so
  its fuel, the number of bytes, is enough. \<open>PeersQueue\<close>: the queue of \<open>sync.go\<close>, its file and its crash
  (\<open>wal_step\<close>). \<open>QueueLaws\<close>, \<open>QueueProps\<close>: what a crash leaves. \<open>Replication\<close>, \<open>ReplicationProps\<close>:
  \<open>dispatch\<close>, delivery, \<open>Restore\<close>, and that HTTP and the peers protocol do the same. \<open>Fetch\<close>: dialling a
  peer and fetching its document. \<open>Ports\<close>: what the first byte of a connection decides, and
  \<open>Listen\<close>. \<open>Converge\<close>: a node, its queue and a peer as one system; what the peer lacks is what is
  queued.

  The cluster, \<open>internal/cluster\<close>. \<open>FileStore\<close>: the log and the small values Raft keeps
  (\<open>filestore.go\<close>), with checkpoints and crashes; \<open>FileStoreLaws\<close> states in the locale
  \<open>durable_register\<close> why a value that was set durably is found after any crash, and interprets it for
  term and vote, other keys, and entries; \<open>FileStoreProps\<close> has the properties. \<open>Cluster\<close>, \<open>Manager\<close>: commands, the state
  machine, the pool of connections, forwarding, starting and stopping (\<open>cluster.go\<close>, \<open>forward.go\<close>).
  \<open>ForwardLaws\<close>, \<open>ClusterLaws\<close>, \<open>ClusterProps\<close>: a forwarded write, replicas, connections.

  Clients. \<open>TcpApi\<close>: a connection of the line protocol (\<open>internal/tcpapi\<close>), with buffered reads and
  writes of 4096 bytes; its loop ends because every round reads a byte. \<open>TcpProps\<close>: replies, and when they are sent. \<open>TcpLines\<close>:
  no client breaks the log. \<open>TcpServer\<close>: \<open>Listen\<close>, \<open>Shutdown\<close> and the goroutines of connections as a state
  machine; after \<open>Shutdown\<close> a run has at most four steps for each connection and six more. \<open>HttpApi\<close>:
  \<open>internal/httpapi\<close>. \<open>Config\<close>: \<open>internal/config\<close> and \<open>cmd/simpleconf/main.go\<close>. \<open>Bench\<close>:
  \<open>cmd/simpleconf-bench/main.go\<close>, the load generator, run against the server of \<open>TcpApi\<close>.

  Parameters, all of code that is not in the repository: \<open>libs\<close> (gjson, goccy/go-json), \<open>codec\<close> and
  \<open>fs_codec\<close> (the JSON of queue and Raft records), \<open>cluster_libs\<close> (the JSON of commands, error texts),
  \<open>raft_lib\<close> (hashicorp/raft), \<open>network\<close>, \<open>http_client\<close>, \<open>peer_net\<close>, \<open>viper\<close>. What a theorem asks of one is
  a named hypothesis: that the parser reports pieces of the text it was given
  (\<open>parser_keeps_lines\<close>) or reads back the text of a value (\<open>reads_back\<close>, \<open>ops_read\<close>), that a record
  is encoded on one line and decoded to itself (\<open>kept\<close>, \<open>good_line\<close>).

  Not modelled. How fiber matches a request to a route, and its recovery of a panic; socket deadlines and keep-alives; the
  time a ticker fires (a tick is a step that may happen); log messages and the output of the load
  generator; 64-bit overflow of counters and file sizes. Outside \<open>Race\<close> an operation of the store is one
  step, document and log queue together.
\<close>

end
